(* ===== verification/Prelude.thy ===== *)
theory Prelude
  imports Main "HOL-Library.Word" "HOL-Library.AList" "HOL-Library.Sublist" "HOL-Library.Multiset"
begin

unbundle bit_operations_syntax

text \<open>
  Shared vocabulary of the development: bytes and their signed reading, the exceptions the C++ code
  can raise, the pieces of \<open>std::string\<close> the program uses (\<open>operator[]\<close>, \<open>find\<close>,
  \<open>find_first_of\<close>, \<open>substr\<close>), \<open>size_t\<close> arithmetic, the decimal conversions
  \<open>std::to_string\<close> and \<open>std::stoul\<close>, and the generic lemmas about them that the components
  share. A C++ string is a \<open>char list\<close>, one \<open>char\<close> per byte.
\<close>

section \<open>Collections of facts\<close>

named_theorems res_simps \<open>evaluation of results that may carry an exception\<close>
named_theorems str_simps \<open>searching and slicing of strings\<close>

section \<open>Results that may be an exception\<close>

text \<open>
  The exceptions that can leave a function of the program. \<open>Literal_thrown\<close> is a thrown
  \<open>const char*\<close> (not a \<open>std::exception\<close>); \<open>Inference_error\<close> is the exception of the inference
  engine (also thrown by the program's own \<open>THROW_IE_EXCEPTION\<close>), \<open>Opencv_error\<close> that of the image
  library. \<open>Undefined_behaviour\<close> marks a read outside an object or a conversion that does not fit, which
  the language gives no meaning and no handler catches. Signed arithmetic is none of these: the build sets
  \<open>-fwrapv\<close>, so it wraps.
\<close>

datatype exn =
    Literal_thrown string
  | Out_of_range
  | Invalid_argument
  | Redis_error
  | Logic_error string
  | Runtime_error string
  | Inference_error string
  | Opencv_error
  | Undefined_behaviour

type_synonym 'a result = "exn + 'a"

fun is_std_exception :: "exn \<Rightarrow> bool" where
  "is_std_exception (Literal_thrown _) = False"
| "is_std_exception Out_of_range = True"
| "is_std_exception Invalid_argument = True"
| "is_std_exception Redis_error = True"
| "is_std_exception (Logic_error _) = True"
| "is_std_exception (Runtime_error _) = True"
| "is_std_exception (Inference_error _) = True"
| "is_std_exception Opencv_error = True"
| "is_std_exception Undefined_behaviour = False"

fun bind_res :: "'a result \<Rightarrow> ('a \<Rightarrow> 'b result) \<Rightarrow> 'b result" where
  "bind_res (Inl e) f = Inl e"
| "bind_res (Inr a) f = f a"

lemma bind_res_cong [fundef_cong]:
  "m = m' \<Longrightarrow> (\<And>a. m' = Inr a \<Longrightarrow> f a = g a) \<Longrightarrow> bind_res m f = bind_res m' g"
  by (cases m') auto

lemma bind_res_Inr_iff [res_simps]:
  "bind_res m f = Inr b \<longleftrightarrow> (\<exists>a. m = Inr a \<and> f a = Inr b)"
  by (cases m) auto

lemma bind_res_Inl_iff [res_simps]:
  "bind_res m f = Inl e \<longleftrightarrow> m = Inl e \<or> (\<exists>a. m = Inr a \<and> f a = Inl e)"
  by (cases m) auto

section \<open>Bytes\<close>

type_synonym u8 = "8 word"
type_synonym u32 = "32 word"
type_synonym size_t = "64 word"

text \<open>A \<open>char\<close> read as \<open>unsigned char\<close>, and as the signed \<open>char\<close> of the target platform.\<close>

definition uchar :: "char \<Rightarrow> nat" where
  "uchar c = of_char c"

definition schar :: "char \<Rightarrow> int" where
  "schar c = (if uchar c < 128 then int (uchar c) else int (uchar c) - 256)"

abbreviation CR :: char where "CR \<equiv> CHR 0x0D"
abbreviation LF :: char where "LF \<equiv> CHR 0x0A"
abbreviation NUL :: char where "NUL \<equiv> CHR 0x00"
abbreviation DQ :: char where "DQ \<equiv> CHR 0x22"
abbreviation TAB :: char where "TAB \<equiv> CHR 0x09"
abbreviation CRLF :: string where "CRLF \<equiv> [CR, LF]"

lemma uchar_less [simp]: "uchar c < 256"
  by (simp add: uchar_def)

lemma uchar_eq_iff: "uchar c = uchar d \<longleftrightarrow> c = d"
  by (simp add: uchar_def)

lemma char_of_uchar [simp]: "char_of (uchar c) = c"
  by (simp add: uchar_def)

lemma uchar_char_of: "uchar (char_of n) = n mod 256"
  by (simp add: uchar_def)

section \<open>Indexing and slicing a string\<close>

text \<open>
  \<open>operator[]\<close>: the element, the terminating NUL at position \<open>size()\<close>, and undefined behaviour
  beyond it.
\<close>

definition str_at :: "string \<Rightarrow> nat \<Rightarrow> char result" where
  "str_at s i =
     (if i < length s then Inr (s ! i)
      else if i = length s then Inr NUL else Inl Undefined_behaviour)"

text \<open>\<open>substr(pos, n)\<close>: throws when \<open>pos > size()\<close>, else at most \<open>n\<close> characters.\<close>

definition substr :: "string \<Rightarrow> nat \<Rightarrow> nat \<Rightarrow> string result" where
  "substr s pos n = (if length s < pos then Inl Out_of_range else Inr (take n (drop pos s)))"

text \<open>
  \<open>size_t\<close> subtraction and addition as the code performs them on lengths and positions: modulo
  \<open>2 ^ 64\<close>. \<open>npos\<close> is the largest \<open>size_t\<close>.
\<close>

definition npos :: nat where "npos = 2 ^ 64 - 1"

definition sz_sub :: "nat \<Rightarrow> nat \<Rightarrow> nat" where
  "sz_sub a b = (a + 2 ^ 64 - b) mod 2 ^ 64"

definition sz_add :: "nat \<Rightarrow> nat \<Rightarrow> nat" where
  "sz_add a b = (a + b) mod 2 ^ 64"

text \<open>The strings an implementation can hold: \<open>max_size()\<close> is below \<open>2 ^ 63\<close>.\<close>

definition fits :: "string \<Rightarrow> bool" where
  "fits s \<longleftrightarrow> length s < 2 ^ 63"

lemma sz_sub_le [simp]: "b \<le> a \<Longrightarrow> a < 2 ^ 64 \<Longrightarrow> sz_sub a b = a - b"
proof -
  assume "b \<le> a" and "a < 2 ^ 64"
  then have "a + 2 ^ 64 - b = (a - b) + 2 ^ 64" and "a - b < 2 ^ 64" by linarith+
  then show "sz_sub a b = a - b" unfolding sz_sub_def by (metis mod_add_self2 mod_less)
qed

lemma sz_sub_wrap: "a < b \<Longrightarrow> b \<le> 2 ^ 64 \<Longrightarrow> sz_sub a b = a + 2 ^ 64 - b"
  by (simp add: sz_sub_def)

lemma sz_add_small [simp]: "a + b < 2 ^ 64 \<Longrightarrow> sz_add a b = a + b"
  by (simp add: sz_add_def)

section \<open>Searching a string\<close>

text \<open>\<open>find_sub pat s\<close> is the offset of the first occurrence of \<open>pat\<close> in \<open>s\<close>.\<close>

fun find_sub :: "string \<Rightarrow> string \<Rightarrow> nat option" where
  "find_sub pat [] = (if pat = [] then Some 0 else None)"
| "find_sub pat (c # cs) =
     (if prefix pat (c # cs) then Some 0 else map_option Suc (find_sub pat cs))"

text \<open>\<open>s.find(pat, from)\<close>; \<open>None\<close> stands for the return value \<open>npos\<close>.\<close>

definition str_find :: "string \<Rightarrow> string \<Rightarrow> nat \<Rightarrow> nat option" where
  "str_find s pat from =
     (if from \<le> length s then map_option ((+) from) (find_sub pat (drop from s)) else None)"

fun find_pred :: "(char \<Rightarrow> bool) \<Rightarrow> string \<Rightarrow> nat option" where
  "find_pred P [] = None"
| "find_pred P (c # cs) = (if P c then Some 0 else map_option Suc (find_pred P cs))"

text \<open>\<open>s.find_first_of(chars, from)\<close>.\<close>

definition find_first_of :: "string \<Rightarrow> string \<Rightarrow> nat \<Rightarrow> nat option" where
  "find_first_of s chars from =
     (if from \<le> length s then map_option ((+) from) (find_pred (\<lambda>c. c \<in> set chars) (drop from s))
      else None)"

text \<open>The value the variable of type \<open>size_type\<close> holds.\<close>

fun idx_val :: "nat option \<Rightarrow> nat" where
  "idx_val (Some i) = i"
| "idx_val None = npos"


subsection \<open>Facts about searching\<close>

lemma find_sub_Nil_pat [str_simps]: "find_sub [] s = Some 0"
  by (cases s) auto

lemma find_sub_here [str_simps]: "find_sub pat (pat @ rest) = Some 0"
proof (cases "pat @ rest")
  case (Cons a xs)
  have "prefix pat (a # xs)" by (simp flip: Cons)
  with Cons show ?thesis by simp
qed auto

lemma find_sub_Some_prefix: "find_sub pat s = Some i \<Longrightarrow> prefix pat (drop i s) \<and> i \<le> length s"
  by (induction s arbitrary: i) (auto split: if_splits)

lemma find_sub_Some_bound: "find_sub pat s = Some i \<Longrightarrow> i + length pat \<le> length s"
  using find_sub_Some_prefix [of pat s i] prefix_length_le [of pat "drop i s"] by auto

lemma find_sub_None_iff: "find_sub pat s = None \<longleftrightarrow> \<not> sublist pat s"
  by (induction s) (auto simp: sublist_Cons_right)

lemma find_sub_first: "find_sub pat s = Some i \<Longrightarrow> j < i \<Longrightarrow> \<not> prefix pat (drop j s)"
proof (induction s arbitrary: i j)
  case Nil
  then show ?case by (auto split: if_splits)
next
  case (Cons c cs)
  show ?case
  proof (cases j)
    case 0
    with Cons.prems show ?thesis by (auto split: if_splits)
  next
    case (Suc k)
    with Cons.prems obtain i' where "find_sub pat cs = Some i'" and "k < i'"
      by (auto split: if_splits)
    with Cons.IH [of i' k] Suc show ?thesis by simp
  qed
qed

lemma prefix_append_stop:
  assumes "c \<notin> set p" and "c \<notin> set xs"
  shows "prefix (p @ c # t) (xs @ c # r) \<longleftrightarrow> p = xs \<and> prefix t r"
  using assms
proof (induction p arbitrary: xs)
  case Nil
  then show ?case by (cases xs) auto
next
  case (Cons a p)
  then show ?case by (cases xs) auto
qed

text \<open>
  The text the program searches is made of lines ending in CRLF. A pattern that is one line skips
  every line it is not a suffix of.
\<close>

lemma find_line_skip [str_simps]:
  assumes "CR \<notin> set line" and "CR \<notin> set p" and "LF \<notin> set p" and "\<not> suffix p line"
  shows "find_sub (p @ CRLF) (line @ CRLF @ rest) =
    map_option ((+) (length line + 2)) (find_sub (p @ CRLF) rest)"
  using assms
proof (induction line)
  case Nil
  then obtain a q where "p = a # q" "a \<noteq> CR" "a \<noteq> LF" by (cases p) auto
  then show ?case by (auto simp: option.map_comp comp_def intro!: option.map_cong)
next
  case (Cons a line)
  then have "p \<noteq> a # line" and "\<not> suffix p line" by (auto simp: suffix_Cons)
  moreover have "\<not> prefix (p @ CRLF) ((a # line) @ CRLF @ rest)"
    using Cons.prems \<open>p \<noteq> a # line\<close> prefix_append_stop [of CR p "a # line" "[LF]" "LF # rest"]
    by simp
  ultimately show ?case
    using Cons by (auto simp: option.map_comp comp_def intro!: option.map_cong)
qed

lemma find_sub_char [str_simps]: "c \<notin> set xs \<Longrightarrow> find_sub [c] (xs @ c # ys) = Some (length xs)"
  by (induction xs) auto

lemma find_sub_char_None [str_simps]: "c \<notin> set xs \<Longrightarrow> find_sub [c] xs = None"
  by (induction xs) auto

lemma find_sub_crlf [str_simps]: "CR \<notin> set xs \<Longrightarrow> find_sub CRLF (xs @ CRLF @ ys) = Some (length xs)"
  by (induction xs) auto

text \<open>The empty line that ends a block of header lines.\<close>

lemma find_blank_line_skip [str_simps]:
  assumes "CR \<notin> set line" and "c \<noteq> CR"
  shows "find_sub (CRLF @ CRLF) (line @ CRLF @ c # rest) =
    map_option ((+) (length line + 2)) (find_sub (CRLF @ CRLF) (c # rest))"
  using assms
  by (induction line) (auto simp: option.map_comp comp_def intro!: option.map_cong)

lemma find_blank_line_here [str_simps]:
  "CR \<notin> set line \<Longrightarrow> find_sub (CRLF @ CRLF) (line @ CRLF @ CRLF @ rest) = Some (length line)"
  by (induction line) auto

lemma find_pred_None_iff: "find_pred P s = None \<longleftrightarrow> (\<forall>c\<in>set s. \<not> P c)"
  by (induction s) auto

lemma find_pred_append [str_simps]:
  "(\<forall>c\<in>set xs. \<not> P c) \<Longrightarrow> P c \<Longrightarrow> find_pred P (xs @ c # ys) = Some (length xs)"
  by (induction xs) auto

lemma str_find_0: "str_find s pat 0 = find_sub pat s"
proof -
  have "(+) (0::nat) = id" by auto
  then show ?thesis by (simp add: str_find_def option.map_id)
qed

lemma str_find_append [str_simps]:
  "str_find (xs @ ys) pat (length xs) = map_option ((+) (length xs)) (find_sub pat ys)"
  by (simp add: str_find_def)

lemma str_find_Some_bound: "str_find s pat from = Some i \<Longrightarrow> from \<le> i \<and> i + length pat \<le> length s"
  by (auto simp: str_find_def split: if_splits dest: find_sub_Some_bound)

section \<open>Decimal numerals\<close>

definition is_digit_char :: "char \<Rightarrow> bool" where
  "is_digit_char c \<longleftrightarrow> 48 \<le> uchar c \<and> uchar c \<le> 57"

definition digit_char :: "nat \<Rightarrow> char" where
  "digit_char d = char_of (48 + d)"

text \<open>\<open>std::to_string\<close> of an unsigned value, and what \<open>operator<<\<close> prints for it.\<close>

fun dec :: "nat \<Rightarrow> string" where
  "dec n = (if n < 10 then [digit_char n] else dec (n div 10) @ [digit_char (n mod 10)])"

declare dec.simps [simp del]

definition dec_val :: "string \<Rightarrow> nat" where
  "dec_val ds = foldl (\<lambda>a c. 10 * a + (uchar c - 48)) 0 ds"

definition is_space_char :: "char \<Rightarrow> bool" where
  "is_space_char c \<longleftrightarrow> uchar c = 32 \<or> (9 \<le> uchar c \<and> uchar c \<le> 13)"

text \<open>
  \<open>std::stoul\<close> in base 10: leading white space, an optional sign, the longest run of digits; a minus
  sign negates modulo \<open>2 ^ 64\<close>. No digit is \<open>std::invalid_argument\<close>, a value that does not fit is
  \<open>std::out_of_range\<close>.
\<close>

definition stoul :: "string \<Rightarrow> nat result" where
  "stoul s =
     (let s1 = dropWhile is_space_char s;
          neg = (case s1 of [] \<Rightarrow> False | c # _ \<Rightarrow> c = CHR ''-'');
          s2 = (case s1 of [] \<Rightarrow> [] | c # r \<Rightarrow> if c = CHR ''-'' \<or> c = CHR ''+'' then r else s1);
          ds = takeWhile is_digit_char s2
      in if ds = [] then Inl Invalid_argument
         else if 2 ^ 64 \<le> dec_val ds then Inl Out_of_range
         else Inr (if neg then sz_sub 0 (dec_val ds) else dec_val ds))"

lemma is_digit_digit_char: "d < 10 \<Longrightarrow> is_digit_char (digit_char d)"
  by (simp add: is_digit_char_def digit_char_def uchar_char_of)

lemma uchar_digit_char: "d < 10 \<Longrightarrow> uchar (digit_char d) = 48 + d"
  by (simp add: digit_char_def uchar_char_of)

lemma dec_digits: "c \<in> set (dec n) \<Longrightarrow> is_digit_char c"
proof (induction n rule: dec.induct)
  case (1 n)
  then show ?case
    by (cases "n < 10") (auto simp: dec.simps [of n] is_digit_digit_char)
qed

lemma dec_nonempty [simp]: "dec n \<noteq> []"
  by (simp add: dec.simps [of n])

lemma dec_val_dec [simp]: "dec_val (dec n) = n"
proof (induction n rule: dec.induct)
  case (1 n)
  then show ?case
    by (cases "n < 10") (auto simp: dec.simps [of n] dec_val_def uchar_digit_char)
qed

lemma dec_inject [simp]: "dec m = dec n \<longleftrightarrow> m = n"
  by (metis dec_val_dec)

lemma digit_not_space: "is_digit_char c \<Longrightarrow> \<not> is_space_char c"
  by (auto simp: is_digit_char_def is_space_char_def)

lemma digit_not_sign: "is_digit_char c \<Longrightarrow> c \<noteq> CHR ''-'' \<and> c \<noteq> CHR ''+''"
  by (auto simp: is_digit_char_def uchar_def)

theorem stoul_dec: "n < 2 ^ 64 \<Longrightarrow> stoul (dec n) = Inr n"
proof -
  assume n: "n < 2 ^ 64"
  obtain c r where cr: "dec n = c # r" by (cases "dec n") auto
  have "is_digit_char c" using dec_digits [of c n] cr by simp
  then have "dropWhile is_space_char (dec n) = dec n" "c \<noteq> CHR ''-''" "c \<noteq> CHR ''+''"
    using digit_not_space digit_not_sign cr by auto
  moreover have "takeWhile is_digit_char (dec n) = dec n"
    using dec_digits by (auto simp: takeWhile_eq_all_conv)
  moreover have "dec_val (c # r) = n" using cr dec_val_dec [of n] by simp
  ultimately show ?thesis using n cr by (simp add: stoul_def Let_def)
qed

section \<open>Masks and shifts on 32-bit words\<close>

lemma and_mask_mod: "(x::nat) AND (2 ^ n - 1) = x mod 2 ^ n"
  by (simp add: take_bit_eq_mod [symmetric] take_bit_eq_mask mask_eq_exp_minus_1)

lemma and_low_bits:
  fixes x :: nat
  shows "x AND 63 = x mod 64" and "x AND 15 = x mod 16" and "x AND 3 = x mod 4"
  using and_mask_mod [of x 6] and_mask_mod [of x 4] and_mask_mod [of x 2] by simp_all

lemma unat_drop_and:
  "unat (drop_bit k ((w::u32) AND m)) = (unat w div 2 ^ k) AND (unat m div 2 ^ k)"
  by (simp only: unat_drop_bit_eq unsigned_and_eq drop_bit_and drop_bit_eq_div [symmetric])

lemma unat_push_small:
  assumes "unat (w::u32) * 2 ^ k < 2 ^ 32"
  shows "unat (push_bit k w) = unat w * 2 ^ k"
  using assms by (simp only: unsigned_push_bit_eq push_bit_eq_mult [of k "unat w"] take_bit_eq_mod) simp

lemma unat_push_and:
  assumes "(unat (w::u32) AND unat m) * 2 ^ k < 2 ^ 32"
  shows "unat (push_bit k (w AND m)) = (unat w AND unat m) * 2 ^ k"
  using unat_push_small [of "w AND m" k] assms by (simp only: unsigned_and_eq)

lemma unat_add_small: "unat (v::u32) + unat w < 2 ^ 32 \<Longrightarrow> unat (v + w) = unat v + unat w"
  by (simp add: unat_word_ariths)

section \<open>Loops over a range, and conversions between integer types\<close>

text \<open>A loop whose body may throw: the state is passed along until it does.\<close>

primrec fold_res :: "('a \<Rightarrow> 's \<Rightarrow> 's result) \<Rightarrow> 'a list \<Rightarrow> 's \<Rightarrow> 's result" where
  "fold_res f [] s = Inr s"
| "fold_res f (x # xs) s = bind_res (f x s) (fold_res f xs)"

lemma fold_res_append [res_simps]:
  "fold_res f (xs @ ys) s = bind_res (fold_res f xs s) (fold_res f ys)"
proof (induction xs arbitrary: s)
  case (Cons x xs)
  then show ?case by (cases "f x s") auto
qed simp

text \<open>\<open>static_cast<int>\<close> of a 64-bit unsigned, the converse, and \<open>unsigned\<close> of an \<open>int\<close>.\<close>

definition int_of_size :: "nat \<Rightarrow> int" where
  "int_of_size n = (let m = n mod 2 ^ 32 in if m < 2 ^ 31 then int m else int m - 2 ^ 32)"

definition size_of_int :: "int \<Rightarrow> nat" where
  "size_of_int i = nat (i mod 2 ^ 64)"

definition unsigned_of_int :: "int \<Rightarrow> nat" where
  "unsigned_of_int i = nat (i mod 2 ^ 32)"

definition in_int :: "int \<Rightarrow> bool" where
  "in_int i \<longleftrightarrow> - (2 ^ 31) \<le> i \<and> i < 2 ^ 31"

text \<open>The arithmetic of \<open>int\<close> and \<open>long long\<close> wraps, and \<open>/\<close> rounds towards zero.\<close>

definition wrap_int :: "int \<Rightarrow> int" where
  "wrap_int i = (i + 2 ^ 31) mod 2 ^ 32 - 2 ^ 31"

definition wrap_long :: "int \<Rightarrow> int" where
  "wrap_long i = (i + 2 ^ 63) mod 2 ^ 64 - 2 ^ 63"

definition int_quot :: "int \<Rightarrow> int \<Rightarrow> int" where
  "int_quot a b = (if a < 0 then - (- a div b) else a div b)"

lemma in_int_wrap [simp]: "in_int (wrap_int i)"
  using pos_mod_bound [of "2 ^ 32" "i + 2 ^ 31"] pos_mod_sign [of "2 ^ 32" "i + 2 ^ 31"]
  by (simp add: in_int_def wrap_int_def del: pos_mod_bound pos_mod_sign)

lemma wrap_int_id: "in_int i \<Longrightarrow> wrap_int i = i"
  by (simp add: in_int_def wrap_int_def)

lemma wrap_int_small [simp]: "0 \<le> i \<Longrightarrow> i < 2 ^ 31 \<Longrightarrow> wrap_int i = i"
  by (simp add: wrap_int_id in_int_def)

lemma int_quot_nonneg [simp]: "0 \<le> a \<Longrightarrow> int_quot a b = a div b"
  by (simp add: int_quot_def)

lemma int_of_size_small: "n < 2 ^ 31 \<Longrightarrow> int_of_size n = int n"
  by (simp add: int_of_size_def)

lemma size_of_int_small: "0 \<le> i \<Longrightarrow> i < 2 ^ 64 \<Longrightarrow> size_of_int i = nat i"
  by (simp add: size_of_int_def)

lemma unsigned_of_int_small: "0 \<le> i \<Longrightarrow> i < 2 ^ 32 \<Longrightarrow> unsigned_of_int i = nat i"
  by (simp add: unsigned_of_int_def)

end
