(* ===== verification/Effects.thy ===== *)
theory Effects
  imports Complex_Main Prelude
begin

text \<open>
  What the pipeline's code needs beyond results: programs that change an object and may throw, in which
  the changes made before the throw remain, and single precision numbers. The rounding of an arithmetic
  operation is an argument: C++ leaves it to the platform, which may also keep excess precision.
\<close>

section \<open>Programs on an object\<close>

type_synonym ('s, 'a) prog = "'s \<Rightarrow> 'a result \<times> 's"

definition ret :: "'a \<Rightarrow> ('s, 'a) prog" where
  "ret a s = (Inr a, s)"

definition raise :: "exn \<Rightarrow> ('s, 'a) prog" where
  "raise e s = (Inl e, s)"

definition lift_res :: "'a result \<Rightarrow> ('s, 'a) prog" where
  "lift_res r s = (r, s)"

definition change :: "('s \<Rightarrow> 's) \<Rightarrow> ('s, unit) prog" where
  "change f s = (Inr (), f s)"

definition ask :: "('s \<Rightarrow> 'a) \<Rightarrow> ('s, 'a) prog" where
  "ask f s = (Inr (f s), s)"

definition bind_prog :: "('s, 'a) prog \<Rightarrow> ('a \<Rightarrow> ('s, 'b) prog) \<Rightarrow> ('s, 'b) prog" where
  "bind_prog p f s = (case p s of (Inl e, s') \<Rightarrow> (Inl e, s') | (Inr a, s') \<Rightarrow> f a s')"

definition seq_prog :: "('s, unit) prog \<Rightarrow> ('s, 'b) prog \<Rightarrow> ('s, 'b) prog" where
  "seq_prog p q = bind_prog p (\<lambda>_. q)"

text \<open>A program on a member of an object.\<close>

definition on_part :: "('s \<Rightarrow> 't) \<Rightarrow> (('t \<Rightarrow> 't) \<Rightarrow> 's \<Rightarrow> 's) \<Rightarrow> ('t, 'a) prog \<Rightarrow> ('s, 'a) prog" where
  "on_part get upd p s = (case p (get s) of (r, t) \<Rightarrow> (r, upd (\<lambda>_. t) s))"

primrec fold_prog :: "('a \<Rightarrow> 'b \<Rightarrow> ('s, 'b) prog) \<Rightarrow> 'a list \<Rightarrow> 'b \<Rightarrow> ('s, 'b) prog" where
  "fold_prog f [] b = ret b"
| "fold_prog f (x # xs) b = bind_prog (f x b) (fold_prog f xs)"

named_theorems prog_simps \<open>evaluation of programs\<close>

lemma bind_prog_simps [prog_simps]:
  "p s = (Inl e, s') \<Longrightarrow> bind_prog p f s = (Inl e, s')"
  "p s = (Inr a, s') \<Longrightarrow> bind_prog p f s = f a s'"
  by (simp_all add: bind_prog_def)

lemmas basic_progs [prog_simps] = ret_def raise_def lift_res_def change_def ask_def

lemma bind_ret [simp]: "bind_prog (ret a) f = f a"
  by (rule ext) (simp add: bind_prog_def ret_def)

lemma bind_ask [simp]: "bind_prog (ask g) f s = f (g s) s"
  by (simp add: bind_prog_def ask_def)

lemma bind_change [simp]: "bind_prog (change g) f s = f () (g s)"
  by (simp add: bind_prog_def change_def)

lemma bind_lift [simp]: "bind_prog (lift_res r) f s = (case r of Inl e \<Rightarrow> (Inl e, s) | Inr a \<Rightarrow> f a s)"
  by (simp add: bind_prog_def lift_res_def split: sum.split)

lemma bind_raise [simp]: "bind_prog (raise e) f s = (Inl e, s)"
  by (simp add: bind_prog_def raise_def)

lemma bind_prog_Inr:
  "bind_prog p f s = (Inr b, t) \<longleftrightarrow> (\<exists>a s'. p s = (Inr a, s') \<and> f a s' = (Inr b, t))"
  by (auto simp: bind_prog_def split: prod.splits sum.splits)

lemma bind_prog_Inl:
  "bind_prog p f s = (Inl e, t) \<longleftrightarrow> p s = (Inl e, t) \<or> (\<exists>a s'. p s = (Inr a, s') \<and> f a s' = (Inl e, t))"
  by (auto simp: bind_prog_def split: prod.splits sum.splits)

section \<open>Handlers\<close>

text \<open>What a \<open>catch (...)\<close> can catch: everything thrown, but nothing can catch undefined behaviour.\<close>

fun catchable :: "exn \<Rightarrow> bool" where
  "catchable Undefined_behaviour = False"
| "catchable _ = True"

text \<open>A \<open>try\<close> block with \<open>catch (const std::exception&)\<close> and \<open>catch (...)\<close>, both of which yield \<open>d s\<close>.\<close>

definition catch_all :: "('s, 'a) prog \<Rightarrow> ('s \<Rightarrow> 'a) \<Rightarrow> ('s, 'a) prog" where
  "catch_all p d s =
     (case p s of (Inl e, s') \<Rightarrow> (if catchable e then (Inr (d s'), s') else (Inl e, s'))
      | (Inr a, s') \<Rightarrow> (Inr a, s'))"

lemma catch_all_Inl: "catch_all p d s = (Inl e, t) \<Longrightarrow> e = Undefined_behaviour"
  by (cases e) (auto simp: catch_all_def split: prod.splits sum.splits if_splits)

section \<open>Single precision numbers\<close>

text \<open>\<open>Inf neg\<close> is an infinity with its sign. The sign of zero cannot be observed in what the code does.\<close>

datatype f32 = Fin rat | Inf bool | NaN

fun f_mul :: "(rat \<Rightarrow> f32) \<Rightarrow> f32 \<Rightarrow> f32 \<Rightarrow> f32" where
  "f_mul rd (Fin a) (Fin b) = rd (a * b)"
| "f_mul rd (Fin a) (Inf n) = (if a = 0 then NaN else Inf (n \<noteq> (a < 0)))"
| "f_mul rd (Inf n) (Fin b) = (if b = 0 then NaN else Inf (n \<noteq> (b < 0)))"
| "f_mul rd (Inf m) (Inf n) = Inf (m \<noteq> n)"
| "f_mul rd NaN b = NaN"
| "f_mul rd a NaN = NaN"

fun f_sub :: "(rat \<Rightarrow> f32) \<Rightarrow> f32 \<Rightarrow> f32 \<Rightarrow> f32" where
  "f_sub rd (Fin a) (Fin b) = rd (a - b)"
| "f_sub rd (Fin a) (Inf n) = Inf (\<not> n)"
| "f_sub rd (Inf n) (Fin b) = Inf n"
| "f_sub rd (Inf m) (Inf n) = (if m = n then NaN else Inf m)"
| "f_sub rd NaN b = NaN"
| "f_sub rd a NaN = NaN"

text \<open>Comparisons with a constant; with NaN they are false.\<close>

fun f_less :: "f32 \<Rightarrow> rat \<Rightarrow> bool" where
  "f_less (Fin a) c \<longleftrightarrow> a < c"
| "f_less (Inf n) c \<longleftrightarrow> n"
| "f_less NaN c \<longleftrightarrow> False"

fun f_le :: "f32 \<Rightarrow> rat \<Rightarrow> bool" where
  "f_le (Fin a) c \<longleftrightarrow> a \<le> c"
| "f_le (Inf n) c \<longleftrightarrow> n"
| "f_le NaN c \<longleftrightarrow> False"

fun f_greater :: "f32 \<Rightarrow> rat \<Rightarrow> bool" where
  "f_greater (Fin a) c \<longleftrightarrow> c < a"
| "f_greater (Inf n) c \<longleftrightarrow> \<not> n"
| "f_greater NaN c \<longleftrightarrow> False"

text \<open>\<open>static_cast<int>\<close>: towards zero; undefined when the result is not an \<open>int\<close>.\<close>

definition trunc_rat :: "rat \<Rightarrow> int" where
  "trunc_rat q = (if 0 \<le> q then \<lfloor>q\<rfloor> else \<lceil>q\<rceil>)"

fun int_of_f32 :: "f32 \<Rightarrow> int result" where
  "int_of_f32 (Fin q) = (if in_int (trunc_rat q) then Inr (trunc_rat q) else Inl Undefined_behaviour)"
| "int_of_f32 _ = Inl Undefined_behaviour"

end
