(* ===== verification/Tensor.thy ===== *)
theory Tensor
  imports Prelude
begin

text \<open>
  Tensors as the pipeline sees them: descriptors and blobs of the inference engine, the four functions of
  \<open>include/server/PersonPipeline/common.hpp\<close> that read a dimension off a descriptor. What the engine
  computes itself (\<open>TensorDesc::getLayoutByDims\<close>) is an argument.
\<close>

section \<open>Tensor descriptors\<close>

text \<open>The layouts and precisions the code names; the engine has more.\<close>

datatype layout =
    NCHW | NHWC | NCDHW | NDHWC | OIHW | C_layout | CHW | HW | NC | CN | SCALAR | BLOCKED
  | Other_layout nat

datatype precision = U8 | FP32 | Other_precision nat

record tensor_desc =
  desc_precision :: precision
  desc_dims :: "nat list"
  desc_layout :: layout

abbreviation spatial_layouts :: "layout set" where
  "spatial_layouts \<equiv> {NCHW, NHWC, NCDHW, NDHWC, OIHW, CHW, HW}"

definition no_width :: string where "no_width = ''Tensor does not have width dimension''"
definition no_height :: string where "no_height = ''Tensor does not have height dimension''"
definition no_channels :: string where "no_channels = ''Tensor does not have channels dimension''"

text \<open>\<open>dims.at(i)\<close> throws, \<open>dims[i]\<close> does not check.\<close>

definition dims_at :: "nat list \<Rightarrow> nat \<Rightarrow> nat result" where
  "dims_at ds i = (if i < length ds then Inr (ds ! i) else Inl Out_of_range)"

definition dims_index :: "nat list \<Rightarrow> nat \<Rightarrow> nat result" where
  "dims_index ds i = (if i < length ds then Inr (ds ! i) else Inl Undefined_behaviour)"

definition getTensorWidth :: "tensor_desc \<Rightarrow> nat result" where
  "getTensorWidth d =
     (if 2 \<le> length (desc_dims d) \<and> desc_layout d \<in> spatial_layouts then Inr (last (desc_dims d))
      else Inl (Inference_error no_width))"

definition getTensorHeight :: "tensor_desc \<Rightarrow> nat result" where
  "getTensorHeight d =
     (if 2 \<le> length (desc_dims d) \<and> desc_layout d \<in> spatial_layouts
      then dims_at (desc_dims d) (length (desc_dims d) - 2)
      else Inl (Inference_error no_height))"

text \<open>\<open>lbd\<close> is \<open>TensorDesc::getLayoutByDims\<close>.\<close>

definition getTensorChannels :: "(nat list \<Rightarrow> layout) \<Rightarrow> tensor_desc \<Rightarrow> nat result" where
  "getTensorChannels lbd d =
     (if desc_layout d \<in> {NCHW, NHWC, NCDHW, NDHWC, C_layout, CHW, NC, CN} then
        (case lbd (desc_dims d) of
           C_layout \<Rightarrow> dims_at (desc_dims d) 0
         | NC \<Rightarrow> dims_at (desc_dims d) 1
         | CHW \<Rightarrow> dims_at (desc_dims d) 0
         | NCHW \<Rightarrow> dims_at (desc_dims d) 1
         | NCDHW \<Rightarrow> dims_at (desc_dims d) 1
         | _ \<Rightarrow> Inl (Inference_error no_channels))
      else Inl (Inference_error no_channels))"

definition getTensorBatch :: "(nat list \<Rightarrow> layout) \<Rightarrow> tensor_desc \<Rightarrow> nat result" where
  "getTensorBatch lbd d =
     (if desc_layout d \<in> {NCHW, NHWC, NCDHW, NDHWC, NC, CN} then
        (case lbd (desc_dims d) of
           NC \<Rightarrow> dims_at (desc_dims d) 0
         | NCHW \<Rightarrow> dims_at (desc_dims d) 0
         | NCDHW \<Rightarrow> dims_at (desc_dims d) 0
         | _ \<Rightarrow> Inl (Inference_error no_channels))
      else Inl (Inference_error no_channels))"

text \<open>
  What the engine documents of \<open>getLayoutByDims\<close>: the planar layout of that number of dimensions. The
  dimensions of a tensor are listed in the fixed order N, C, D, H, W whatever its layout.
\<close>

definition layout_by_rank :: "nat list \<Rightarrow> layout" where
  "layout_by_rank ds =
     (if ds = [] then SCALAR else if length ds = 1 then C_layout else if length ds = 2 then NC
      else if length ds = 3 then CHW else if length ds = 4 then NCHW else if length ds = 5 then NCDHW
      else BLOCKED)"

fun layout_rank :: "layout \<Rightarrow> nat option" where
  "layout_rank NCHW = Some 4"
| "layout_rank NHWC = Some 4"
| "layout_rank OIHW = Some 4"
| "layout_rank NCDHW = Some 5"
| "layout_rank NDHWC = Some 5"
| "layout_rank CHW = Some 3"
| "layout_rank HW = Some 2"
| "layout_rank NC = Some 2"
| "layout_rank CN = Some 2"
| "layout_rank C_layout = Some 1"
| "layout_rank SCALAR = Some 0"
| "layout_rank _ = None"

lemmas tensor_defs = getTensorWidth_def getTensorHeight_def getTensorChannels_def getTensorBatch_def
  layout_by_rank_def dims_at_def

lemma tensor_dims:
  "desc_layout d \<in> {NCHW, NHWC} \<Longrightarrow> desc_dims d = [n, c, h, w] \<Longrightarrow>
     getTensorBatch layout_by_rank d = Inr n \<and> getTensorChannels layout_by_rank d = Inr c \<and>
     getTensorHeight d = Inr h \<and> getTensorWidth d = Inr w"
  "desc_layout d \<in> {NCDHW, NDHWC} \<Longrightarrow> desc_dims d = [n, c, z, h, w] \<Longrightarrow>
     getTensorBatch layout_by_rank d = Inr n \<and> getTensorChannels layout_by_rank d = Inr c \<and>
     getTensorHeight d = Inr h \<and> getTensorWidth d = Inr w"
  "desc_layout d = CHW \<Longrightarrow> desc_dims d = [c, h, w] \<Longrightarrow>
     getTensorBatch layout_by_rank d = Inl (Inference_error no_channels) \<and>
     getTensorChannels layout_by_rank d = Inr c \<and> getTensorHeight d = Inr h \<and> getTensorWidth d = Inr w"
  by (auto simp: tensor_defs)

text \<open>For a descriptor whose dimensions match its layout no check of \<open>at\<close> is reached.\<close>

lemma tensor_errors:
  assumes "layout_rank (desc_layout d) = Some (length (desc_dims d))"
  shows "getTensorWidth d \<noteq> Inl e \<or> e = Inference_error no_width"
    and "getTensorHeight d \<noteq> Inl e \<or> e = Inference_error no_height"
    and "getTensorChannels layout_by_rank d \<noteq> Inl e \<or> e = Inference_error no_channels"
    and "getTensorBatch layout_by_rank d \<noteq> Inl e \<or> e = Inference_error no_channels"
  using assms by (cases "desc_layout d"; auto simp: tensor_defs)+

end
