(* ===== verification/ImageBlob.thy ===== *)
theory ImageBlob
  imports Tensor
begin

text \<open>
  Images and blobs: \<open>include/server/PersonPipeline/ocv_common.hpp\<close>. An OpenCV image is memory with an
  origin and strides, so that a crop is the same memory with another origin; a blob is a descriptor and
  its memory. \<open>matU8ToBlob\<close> copies an image, pixel by pixel, from the interleaved order of OpenCV to the
  planar order of a network input; \<open>cv::resize\<close> is its argument.
\<close>

section \<open>Images\<close>

record mat =
  rows :: nat
  cols :: nat
  channels :: nat
  mem :: "u8 list"
  origin :: nat
  step0 :: nat
  step1 :: nat

text \<open>\<open>at<T>(h, w)[c]\<close> for an element type of \<open>n\<close> bytes.\<close>

definition mat_at :: "nat \<Rightarrow> mat \<Rightarrow> nat \<Rightarrow> nat \<Rightarrow> nat \<Rightarrow> u8 result" where
  "mat_at n m h w c =
     (let i = origin m + h * step0 m + w * n + c
      in if i < length (mem m) then Inr (mem m ! i) else Inl Undefined_behaviour)"

text \<open>The images OpenCV makes: 8-bit, the elements of a row adjacent, every element inside the memory.\<close>

definition mat_ok :: "mat \<Rightarrow> bool" where
  "mat_ok m \<longleftrightarrow> step1 m = channels m \<and>
     (\<forall>h<rows m. origin m + h * step0 m + cols m * channels m \<le> length (mem m))"

definition pixel :: "mat \<Rightarrow> nat \<Rightarrow> nat \<Rightarrow> nat \<Rightarrow> u8" where
  "pixel m h w c = mem m ! (origin m + h * step0 m + w * channels m + c)"

lemma mat_at_pixel:
  assumes "mat_ok m" and "h < rows m" and "w < cols m" and "c < channels m"
  shows "mat_at (channels m) m h w c = Inr (pixel m h w c)"
proof -
  have "w * channels m + c < Suc w * channels m" using assms(4) by simp
  also have "\<dots> \<le> cols m * channels m" using assms(3) by (intro mult_le_mono1) simp
  finally have "origin m + h * step0 m + (w * channels m + c) < length (mem m)"
    using assms(1,2) unfolding mat_ok_def by (meson add_less_cancel_left order_less_le_trans)
  then show ?thesis by (simp add: mat_at_def pixel_def add.assoc)
qed

section \<open>Blobs\<close>

record blob =
  desc :: tensor_desc
  blob_data :: "u8 list"

definition put_byte :: "nat \<Rightarrow> u8 \<Rightarrow> u8 list \<Rightarrow> u8 list result" where
  "put_byte i v xs = (if i < length xs then Inr (xs[i := v]) else Inl Undefined_behaviour)"

definition bad_channels :: string where
  "bad_channels = ''The number of channels for net input and image must match''"

definition unsupported_channels :: string where
  "unsupported_channels = ''Unsupported number of channels''"

text \<open>\<open>batchOffset\<close>: the product is computed in \<open>size_t\<close> and stored in an \<open>int\<close>; added to again as \<open>size_t\<close>.\<close>

definition batch_offset :: "int \<Rightarrow> nat \<Rightarrow> nat \<Rightarrow> nat \<Rightarrow> int" where
  "batch_offset b width height chans = int_of_size ((size_of_int b * width * height * chans) mod 2 ^ 64)"

definition blob_index :: "int \<Rightarrow> nat \<Rightarrow> nat" where
  "blob_index off i = (size_of_int off + i) mod 2 ^ 64"

definition copy_pixel :: "int \<Rightarrow> nat \<Rightarrow> mat \<Rightarrow> nat \<Rightarrow> nat \<Rightarrow> nat \<Rightarrow> nat \<Rightarrow> u8 list \<Rightarrow> u8 list result" where
  "copy_pixel off n m i h w c xs = bind_res (mat_at n m h w c) (\<lambda>v. put_byte (blob_index off i) v xs)"

definition copy_gray :: "int \<Rightarrow> nat \<Rightarrow> nat \<Rightarrow> mat \<Rightarrow> u8 list \<Rightarrow> u8 list result" where
  "copy_gray off width height m =
     fold_res (\<lambda>h. fold_res (\<lambda>w. copy_pixel off 1 m (h * width + w) h w 0) [0..<width]) [0..<height]"

definition copy_color :: "int \<Rightarrow> nat \<Rightarrow> nat \<Rightarrow> nat \<Rightarrow> mat \<Rightarrow> u8 list \<Rightarrow> u8 list result" where
  "copy_color off chans width height m =
     fold_res (\<lambda>c. fold_res (\<lambda>h. fold_res (\<lambda>w.
       copy_pixel off 3 m (c * width * height + h * width + w) h w c) [0..<width]) [0..<height]) [0..<chans]"

text \<open>\<open>resize m w h\<close> is \<open>cv::resize\<close> to the size \<open>(w, h)\<close>.\<close>

definition matU8ToBlob :: "(mat \<Rightarrow> nat \<Rightarrow> nat \<Rightarrow> mat result) \<Rightarrow> mat \<Rightarrow> int \<Rightarrow> blob \<Rightarrow> blob result" where
  "matU8ToBlob resize m batchIndex b =
     (let blobSize = desc_dims (desc b) in
      bind_res (dims_index blobSize 3) (\<lambda>width. bind_res (dims_index blobSize 2) (\<lambda>height.
      bind_res (dims_index blobSize 1) (\<lambda>chans.
        if channels m \<noteq> chans then Inl (Inference_error bad_channels)
        else bind_res
          (if int_of_size width \<noteq> int (cols m) \<or> int_of_size height \<noteq> int (rows m)
           then resize m width height else Inr m) (\<lambda>resized.
          let off = batch_offset batchIndex width height chans in
          bind_res
            (if chans = 1 then copy_gray off width height resized (blob_data b)
             else if chans = 3 then copy_color off chans width height resized (blob_data b)
             else Inl (Inference_error unsupported_channels))
            (\<lambda>xs. Inr (b\<lparr>blob_data := xs\<rparr>)))))))"

definition not_dense :: string where
  "not_dense = ''Doesn't support conversion from not dense cv::Mat''"

definition wrapMat2Blob :: "mat \<Rightarrow> blob result" where
  "wrapMat2Blob m =
     (if step1 m = channels m \<and> step0 m = channels m * cols m
      then Inr \<lparr>desc = \<lparr>desc_precision = U8, desc_dims = [1, channels m, rows m, cols m], desc_layout = NHWC\<rparr>,
             blob_data = drop (origin m) (mem m)\<rparr>
      else Inl (Inference_error not_dense))"

section \<open>Writing a block\<close>

text \<open>\<open>splice xs o ys\<close> is \<open>xs\<close> with \<open>ys\<close> written from position \<open>o\<close> on.\<close>

definition splice_at :: "'a list \<Rightarrow> nat \<Rightarrow> 'a list \<Rightarrow> 'a list" where
  "splice_at xs p ys = take p xs @ ys @ drop (p + length ys) xs"

lemma length_splice_at: "p + length ys \<le> length xs \<Longrightarrow> length (splice_at xs p ys) = length xs"
  by (simp add: splice_at_def)

lemma splice_at_Nil [simp]: "splice_at xs p [] = xs"
  by (simp add: splice_at_def)

lemma splice_at_splice_at:
  "p + length ys + length zs \<le> length xs \<Longrightarrow>
    splice_at (splice_at xs p ys) (p + length ys) zs = splice_at xs p (ys @ zs)"
  by (simp add: splice_at_def ac_simps)

lemma splice_at_one: "p < length xs \<Longrightarrow> splice_at xs p [v] = xs[p := v]"
  by (simp add: splice_at_def upd_conv_take_nth_drop)

lemma nth_splice_at:
  "p + length ys \<le> length xs \<Longrightarrow> i < length xs \<Longrightarrow>
    splice_at xs p ys ! i = (if p \<le> i \<and> i < p + length ys then ys ! (i - p) else xs ! i)"
  by (auto simp: splice_at_def nth_append min_def)

lemma length_blocks: "(\<And>i. i < n \<Longrightarrow> length (v i) = k) \<Longrightarrow> length (concat (map v [0..<n])) = n * k"
  by (induction n) auto

text \<open>A loop each round of which writes the next block of \<open>k\<close> bytes.\<close>

lemma fold_res_blocks:
  assumes "\<And>i xs. i < n \<Longrightarrow> length xs = len \<Longrightarrow> f i xs = Inr (splice_at xs (p + i * k) (v i))"
    and "\<And>i. i < n \<Longrightarrow> length (v i) = k" and "p + n * k \<le> len" and "length xs = len"
  shows "fold_res f [0..<n] xs = Inr (splice_at xs p (concat (map v [0..<n])))"
  using assms(1-3)
proof (induction n)
  case (Suc n)
  let ?done = "concat (map v [0..<n])"
  have len: "length ?done = n * k"
    using Suc.prems(2) by (intro length_blocks) simp
  have IH: "fold_res f [0..<n] xs = Inr (splice_at xs p ?done)" using Suc.prems by (intro Suc.IH) auto
  have "length (splice_at xs p ?done) = length xs"
    using Suc.prems(3) by (intro length_splice_at) (simp add: len assms(4))
  then have "f n (splice_at xs p ?done) = Inr (splice_at xs p (?done @ v n))"
    using Suc.prems(1) [of n] Suc.prems(2) [of n] Suc.prems(3) splice_at_splice_at [of p ?done "v n" xs]
    by (simp add: len assms(4) ac_simps)
  then show ?case by (simp add: fold_res_append IH)
qed simp

lemma nth_concat_blocks:
  "(\<And>i. i < n \<Longrightarrow> length (v i) = k) \<Longrightarrow> i < n \<Longrightarrow> j < k \<Longrightarrow>
    concat (map v [0..<n]) ! (i * k + j) = v i ! j"
proof (induction n)
  case (Suc n)
  have len: "length (concat (map v [0..<n])) = n * k"
    using Suc.prems(1) by (intro length_blocks) simp
  show ?case
  proof (cases "i = n")
    case True
    then show ?thesis by (simp add: nth_append len)
  next
    case False
    then have "i < n" using Suc.prems(2) by simp
    then have "Suc i * k \<le> n * k" by (intro mult_le_mono1) simp
    then have "i * k + j < n * k" using Suc.prems(3) by simp
    then show ?thesis using Suc.IH [OF Suc.prems(1) \<open>i < n\<close> Suc.prems(3)] by (simp add: nth_append len)
  qed
qed simp

section \<open>What the copy writes\<close>

text \<open>The planar order of a network input: one plane per channel, row by row.\<close>

definition plane :: "mat \<Rightarrow> nat \<Rightarrow> nat \<Rightarrow> nat \<Rightarrow> u8 list" where
  "plane m width height c = concat (map (\<lambda>y. map (\<lambda>x. pixel m y x c) [0..<width]) [0..<height])"

definition planar :: "mat \<Rightarrow> nat \<Rightarrow> nat \<Rightarrow> nat \<Rightarrow> u8 list" where
  "planar m chans width height = concat (map (plane m width height) [0..<chans])"

lemma length_plane [simp]: "length (plane m width height c) = height * width"
  unfolding plane_def by (rule length_blocks) simp

lemma length_planar [simp]: "length (planar m chans width height) = chans * (height * width)"
  unfolding planar_def by (rule length_blocks) simp

lemma plane_nth: "y < height \<Longrightarrow> x < width \<Longrightarrow> plane m width height c ! (y * width + x) = pixel m y x c"
  unfolding plane_def by (subst nth_concat_blocks [where k = width]) auto

lemma index_below: "y < height \<Longrightarrow> x < (width::nat) \<Longrightarrow> y * width + x < height * width"
proof -
  assume "y < height" and "x < width"
  then have "y * width + x < Suc y * width" by simp
  also have "\<dots> \<le> height * width" using \<open>y < height\<close> by (intro mult_le_mono1) simp
  finally show ?thesis .
qed

lemma planar_nth:
  assumes "c < chans" and "y < height" and "x < width"
  shows "planar m chans width height ! (c * (height * width) + (y * width + x)) = pixel m y x c"
  unfolding planar_def using assms index_below [OF assms(2,3)]
  by (subst nth_concat_blocks [where k = "height * width"]) (auto simp: plane_nth)

lemma copy_pixel_splice:
  assumes "mat_ok m" and "channels m = n" and "y < rows m" and "x < cols m" and "c < n"
    and "off + i < length xs" and "length xs < 2 ^ 63"
  shows "copy_pixel (int off) n m i y x c xs = Inr (splice_at xs (off + i) [pixel m y x c])"
proof -
  have "blob_index (int off) i = off + i" using assms(6,7) by (simp add: blob_index_def size_of_int_small)
  then show ?thesis
    using mat_at_pixel [OF assms(1,3,4), of c] assms(2,5,6)
    by (simp add: copy_pixel_def put_byte_def splice_at_one)
qed

lemma copy_row_splice:
  assumes "mat_ok m" and "channels m = n" and "y < rows m" and "cols m = width" and "c < n"
    and "off + i + width \<le> length xs" and "length xs < 2 ^ 63"
  shows "fold_res (\<lambda>x. copy_pixel (int off) n m (i + x) y x c) [0..<width] xs =
    Inr (splice_at xs (off + i) (map (\<lambda>x. pixel m y x c) [0..<width]))"
proof -
  have "fold_res (\<lambda>x. copy_pixel (int off) n m (i + x) y x c) [0..<width] xs =
      Inr (splice_at xs (off + i) (concat (map (\<lambda>x. [pixel m y x c]) [0..<width])))"
  proof (rule fold_res_blocks [where k = 1 and len = "length xs"])
    fix x and ys :: "u8 list"
    assume "x < width" and "length ys = length xs"
    then show "copy_pixel (int off) n m (i + x) y x c ys = Inr (splice_at ys (off + i + x * 1) [pixel m y x c])"
      using copy_pixel_splice [OF assms(1-3), of x c off "i + x" ys] assms(4-7) by (simp add: add.assoc)
  qed (use assms(6) in auto)
  then show ?thesis by simp
qed

lemma copy_plane_splice:
  assumes "mat_ok m" and "channels m = n" and "rows m = height" and "cols m = width" and "c < n"
    and "off + i + height * width \<le> length xs" and "length xs < 2 ^ 63"
  shows "fold_res (\<lambda>y. fold_res (\<lambda>x. copy_pixel (int off) n m (i + (y * width + x)) y x c) [0..<width])
      [0..<height] xs = Inr (splice_at xs (off + i) (plane m width height c))"
  unfolding plane_def
proof (rule fold_res_blocks [where k = width and len = "length xs"])
  fix y and ys :: "u8 list"
  assume y: "y < height" and "length ys = length xs"
  moreover have "y * width + width \<le> height * width"
    using mult_le_mono1 [of "Suc y" height width] y by simp
  ultimately show "fold_res (\<lambda>x. copy_pixel (int off) n m (i + (y * width + x)) y x c) [0..<width] ys =
      Inr (splice_at ys (off + i + y * width) (map (\<lambda>x. pixel m y x c) [0..<width]))"
    using copy_row_splice [OF assms(1,2), of y width c off "i + y * width" ys] assms(3-7)
    by (simp add: ac_simps)
qed (use assms(6) in auto)

lemma copy_gray_splice:
  assumes "mat_ok m" and "channels m = 1" and "rows m = height" and "cols m = width"
    and "off + height * width \<le> length xs" and "length xs < 2 ^ 63"
  shows "copy_gray (int off) width height m xs = Inr (splice_at xs off (planar m 1 width height))"
  using copy_plane_splice [OF assms(1-4), of 0 off 0 xs] assms(5,6)
  by (simp add: copy_gray_def planar_def)

lemma copy_color_splice:
  assumes "mat_ok m" and "channels m = 3" and "rows m = height" and "cols m = width"
    and "off + 3 * (height * width) \<le> length xs" and "length xs < 2 ^ 63"
  shows "copy_color (int off) 3 width height m xs = Inr (splice_at xs off (planar m 3 width height))"
  unfolding copy_color_def planar_def
proof (rule fold_res_blocks [where k = "height * width" and len = "length xs"])
  fix c :: nat and ys :: "u8 list"
  assume c: "c < 3" and "length ys = length xs"
  moreover have "c * (height * width) + height * width \<le> 3 * (height * width)"
    using mult_le_mono1 [of "Suc c" 3 "height * width"] c by simp
  ultimately have "off + c * (height * width) + height * width \<le> length ys" "length ys < 2 ^ 63"
    using assms(5,6) by linarith+
  with c show "fold_res (\<lambda>h. fold_res (\<lambda>w. copy_pixel (int off) 3 m (c * width * height + h * width + w) h w c)
        [0..<width]) [0..<height] ys =
      Inr (splice_at ys (off + c * (height * width)) (plane m width height c))"
    using copy_plane_splice [OF assms(1-4), of c off "c * (height * width)" ys]
    by (simp add: ac_simps)
qed (use assms(5) in auto)

text \<open>The offset of an image in its blob, as long as the blob is below the range of \<open>int\<close>.\<close>

lemma batch_offset_small:
  assumes "b * (chans * (height * width)) < 2 ^ 31"
  shows "batch_offset (int b) width height chans = int (b * (chans * (height * width)))"
proof (cases "b * (chans * (height * width)) = 0")
  case True
  then show ?thesis by (auto simp: batch_offset_def int_of_size_def size_of_int_def)
next
  case False
  then have "b \<le> b * (chans * (height * width))" by auto
  then have "b < 2 ^ 31" using assms by (rule le_less_trans)
  then have "size_of_int (int b) = b" by (simp add: size_of_int_small)
  then show ?thesis using assms by (simp add: batch_offset_def int_of_size_small ac_simps)
qed

text \<open>Overwriting one of the \<open>n\<close> images of a batch.\<close>

lemma splice_batch:
  assumes "length xs = n * k" and "length ys = k" and "i < n"
  shows "length (splice_at xs (i * k) ys) = length xs"
    and "j < k \<Longrightarrow> splice_at xs (i * k) ys ! (i * k + j) = ys ! j"
    and "j < length xs \<Longrightarrow> j div k \<noteq> i \<Longrightarrow> splice_at xs (i * k) ys ! j = xs ! j"
proof -
  have le: "i * k + length ys \<le> length xs"
    using mult_le_mono1 [of "Suc i" n k] assms by simp
  then show "length (splice_at xs (i * k) ys) = length xs" by (rule length_splice_at)
  show "splice_at xs (i * k) ys ! (i * k + j) = ys ! j" if "j < k"
    using that le assms(2) by (subst nth_splice_at) auto
  show "splice_at xs (i * k) ys ! j = xs ! j" if "j < length xs" "j div k \<noteq> i"
  proof -
    have "\<not> (i * k \<le> j \<and> j < i * k + k)"
    proof
      assume "i * k \<le> j \<and> j < i * k + k"
      then have "j div k = i" by (intro div_nat_eqI) (simp_all add: mult.commute)
      with that show False by simp
    qed
    with that le assms(2) show ?thesis by (subst nth_splice_at) auto
  qed
qed

lemma matU8ToBlob_splice:
  assumes "desc_dims (desc b) = [n, ch, height, width]" and "ch = 1 \<or> ch = 3"
    and "mat_ok r" and "channels r = ch" and "rows r = height" and "cols r = width" and "channels m = ch"
    and "height < 2 ^ 31" and "width < 2 ^ 31"
    and "(if rows m = height \<and> cols m = width then Inr m else resize m width height) = Inr r"
    and "i < n" and "length (blob_data b) = n * (ch * (height * width))" and "length (blob_data b) < 2 ^ 31"
  shows "matU8ToBlob resize m (int i) b =
    Inr (b\<lparr>blob_data := splice_at (blob_data b) (i * (ch * (height * width))) (planar r ch width height)\<rparr>)"
proof -
  let ?off = "i * (ch * (height * width))"
  have room: "?off + ch * (height * width) \<le> length (blob_data b)"
    using mult_le_mono1 [of "Suc i" n "ch * (height * width)"] assms(11,12) by simp
  then have off: "batch_offset (int i) width height ch = int ?off"
    using assms(13) by (intro batch_offset_small) simp
  have "(int_of_size width \<noteq> int (cols m) \<or> int_of_size height \<noteq> int (rows m)) \<longleftrightarrow>
      \<not> (rows m = height \<and> cols m = width)"
    using assms(8,9) by (auto simp: int_of_size_small)
  then have sized: "(if int_of_size width \<noteq> int (cols m) \<or> int_of_size height \<noteq> int (rows m)
      then resize m width height else Inr m) = Inr r"
    using assms(10) by (cases "rows m = height \<and> cols m = width") auto
  have small: "length (blob_data b) < 2 ^ 63" using assms(13) by simp
  have copied: "(if ch = 1 then copy_gray (int ?off) width height r (blob_data b)
      else if ch = 3 then copy_color (int ?off) ch width height r (blob_data b)
      else Inl (Inference_error unsupported_channels)) =
      Inr (splice_at (blob_data b) ?off (planar r ch width height))"
    using assms(2) copy_gray_splice [OF assms(3) _ assms(5,6) _ small, of ?off]
      copy_color_splice [OF assms(3) _ assms(5,6) _ small, of ?off] room assms(4) by auto
  have dims: "dims_index (desc_dims (desc b)) 3 = Inr width" "dims_index (desc_dims (desc b)) 2 = Inr height"
    "dims_index (desc_dims (desc b)) 1 = Inr ch"
    by (simp_all add: dims_index_def assms(1))
  show ?thesis
    unfolding matU8ToBlob_def Let_def dims bind_res.simps off sized assms(7) copied by simp
qed

text \<open>
  C21: \<open>matU8ToBlob\<close> puts pixel \<open>(y, x)\<close>, channel \<open>c\<close> of the (resized) image at position \<open>(i, c, y, x)\<close> of
  the blob, for gray and colour images, and touches no other image of the batch. The bound is that of
  the \<open>int\<close> the offset is kept in.
\<close>
theorem blob_layout:
  assumes "desc_dims (desc b) = [n, ch, height, width]" and "ch = 1 \<or> ch = 3"
    and "mat_ok r" and "channels r = ch" and "rows r = height" and "cols r = width" and "channels m = ch"
    and "height < 2 ^ 31" and "width < 2 ^ 31"
    and "(if rows m = height \<and> cols m = width then Inr m else resize m width height) = Inr r"
    and "i < n" and "length (blob_data b) = n * (ch * (height * width))" and "length (blob_data b) < 2 ^ 31"
  shows "\<exists>xs. matU8ToBlob resize m (int i) b = Inr (b\<lparr>blob_data := xs\<rparr>) \<and> length xs = length (blob_data b) \<and>
    (\<forall>c<ch. \<forall>y<height. \<forall>x<width.
       xs ! (i * (ch * (height * width)) + c * (height * width) + y * width + x) = pixel r y x c) \<and>
    (\<forall>j<length xs. j div (ch * (height * width)) \<noteq> i \<longrightarrow> xs ! j = blob_data b ! j)"
proof (intro exI conjI allI impI)
  let ?k = "ch * (height * width)"
  let ?xs = "splice_at (blob_data b) (i * ?k) (planar r ch width height)"
  note batch = splice_batch [OF assms(12) length_planar [of r ch width height] assms(11)]
  show "matU8ToBlob resize m (int i) b = Inr (b\<lparr>blob_data := ?xs\<rparr>)"
    by (rule matU8ToBlob_splice [where r = r and m = m and resize = resize, OF assms])
  show "length ?xs = length (blob_data b)" by (rule batch(1))
  show "?xs ! (i * ?k + c * (height * width) + y * width + x) = pixel r y x c"
    if c: "c < ch" and y: "y < height" and x: "x < width" for c y x
  proof -
    have "c * (height * width) + (y * width + x) < ?k"
      using index_below [OF c index_below [OF y x]] by simp
    then have "?xs ! (i * ?k + (c * (height * width) + (y * width + x))) = pixel r y x c"
      using planar_nth [OF c y x] by (simp add: batch(2))
    then show ?thesis by (simp add: add.assoc)
  qed
  show "?xs ! j = blob_data b ! j" if "j < length ?xs" and "j div ?k \<noteq> i" for j
    using that batch(1) batch(3) by simp
qed

text \<open>A colour image of one row and two pixels, the second image of a batch of two.\<close>

definition tiny_mat :: mat where
  "tiny_mat = \<lparr>rows = 1, cols = 2, channels = 3, mem = [1, 2, 3, 4, 5, 6], origin = 0, step0 = 6, step1 = 3\<rparr>"

definition tiny_blob :: blob where
  "tiny_blob = \<lparr>desc = \<lparr>desc_precision = U8, desc_dims = [2, 3, 1, 2], desc_layout = NCHW\<rparr>,
     blob_data = replicate 12 0\<rparr>"

theorem blob_layout_witness:
  "\<exists>xs. matU8ToBlob (\<lambda>m w h. Inl Opencv_error) tiny_mat (int 1) tiny_blob = Inr (tiny_blob\<lparr>blob_data := xs\<rparr>) \<and>
     xs ! (1 * (3 * (1 * 2)) + 1 * (1 * 2) + 0 * 2 + 1) = 5 \<and> xs ! 3 = 0"
proof -
  have "\<exists>xs. matU8ToBlob (\<lambda>m w h. Inl Opencv_error) tiny_mat (int 1) tiny_blob = Inr (tiny_blob\<lparr>blob_data := xs\<rparr>) \<and>
      length xs = length (blob_data tiny_blob) \<and>
      (\<forall>c<3. \<forall>y<1. \<forall>x<2. xs ! (1 * (3 * (1 * 2)) + c * (1 * 2) + y * 2 + x) = pixel tiny_mat y x c) \<and>
      (\<forall>j<length xs. j div (3 * (1 * 2)) \<noteq> 1 \<longrightarrow> xs ! j = blob_data tiny_blob ! j)"
    by (rule blob_layout [where n = 2 and r = tiny_mat and ch = 3 and height = 1 and width = 2 and i = 1])
       (simp_all add: tiny_mat_def tiny_blob_def mat_ok_def)
  then obtain xs
    where xs: "matU8ToBlob (\<lambda>m w h. Inl Opencv_error) tiny_mat (int 1) tiny_blob = Inr (tiny_blob\<lparr>blob_data := xs\<rparr>)"
      and len: "length xs = length (blob_data tiny_blob)"
      and new: "\<forall>c<3. \<forall>y<1. \<forall>x<2. xs ! (1 * (3 * (1 * 2)) + c * (1 * 2) + y * 2 + x) = pixel tiny_mat y x c"
      and old: "\<forall>j<length xs. j div (3 * (1 * 2)) \<noteq> 1 \<longrightarrow> xs ! j = blob_data tiny_blob ! j"
    by (elim exE conjE)
  have "xs ! (1 * (3 * (1 * 2)) + 1 * (1 * 2) + 0 * 2 + 1) = pixel tiny_mat 0 1 1"
    by (rule new [rule_format]) simp_all
  moreover have "xs ! 3 = blob_data tiny_blob ! 3"
    by (rule old [rule_format]) (simp_all add: len tiny_blob_def)
  moreover have "pixel tiny_mat 0 1 1 = 5" "blob_data tiny_blob ! 3 = 0"
    by (simp_all add: pixel_def tiny_mat_def tiny_blob_def)
  ultimately show ?thesis using xs by (intro exI [of _ xs] conjI) simp_all
qed

section \<open>A wrapped image\<close>

lemma wrapped_pixels:
  assumes "mat_ok m" and "step0 m = channels m * cols m" and "y < rows m" and "x < cols m" and "c < channels m"
  shows "\<exists>b. wrapMat2Blob m = Inr b \<and> desc_dims (desc b) = [1, channels m, rows m, cols m] \<and>
    blob_data b ! ((y * cols m + x) * channels m + c) = pixel m y x c"
proof -
  have "origin m + y * step0 m + cols m * channels m \<le> length (mem m)"
    using assms(1,3) by (simp add: mat_ok_def)
  then have "origin m \<le> length (mem m)" by simp
  then show ?thesis
    using assms(1,2) by (simp add: wrapMat2Blob_def mat_ok_def pixel_def algebra_simps)
qed

end
