(* ===== verification/Detection.thy ===== *)
theory Detection
  imports Effects ImageBlob
begin

text \<open>
  The two networks of \<open>source/server/PersonPipeline/PersonPipeline.cpp\<close>: \<open>BaseDetection\<close>, the person
  detection and the person attributes built on it, and \<open>Load\<close>. The objects are records, the base class
  the part they share; a member function is a program on its object. The inference engine, OpenCV and the
  JSON writer are the operations of a \<open>platform\<close>, arguments of the model: an executable network and an
  infer request are values only they look into.
\<close>

section \<open>The platform\<close>

record port =
  port_name :: string
  port_desc :: tensor_desc

text \<open>The maps of inputs and outputs, in the order of their keys.\<close>

record network =
  net_inputs :: "(string \<times> port) list"
  net_outputs :: "(string \<times> port) list"

record rect =
  rx :: int
  ry :: int
  rw :: int
  rh :: int

datatype ptree = Node string "(string \<times> ptree) list"

record ('e, 'r) platform =
  NewCore :: "unit result"
  GetVersions :: "string \<Rightarrow> unit result"
  ReadNetwork :: "string \<Rightarrow> network result"
  setBatchSize :: "nat \<Rightarrow> network \<Rightarrow> network result"
  LoadNetwork :: "network \<Rightarrow> string \<Rightarrow> 'e result"
  CreateInferRequest :: "'e \<Rightarrow> 'r result"
  GetBlob :: "'r \<Rightarrow> string \<Rightarrow> blob result"
  write_input :: "'r \<Rightarrow> string \<Rightarrow> blob \<Rightarrow> 'r"
  SetBlob :: "'r \<Rightarrow> string \<Rightarrow> blob \<Rightarrow> 'r result"
  StartAsync :: "'r \<Rightarrow> 'r result"
  Wait :: "'r \<Rightarrow> 'r result"
  GetOutput :: "'r \<Rightarrow> string \<Rightarrow> (nat list \<times> f32 list) result"
  imdecode :: "int \<Rightarrow> string \<Rightarrow> mat result"
  resize :: "mat \<Rightarrow> nat \<Rightarrow> nat \<Rightarrow> mat result"
  rect_and :: "rect \<Rightarrow> rect \<Rightarrow> rect"
  crop :: "mat \<Rightarrow> rect \<Rightarrow> mat result"
  kmeans :: "mat \<Rightarrow> nat \<Rightarrow> (nat list \<times> (u8 \<times> u8 \<times> u8) list) result"
  rounding :: "rat \<Rightarrow> f32"
  write_json :: "ptree \<Rightarrow> string result"

text \<open>What the engine throws when an object it was not given is used.\<close>

definition not_allocated :: exn where
  "not_allocated = Inference_error ''not allocated''"

section \<open>The part every detection shares\<close>

record ('e, 'r) base_detection =
  commandLineFlag :: string
  topoName :: string
  net :: "'e option"
  request_obj :: "'r option"
  inputName :: string
  outputName :: string
  enablingChecked :: bool
  enabled_flag :: bool

definition enabled :: "(('e, 'r, 'x) base_detection_scheme, bool) prog" where
  "enabled d =
     (let d' = (if enablingChecked d then d
                else d\<lparr>enabled_flag := commandLineFlag d \<noteq> [], enablingChecked := True\<rparr>)
      in (Inr (enabled_flag d'), d'))"

text \<open>\<open>if (!request) request = net.CreateInferRequest();\<close>\<close>

definition need_request ::
  "('e, 'r) platform \<Rightarrow> (('e, 'r, 'x) base_detection_scheme, 'r) prog" where
  "need_request P d =
     (case request_obj d of
        Some r \<Rightarrow> (Inr r, d)
      | None \<Rightarrow>
          (case (case net d of None \<Rightarrow> Inl not_allocated | Some n \<Rightarrow> CreateInferRequest P n) of
             Inl e \<Rightarrow> (Inl e, d)
           | Inr r \<Rightarrow> (Inr r, d\<lparr>request_obj := Some r\<rparr>)))"

definition base_setRoiBlob ::
  "('e, 'r) platform \<Rightarrow> blob \<Rightarrow> (('e, 'r, 'x) base_detection_scheme, unit) prog" where
  "base_setRoiBlob P roi =
     bind_prog enabled (\<lambda>on. if \<not> on then ret ()
       else bind_prog (need_request P) (\<lambda>r. bind_prog (ask inputName) (\<lambda>name.
         bind_prog (lift_res (SetBlob P r name roi)) (\<lambda>r'. change (request_obj_update (\<lambda>_. Some r'))))))"

definition base_enqueue ::
  "('e, 'r) platform \<Rightarrow> mat \<Rightarrow> (('e, 'r, 'x) base_detection_scheme, unit) prog" where
  "base_enqueue P person =
     bind_prog enabled (\<lambda>on. if \<not> on then ret ()
       else bind_prog (need_request P) (\<lambda>r. bind_prog (ask inputName) (\<lambda>name.
         bind_prog (lift_res (GetBlob P r name)) (\<lambda>b.
         bind_prog (lift_res (matU8ToBlob (resize P) person 0 b)) (\<lambda>b'.
           change (request_obj_update (\<lambda>_. Some (write_input P r name b'))))))))"

text \<open>An operation of the request that runs only when the detection is enabled and has a request.\<close>

definition on_request ::
  "('r \<Rightarrow> 'r result) \<Rightarrow> (('e, 'r, 'x) base_detection_scheme, unit) prog" where
  "on_request f =
     bind_prog enabled (\<lambda>on. bind_prog (ask request_obj) (\<lambda>r.
       case r of
         Some r \<Rightarrow> (if on then bind_prog (lift_res (f r)) (\<lambda>r'. change (request_obj_update (\<lambda>_. Some r'))) else ret ())
       | None \<Rightarrow> ret ()))"

definition base_submitRequest :: "('e, 'r) platform \<Rightarrow> (('e, 'r, 'x) base_detection_scheme, unit) prog" where
  "base_submitRequest P = on_request (StartAsync P)"

definition base_wait :: "('e, 'r) platform \<Rightarrow> (('e, 'r, 'x) base_detection_scheme, unit) prog" where
  "base_wait P = on_request (Wait P)"

text \<open>\<open>request.GetBlob(name)\<close> for an output.\<close>

definition get_output ::
  "('e, 'r) platform \<Rightarrow> string \<Rightarrow> (('e, 'r, 'x) base_detection_scheme, nat list \<times> f32 list) prog" where
  "get_output P name d =
     ((case request_obj d of None \<Rightarrow> Inl not_allocated | Some r \<Rightarrow> GetOutput P r name), d)"

section \<open>Person detection\<close>

record detection_result =
  dlabel :: int
  confidence :: f32
  location :: rect

record ('e, 'r) person_detection = "('e, 'r) base_detection" +
  maxProposalCount :: int
  objectSize :: int
  det_width :: f32
  det_height :: f32
  resultsFetched :: bool
  results :: "detection_result list"

definition person_model :: string where
  "person_model = ''person-vehicle-bike-detection-crossroad-0078.xml''"

definition PersonDetection :: "('e, 'r) person_detection" where
  "PersonDetection = \<lparr>commandLineFlag = person_model, topoName = ''Person Detection'', net = None,
     request_obj = None, inputName = [], outputName = [], enablingChecked = False, enabled_flag = False,
     maxProposalCount = 0, objectSize = 0, det_width = Fin 0, det_height = Fin 0, resultsFetched = False,
     results = []\<rparr>"

definition det_submitRequest :: "('e, 'r) platform \<Rightarrow> (('e, 'r) person_detection, unit) prog" where
  "det_submitRequest P =
     seq_prog (change (\<lambda>d. d\<lparr>resultsFetched := False, results := []\<rparr>)) (base_submitRequest P)"

definition det_setRoiBlob :: "('e, 'r) platform \<Rightarrow> blob \<Rightarrow> (('e, 'r) person_detection, unit) prog" where
  "det_setRoiBlob P b =
     bind_prog (lift_res (dims_index (desc_dims (desc b)) 2)) (\<lambda>h.
       seq_prog (change (det_height_update (\<lambda>_. rounding P (of_nat h))))
       (bind_prog (lift_res (dims_index (desc_dims (desc b)) 3)) (\<lambda>w.
          seq_prog (change (det_width_update (\<lambda>_. rounding P (of_nat w)))) (base_setRoiBlob P b))))"

definition det_enqueue :: "('e, 'r) platform \<Rightarrow> mat \<Rightarrow> (('e, 'r) person_detection, unit) prog" where
  "det_enqueue P frame =
     seq_prog (change (\<lambda>d. d\<lparr>det_height := rounding P (of_nat (rows frame)),
         det_width := rounding P (of_nat (cols frame))\<rparr>))
       (base_enqueue P frame)"

text \<open>The first entry of a map of ports is configured in place.\<close>

definition configure :: "precision \<Rightarrow> layout \<Rightarrow> (string \<times> port) list \<Rightarrow> (string \<times> port) list" where
  "configure pr lay ps =
     (case ps of [] \<Rightarrow> []
      | (k, p) # qs \<Rightarrow> (k, p\<lparr>port_desc := (port_desc p)\<lparr>desc_precision := pr, desc_layout := lay\<rparr>\<rparr>) # qs)"

definition det_read :: "('e, 'r) platform \<Rightarrow> (('e, 'r) person_detection, network) prog" where
  "det_read P =
     bind_prog (lift_res (ReadNetwork P person_model)) (\<lambda>n0.
     bind_prog (lift_res (setBatchSize P 1 n0)) (\<lambda>n1.
       if length (net_inputs n1) \<noteq> 1
       then raise (Logic_error ''Person Detection network should have only one input'')
       else seq_prog (change (inputName_update (\<lambda>_. fst (hd (net_inputs n1)))))
         (if length (net_outputs n1) \<noteq> 1
          then raise (Logic_error ''Person Detection network should have only one output'')
          else (let outputDims = desc_dims (port_desc (snd (hd (net_outputs n1)))) in
            seq_prog (change (outputName_update (\<lambda>_. fst (hd (net_outputs n1)))))
            (bind_prog (lift_res (dims_index outputDims 2)) (\<lambda>d2.
             seq_prog (change (maxProposalCount_update (\<lambda>_. int_of_size d2)))
            (bind_prog (lift_res (dims_index outputDims 3)) (\<lambda>d3.
             seq_prog (change (objectSize_update (\<lambda>_. int_of_size d3)))
            (if int_of_size d3 \<noteq> 7 then raise (Logic_error ''Output should have 7 as a last dimension'')
             else if length outputDims \<noteq> 4 then raise (Logic_error ''Incorrect output dimensions for SSD'')
             else ret (n1\<lparr>net_inputs := configure U8 NCHW (net_inputs n1),
                    net_outputs := configure FP32 NCHW (net_outputs n1)\<rparr>))))))))))"

text \<open>\<open>detections[i]\<close>, with the index computed in \<open>int\<close>, which wraps.\<close>

definition float_at :: "f32 list \<Rightarrow> int \<Rightarrow> f32 result" where
  "float_at fs i =
     (let j = wrap_int i in
      if 0 \<le> j \<and> nat j < length fs then Inr (fs ! nat j) else Inl Undefined_behaviour)"

text \<open>The literal 0.72 is a \<open>double\<close>, against which the \<open>float\<close> is compared exactly.\<close>

definition threshold :: rat where
  "threshold = 6485183463413514 / 2 ^ 53"

definition read_box ::
  "(rat \<Rightarrow> f32) \<Rightarrow> f32 \<Rightarrow> f32 \<Rightarrow> f32 \<Rightarrow> f32 \<Rightarrow> f32 \<Rightarrow> f32 \<Rightarrow> rect result" where
  "read_box rd width height x0 y0 x1 y1 =
     bind_res (int_of_f32 (f_mul rd x0 width)) (\<lambda>x.
     bind_res (int_of_f32 (f_mul rd y0 height)) (\<lambda>y.
     bind_res (int_of_f32 (f_sub rd (f_mul rd x1 width) (rd (of_int x)))) (\<lambda>w.
     bind_res (int_of_f32 (f_sub rd (f_mul rd y1 height) (rd (of_int y)))) (\<lambda>h.
       Inr \<lparr>rx = x, ry = y, rw = w, rh = h\<rparr>))))"

definition read_result ::
  "(rat \<Rightarrow> f32) \<Rightarrow> f32 \<Rightarrow> f32 \<Rightarrow> f32 list \<Rightarrow> int \<Rightarrow> int \<Rightarrow> detection_result result" where
  "read_result rd width height fs osz i =
     bind_res (float_at fs (i * osz + 1)) (\<lambda>l. bind_res (int_of_f32 l) (\<lambda>label.
     bind_res (float_at fs (i * osz + 2)) (\<lambda>conf.
     bind_res (float_at fs (i * osz + 3)) (\<lambda>x0. bind_res (float_at fs (i * osz + 4)) (\<lambda>y0.
     bind_res (float_at fs (i * osz + 5)) (\<lambda>x1. bind_res (float_at fs (i * osz + 6)) (\<lambda>y1.
     bind_res (read_box rd width height x0 y0 x1 y1) (\<lambda>box.
       Inr \<lparr>dlabel = label, confidence = conf, location = box\<rparr>))))))))"

fun fetch_loop ::
  "(rat \<Rightarrow> f32) \<Rightarrow> f32 \<Rightarrow> f32 \<Rightarrow> f32 list \<Rightarrow> int \<Rightarrow> int list \<Rightarrow> detection_result list \<Rightarrow> detection_result list result"
where
  "fetch_loop rd width height fs osz [] rs = Inr rs"
| "fetch_loop rd width height fs osz (i # is) rs =
     bind_res (float_at fs (i * osz + 0)) (\<lambda>image_id.
       if f_less image_id 0 then Inr rs
       else bind_res (read_result rd width height fs osz i) (\<lambda>r.
         fetch_loop rd width height fs osz is (if f_le (confidence r) threshold then rs else rs @ [r])))"

definition fetchResults :: "('e, 'r) platform \<Rightarrow> (('e, 'r) person_detection, unit) prog" where
  "fetchResults P =
     bind_prog enabled (\<lambda>on. if \<not> on then ret ()
       else seq_prog (change (results_update (\<lambda>_. [])))
         (bind_prog (ask resultsFetched) (\<lambda>fetched. if fetched then ret ()
            else seq_prog (change (resultsFetched_update (\<lambda>_. True)))
              (bind_prog (ask outputName) (\<lambda>name. bind_prog (get_output P name) (\<lambda>out. bind_prog (ask (\<lambda>d. d)) (\<lambda>d.
                 bind_prog (lift_res (fetch_loop (rounding P) (det_width d) (det_height d) (snd out) (objectSize d)
                     [0..maxProposalCount d - 1] []))
                   (\<lambda>rs. change (results_update (\<lambda>_. rs))))))))))"

section \<open>What the loop over the proposals keeps\<close>

text \<open>
  The output buffer as a table: row \<open>i\<close> is \<open>[image_id, label, confidence, x0, y0, x1, y1]\<close>. A negative
  \<open>image_id\<close> ends the table; of the rows before it, those above the threshold are kept, in order.
\<close>

fun row_result :: "(rat \<Rightarrow> f32) \<Rightarrow> f32 \<Rightarrow> f32 \<Rightarrow> f32 list \<Rightarrow> detection_result result" where
  "row_result rd width height [_, l, conf, x0, y0, x1, y1] =
     bind_res (int_of_f32 l) (\<lambda>label. bind_res (read_box rd width height x0 y0 x1 y1) (\<lambda>box.
       Inr \<lparr>dlabel = label, confidence = conf, location = box\<rparr>))"
| "row_result rd width height _ = Inl Undefined_behaviour"

definition table :: "f32 list \<Rightarrow> nat \<Rightarrow> f32 list list" where
  "table fs n = map (\<lambda>i. take 7 (drop (i * 7) fs)) [0..<n]"

definition live_rows :: "f32 list list \<Rightarrow> f32 list list" where
  "live_rows = takeWhile (\<lambda>row. \<not> f_less (hd row) 0)"

primrec map_res :: "('a \<Rightarrow> 'b result) \<Rightarrow> 'a list \<Rightarrow> 'b list result" where
  "map_res f [] = Inr []"
| "map_res f (x # xs) = bind_res (f x) (\<lambda>y. bind_res (map_res f xs) (\<lambda>ys. Inr (y # ys)))"

definition confident :: "detection_result \<Rightarrow> bool" where
  "confident r \<longleftrightarrow> \<not> f_le (confidence r) threshold"

definition detections :: "(rat \<Rightarrow> f32) \<Rightarrow> f32 \<Rightarrow> f32 \<Rightarrow> f32 list list \<Rightarrow> detection_result list result" where
  "detections rd width height rs =
     bind_res (map_res (row_result rd width height) (live_rows rs)) (\<lambda>ds. Inr (filter confident ds))"

lemma bind_res_assoc: "bind_res (bind_res m f) g = bind_res m (\<lambda>a. bind_res (f a) g)"
  by (cases m) auto

lemma bind_Inr: "bind_res m Inr = m"
  by (cases m) auto

lemma detections_Nil: "detections rd width height [] = Inr []"
  by (simp add: detections_def live_rows_def)

lemma detections_Cons:
  "detections rd width height (row # rs) =
     (if f_less (hd row) 0 then Inr []
      else bind_res (row_result rd width height row) (\<lambda>r.
        bind_res (detections rd width height rs) (\<lambda>ds. Inr (if confident r then r # ds else ds))))"
  by (auto simp: detections_def live_rows_def bind_res_assoc intro!: bind_res_cong)

lemma take_7:
  assumes "i * 7 + 7 \<le> length fs"
  shows "take 7 (drop (i * 7) fs) = [fs ! (i * 7), fs ! (i * 7 + 1), fs ! (i * 7 + 2), fs ! (i * 7 + 3),
    fs ! (i * 7 + 4), fs ! (i * 7 + 5), fs ! (i * 7 + 6)]"
  using assms by (intro nth_equalityI) (auto simp: nth_Cons' less_Suc_eq numeral_eq_Suc)

lemma float_at_row:
  assumes "i * 7 + 7 \<le> length fs" and "length fs < 2 ^ 31" and "k < 7"
  shows "float_at fs (int i * 7 + int k) = Inr (fs ! (i * 7 + k))"
proof -
  have "float_at fs (int (i * 7 + k)) = Inr (fs ! (i * 7 + k))"
    using assms by (simp add: float_at_def Let_def nat_add_distrib nat_mult_distrib)
  then show ?thesis by simp
qed

lemma fetch_row:
  assumes "i * 7 + 7 \<le> length fs" and "length fs < 2 ^ 31"
  shows "float_at fs (int i * 7 + 0) = Inr (hd (take 7 (drop (i * 7) fs)))"
    and "read_result rd width height fs 7 (int i) = row_result rd width height (take 7 (drop (i * 7) fs))"
  using float_at_row [OF assms, of 0] float_at_row [OF assms, of 1] float_at_row [OF assms, of 2]
    float_at_row [OF assms, of 3] float_at_row [OF assms, of 4] float_at_row [OF assms, of 5]
    float_at_row [OF assms, of 6]
  by (simp_all add: take_7 [OF assms(1)] read_result_def)

lemma fetch_loop_rows:
  assumes "n * 7 \<le> length fs" and "length fs < 2 ^ 31" and "k \<le> n"
  shows "fetch_loop rd width height fs 7 (map int [k..<n]) acc =
    bind_res (detections rd width height (map (\<lambda>i. take 7 (drop (i * 7) fs)) [k..<n])) (\<lambda>ds. Inr (acc @ ds))"
  using assms(3)
proof (induction k arbitrary: acc rule: inc_induct)
  case base
  then show ?case by (simp add: detections_Nil)
next
  case (step k)
  have k: "k * 7 + 7 \<le> length fs"
    using assms(1) mult_le_mono1 [of "Suc k" n 7] step.hyps by simp
  note row = fetch_row [OF k assms(2)]
  show ?case
    using step.hyps row(1)
    by (auto simp: upt_conv_Cons row(2) step.IH detections_Cons bind_res_assoc confident_def
        intro!: bind_res_cong)
qed

lemma fetch_table:
  assumes "n * 7 \<le> length fs" and "length fs < 2 ^ 31"
  shows "fetch_loop rd width height fs 7 [0..int n - 1] [] = detections rd width height (table fs n)"
proof -
  have "[0..int n - 1] = map int [0..<n]"
    by (induction n) (simp_all add: upto_rec2)
  then show ?thesis
    using fetch_loop_rows [OF assms, of 0 rd width height "[]"] by (simp add: table_def bind_Inr)
qed

section \<open>Fetching the results\<close>

text \<open>A detection that is in use: its flag is not empty, and was found so by the first check.\<close>

definition switched_on :: "('e, 'r, 'x) base_detection_scheme \<Rightarrow> bool" where
  "switched_on d \<longleftrightarrow> commandLineFlag d \<noteq> [] \<and> (enablingChecked d \<longrightarrow> enabled_flag d)"

definition checked :: "('e, 'r, 'x) base_detection_scheme \<Rightarrow> ('e, 'r, 'x) base_detection_scheme" where
  "checked d = d\<lparr>enabled_flag := True, enablingChecked := True\<rparr>"

lemma enabled_on: "switched_on d \<Longrightarrow> enabled d = (Inr True, checked d)"
  by (cases d) (auto simp: enabled_def switched_on_def checked_def Let_def)

lemma bind_enabled: "switched_on d \<Longrightarrow> bind_prog enabled f d = f True (checked d)"
  by (simp add: bind_prog_def enabled_on)

lemma checked_on [simp]: "switched_on d \<Longrightarrow> switched_on (checked d)"
  by (simp add: switched_on_def checked_def)

lemma fetch_results_cases:
  fixes d :: "('e, 'r) person_detection"
  assumes "switched_on d" and "request_obj d = Some r" and "GetOutput P r (outputName d) = Inr (ds, fs)"
    and "objectSize d = 7" and "maxProposalCount d = int n" and "n * 7 \<le> length fs" and "length fs < 2 ^ 31"
    and "\<not> resultsFetched d"
  shows "case detections (rounding P) (det_width d) (det_height d) (table fs n) of
      Inl e \<Rightarrow> fetchResults P d = (Inl e, (checked d)\<lparr>resultsFetched := True, results := []\<rparr>)
    | Inr found \<Rightarrow>
        fetchResults P d = (Inr (), (checked d)\<lparr>resultsFetched := True, results := found\<rparr>) \<and>
        fetchResults P (snd (fetchResults P d)) = (Inr (), (checked d)\<lparr>resultsFetched := True, results := []\<rparr>)"
  using assms
  by (simp add: fetchResults_def bind_enabled seq_prog_def get_output_def fetch_table checked_def
      bind_prog_def switched_on_def enabled_def ask_def change_def lift_res_def ret_def split: sum.split)

lemma fetch_results_failing:
  fixes d :: "('e, 'r) person_detection"
  assumes "switched_on d" and "request_obj d = Some r" and "GetOutput P r (outputName d) = Inl e"
    and "\<not> resultsFetched d"
  shows "fetchResults P d = (Inl e, (checked d)\<lparr>resultsFetched := True, results := []\<rparr>)"
  using assms
  by (simp add: fetchResults_def bind_enabled seq_prog_def get_output_def checked_def
      bind_prog_def switched_on_def enabled_def ask_def change_def)

text \<open>
  C19: fetching the results of an inference keeps, of the rows before the first negative image id, those
  with a confidence above the threshold or no number, in the order of the network (or has no defined result
  when a row cannot be converted); asking again without a new request empties them.
\<close>
theorem fetch_results:
  fixes d :: "('e, 'r) person_detection"
  assumes "switched_on d" and "request_obj d = Some r" and "GetOutput P r (outputName d) = Inr (ds, fs)"
    and "objectSize d = 7" and "maxProposalCount d = int n" and "n * 7 \<le> length fs" and "length fs < 2 ^ 31"
    and "\<not> resultsFetched d"
  shows "case detections (rounding P) (det_width d) (det_height d) (table fs n) of
      Inl e \<Rightarrow> fetchResults P d = (Inl e, (checked d)\<lparr>resultsFetched := True, results := []\<rparr>)
    | Inr found \<Rightarrow>
        fetchResults P d = (Inr (), (checked d)\<lparr>resultsFetched := True, results := found\<rparr>) \<and>
        fetchResults P (snd (fetchResults P d)) = (Inr (), (checked d)\<lparr>resultsFetched := True, results := []\<rparr>)"
  by (rule fetch_results_cases [OF assms])

section \<open>Rectangles and crops, as OpenCV documents them\<close>

text \<open>The intersection of two rectangles; an empty one is \<open>Rect()\<close>.\<close>

definition documented_and :: "rect \<Rightarrow> rect \<Rightarrow> rect" where
  "documented_and a b =
     (let x = max (rx a) (rx b); y = max (ry a) (ry b);
          w = min (rx a + rw a) (rx b + rw b) - x; h = min (ry a + rh a) (ry b + rh b) - y
      in if w \<le> 0 \<or> h \<le> 0 then \<lparr>rx = 0, ry = 0, rw = 0, rh = 0\<rparr> else \<lparr>rx = x, ry = y, rw = w, rh = h\<rparr>)"

text \<open>\<open>m(r)\<close>: the same memory, seen through the rectangle, which must lie in the image.\<close>

definition documented_crop :: "mat \<Rightarrow> rect \<Rightarrow> mat result" where
  "documented_crop m r =
     (if 0 \<le> rx r \<and> 0 \<le> rw r \<and> rx r + rw r \<le> int (cols m) \<and> 0 \<le> ry r \<and> 0 \<le> rh r \<and> ry r + rh r \<le> int (rows m)
      then Inr (m\<lparr>rows := nat (rh r), cols := nat (rw r),
             origin := origin m + nat (ry r) * step0 m + nat (rx r) * step1 m\<rparr>)
      else Inl Opencv_error)"

section \<open>A platform to evaluate on\<close>

text \<open>
  A platform small enough to compute with: exact arithmetic, a detection network with an input of one
  pixel whose output is \<open>fs\<close>, and an attributes network that says yes to everything. An executable network
  is the number of its outputs, a request that and the data it was given; an image is a text that starts
  with x.
\<close>

definition demo_port :: "string \<Rightarrow> nat list \<Rightarrow> string \<times> port" where
  "demo_port n ds = (n, \<lparr>port_name = n, port_desc = \<lparr>desc_precision = FP32, desc_dims = ds, desc_layout = NHWC\<rparr>\<rparr>)"

definition demo_platform :: "f32 list \<Rightarrow> (nat, nat \<times> u8 list) platform" where
  "demo_platform fs = \<lparr>
     NewCore = Inr (),
     GetVersions = (\<lambda>_. Inr ()),
     ReadNetwork = (\<lambda>m. Inr
       (if m = person_model
        then \<lparr>net_inputs = [demo_port ''data'' [1, 3, 1, 1]], net_outputs = [demo_port ''out'' [1, 1, length fs div 7, 7]]\<rparr>
        else \<lparr>net_inputs = [demo_port ''0'' [1, 3, 1, 1]], net_outputs =
               [demo_port ''453'' [1, 8], demo_port ''456'' [1, 2], demo_port ''459'' [1, 2]]\<rparr>)),
     setBatchSize = (\<lambda>n net. Inr net),
     LoadNetwork = (\<lambda>n dev. Inr (length (net_outputs n))),
     CreateInferRequest = (\<lambda>e. Inr (e, [])),
     GetBlob = (\<lambda>r n. if n = (if fst r = 1 then ''data'' else ''0'')
        then Inr \<lparr>desc = \<lparr>desc_precision = U8, desc_dims = [1, 3, 1, 1], desc_layout = NCHW\<rparr>, blob_data = [0, 0, 0]\<rparr>
        else Inl (Inference_error ''no such blob'')),
     write_input = (\<lambda>r n b. (fst r, blob_data b)),
     SetBlob = (\<lambda>r n b. Inr (fst r, blob_data b)),
     StartAsync = Inr,
     Wait = Inr,
     GetOutput = (\<lambda>r n. Inr
       (if fst r = 1 then ([1, 1, length fs div 7, 7], fs)
        else if n = ''453'' then ([1, 8], replicate 8 (Fin 1)) else ([1, 2], [Fin 0, Fin 0]))),
     imdecode = (\<lambda>n s. Inr
       (if s = [] \<or> hd s \<noteq> CHR ''x'' then \<lparr>rows = 0, cols = 0, channels = 1, mem = [], origin = 0, step0 = 0, step1 = 1\<rparr>
        else \<lparr>rows = 8, cols = 8, channels = 3, mem = replicate 192 0, origin = 0, step0 = 24, step1 = 3\<rparr>)),
     resize = (\<lambda>m w h. if rows m = 0 \<or> cols m = 0 then Inl Opencv_error
        else Inr \<lparr>rows = h, cols = w, channels = channels m, mem = replicate (h * (w * channels m)) 0,
               origin = 0, step0 = w * channels m, step1 = channels m\<rparr>),
     rect_and = documented_and,
     crop = documented_crop,
     kmeans = (\<lambda>m k. if k = 0 then Inl Opencv_error
        else Inr (replicate (rows m * cols m) 0, replicate k (0, 0, 0))),
     rounding = Fin,
     write_json = (\<lambda>t. Inr ([CHR ''{'', LF] @ ''...'' @ [CHR ''}'', LF]))\<rparr>"

definition demo_table :: "f32 list" where
  "demo_table = [Fin 0, Fin 1, Fin (9 / 10), Fin 0, Fin 0, Fin 1, Fin 1,
     Fin 0, Fin 1, Fin (1 / 2), Fin 0, Fin 0, Fin 1, Fin 1]"

definition demo_detection :: "(nat, nat \<times> u8 list) person_detection" where
  "demo_detection = PersonDetection\<lparr>request_obj := Some (1, []), outputName := ''out'', objectSize := 7,
     maxProposalCount := 2, det_width := Fin 8, det_height := Fin 8\<rparr>"

lemma demo_found:
  "detections Fin (Fin 8) (Fin 8) (table demo_table 2) =
     Inr [\<lparr>dlabel = 1, confidence = Fin (9 / 10), location = \<lparr>rx = 0, ry = 0, rw = 8, rh = 8\<rparr>\<rparr>]"
  by (simp add: table_def demo_table_def detections_def live_rows_def read_box_def confident_def
      threshold_def trunc_rat_def in_int_def upt_rec)

theorem fetch_results_witness:
  "fetchResults (demo_platform demo_table) demo_detection = (Inr (), (checked demo_detection)\<lparr>resultsFetched := True,
     results := [\<lparr>dlabel = 1, confidence = Fin (9 / 10), location = \<lparr>rx = 0, ry = 0, rw = 8, rh = 8\<rparr>\<rparr>]\<rparr>)"
proof -
  have "switched_on demo_detection" "request_obj demo_detection = Some (1, [])"
      "GetOutput (demo_platform demo_table) (1, []) (outputName demo_detection) = Inr ([1, 1, 2, 7], demo_table)"
      "objectSize demo_detection = 7" "maxProposalCount demo_detection = int 2" "2 * 7 \<le> length demo_table"
      "length demo_table < 2 ^ 31" "\<not> resultsFetched demo_detection"
    by (simp_all add: demo_detection_def PersonDetection_def switched_on_def person_model_def
        demo_platform_def demo_table_def)
  from fetch_results [OF this] show ?thesis
    by (simp add: demo_platform_def [of demo_table] demo_detection_def demo_found)
qed

section \<open>Boxes inside the image\<close>

text \<open>
  What is used of single precision: a result in the range of \<open>int\<close> has a relative error of at most
  \<open>2 ^ -24\<close> (an absolute one for the smallest numbers), and the integers up to \<open>2 ^ 24\<close> are exact.
\<close>

definition ieee_single :: "(rat \<Rightarrow> f32) \<Rightarrow> bool" where
  "ieee_single rd \<longleftrightarrow>
     (\<forall>q. \<bar>q\<bar> \<le> 2 ^ 31 \<longrightarrow> (\<exists>r. rd q = Fin r \<and> \<bar>r - q\<bar> \<le> \<bar>q\<bar> / 2 ^ 24 + 1 / 2 ^ 149)) \<and>
     (\<forall>i::int. \<bar>i\<bar> \<le> 2 ^ 24 \<longrightarrow> rd (of_int i) = Fin (of_int i))"

lemma ieee_exact: "ieee_single rd \<Longrightarrow> \<bar>i\<bar> \<le> 2 ^ 24 \<Longrightarrow> rd (of_int i) = Fin (of_int i)"
  by (simp add: ieee_single_def)

lemma ieee_near:
  assumes "ieee_single rd" and "\<bar>q\<bar> \<le> 2 ^ 21"
  obtains r where "rd q = Fin r" and "r \<le> q + 1 / 4" and "q - 1 / 4 \<le> r"
proof -
  have "\<bar>q\<bar> \<le> 2 ^ 31" using assms(2) by (rule order_trans) simp
  then obtain r where r: "rd q = Fin r" and err: "\<bar>r - q\<bar> \<le> \<bar>q\<bar> / 2 ^ 24 + 1 / 2 ^ 149"
    using assms(1) unfolding ieee_single_def by blast
  have "\<bar>q\<bar> / 2 ^ 24 \<le> 1 / 8" using assms(2) by (simp add: field_simps)
  moreover have "1 / (2::rat) ^ 149 \<le> 1 / 8" by simp
  ultimately have "\<bar>r - q\<bar> \<le> 1 / 4" using err by linarith
  then have "r \<le> q + 1 / 4" "q - 1 / 4 \<le> r" unfolding abs_le_iff by linarith+
  with r that show thesis by blast
qed

lemma trunc_nonneg: "- 1 < q \<Longrightarrow> 0 \<le> trunc_rat q"
  unfolding trunc_rat_def by (auto simp: le_ceiling_iff)

lemma trunc_le: "q < of_int (n + 1) \<Longrightarrow> 0 \<le> n \<Longrightarrow> trunc_rat q \<le> n"
  unfolding trunc_rat_def by (auto simp: floor_le_iff ceiling_le_iff intro: order_trans [of q 0])

lemma trunc_close: "\<bar>of_int (trunc_rat q) - q\<bar> < 1"
  unfolding trunc_rat_def by (auto simp: abs_if) linarith+

lemma int_of_f32_near:
  assumes "- 1 < q" and "q < of_int (n + 1)" and "0 \<le> n" and "n < 2 ^ 31"
  shows "int_of_f32 (Fin q) = Inr (trunc_rat q)" and "0 \<le> trunc_rat q" and "trunc_rat q \<le> n"
  using trunc_nonneg [OF assms(1)] trunc_le [OF assms(2,3)] assms(4) by (auto simp: in_int_def)

lemma scaled_span:
  assumes "ieee_single rd" and "W \<le> 2 ^ 20" and "0 \<le> a" and "a \<le> b" and "b \<le> 1"
  shows "\<exists>X L. int_of_f32 (f_mul rd (Fin a) (rd (of_nat W))) = Inr X \<and>
    int_of_f32 (f_sub rd (f_mul rd (Fin b) (rd (of_nat W))) (rd (of_int X))) = Inr L \<and>
    0 \<le> X \<and> 0 \<le> L \<and> X + L \<le> int W \<and>
    \<bar>of_int X - a * of_nat W\<bar> < 2 \<and> \<bar>of_int (X + L) - b * of_nat W\<bar> < 2"
proof -
  have W: "rd (of_nat W) = Fin (of_nat W)"
    using ieee_exact [OF assms(1), of "int W"] assms(2) by simp
  have W20: "of_nat W \<le> (2::rat) ^ 20" using assms(2) by (metis of_nat_le_iff of_nat_numeral of_nat_power)
  have le: "0 \<le> a * of_nat W" "a * of_nat W \<le> b * of_nat W" "b * of_nat W \<le> of_nat W"
    using assms(3-5) by (simp_all add: mult_right_mono mult_left_le_one_le)
  obtain p where p: "rd (a * of_nat W) = Fin p" "p \<le> a * of_nat W + 1 / 4" "a * of_nat W - 1 / 4 \<le> p"
    by (rule ieee_near [OF assms(1)]) (use le W20 in auto)
  obtain q where q: "rd (b * of_nat W) = Fin q" "q \<le> b * of_nat W + 1 / 4" "b * of_nat W - 1 / 4 \<le> q"
    by (rule ieee_near [OF assms(1)]) (use le W20 in auto)
  define X where "X = trunc_rat p"
  have X: "int_of_f32 (Fin p) = Inr X" "0 \<le> X" "X \<le> int W"
    using int_of_f32_near [of p "int W"] p(2,3) le assms(2) unfolding X_def by (simp_all del: int_of_f32.simps)
  have Xp: "\<bar>of_int X - p\<bar> < 1" unfolding X_def by (rule trunc_close)
  have rdX: "rd (of_int X) = Fin (of_int X)"
    using ieee_exact [OF assms(1), of X] X(2,3) assms(2) by simp
  have XW: "(of_int X :: rat) \<le> of_nat W" "(0::rat) \<le> of_int X" 
    using X(2,3) of_int_le_iff [where 'a = rat, of X "int W"] by simp_all
  have Xle: "of_int X \<le> max p 0"
    unfolding X_def trunc_rat_def by (auto simp: ceiling_le_zero)
  have "\<bar>q - of_int X\<bar> \<le> 2 ^ 21" using q(2,3) le W20 XW unfolding abs_le_iff by simp
  then obtain s where s: "rd (q - of_int X) = Fin s" "s \<le> (q - of_int X) + 1 / 4" "(q - of_int X) - 1 / 4 \<le> s"
    by (rule ieee_near [OF assms(1)])
  define L where "L = trunc_rat s"
  have "- 1 < s" using s(3) q(3) p(2) Xle le by (cases "0 \<le> p") (simp_all add: max_def)
  moreover have "s < of_int (int W - X + 1)" using s(2) q(2) le by simp
  ultimately have L: "int_of_f32 (Fin s) = Inr L" "0 \<le> L" "L \<le> int W - X"
    using int_of_f32_near [of s "int W - X"] X(2,3) assms(2) unfolding L_def by (simp_all del: int_of_f32.simps)
  have "\<bar>of_int L - s\<bar> < 1" unfolding L_def by (rule trunc_close)
  then have "\<bar>of_int (X + L) - b * of_nat W\<bar> < 2" 
    using s(2,3) q(2,3) by (simp add: abs_less_iff)
  moreover have "\<bar>of_int X - a * of_nat W\<bar> < 2" using Xp p(2,3) by (simp add: abs_less_iff)
  ultimately show ?thesis
    using X L by (intro exI [of _ X] exI [of _ L]) (simp add: W p(1) q(1) rdX s(1))
qed

text \<open>
  C20: for an image of at most \<open>2 ^ 20\<close> rows and columns, a row of normalised, ordered coordinates gives a
  box without undefined conversions that lies inside the image and whose corners are the network's to
  within two pixels.
\<close>
theorem box_in_frame:
  assumes "ieee_single rd" and "W \<le> 2 ^ 20" and "H \<le> 2 ^ 20"
    and "0 \<le> x0" and "x0 \<le> x1" and "x1 \<le> 1" and "0 \<le> y0" and "y0 \<le> y1" and "y1 \<le> 1"
  shows "\<exists>r. read_box rd (rd (of_nat W)) (rd (of_nat H)) (Fin x0) (Fin y0) (Fin x1) (Fin y1) = Inr r \<and>
    0 \<le> rx r \<and> 0 \<le> rw r \<and> rx r + rw r \<le> int W \<and> 0 \<le> ry r \<and> 0 \<le> rh r \<and> ry r + rh r \<le> int H \<and>
    \<bar>of_int (rx r) - x0 * of_nat W\<bar> < 2 \<and> \<bar>of_int (rx r + rw r) - x1 * of_nat W\<bar> < 2 \<and>
    \<bar>of_int (ry r) - y0 * of_nat H\<bar> < 2 \<and> \<bar>of_int (ry r + rh r) - y1 * of_nat H\<bar> < 2"
proof -
  obtain X L where x: "int_of_f32 (f_mul rd (Fin x0) (rd (of_nat W))) = Inr X"
      "int_of_f32 (f_sub rd (f_mul rd (Fin x1) (rd (of_nat W))) (rd (of_int X))) = Inr L"
    and xb: "0 \<le> X \<and> 0 \<le> L \<and> X + L \<le> int W \<and> \<bar>of_int X - x0 * of_nat W\<bar> < 2 \<and>
      \<bar>of_int (X + L) - x1 * of_nat W\<bar> < 2"
    using scaled_span [OF assms(1,2,4-6)] by blast
  obtain Y M where y: "int_of_f32 (f_mul rd (Fin y0) (rd (of_nat H))) = Inr Y"
      "int_of_f32 (f_sub rd (f_mul rd (Fin y1) (rd (of_nat H))) (rd (of_int Y))) = Inr M"
    and yb: "0 \<le> Y \<and> 0 \<le> M \<and> Y + M \<le> int H \<and> \<bar>of_int Y - y0 * of_nat H\<bar> < 2 \<and>
      \<bar>of_int (Y + M) - y1 * of_nat H\<bar> < 2"
    using scaled_span [OF assms(1,3,7-9)] by blast
  show ?thesis
    using xb yb by (intro exI [of _ "\<lparr>rx = X, ry = Y, rw = L, rh = M\<rparr>"]) (simp add: read_box_def x y)
qed

lemma exact_ieee: "ieee_single Fin"
  by (simp add: ieee_single_def)

theorem box_in_frame_witness:
  "\<exists>r. read_box Fin (Fin (of_nat 640)) (Fin (of_nat 480)) (Fin (1 / 4)) (Fin (1 / 2)) (Fin (3 / 4)) (Fin 1) = Inr r \<and>
    0 \<le> rx r \<and> 0 \<le> rw r \<and> rx r + rw r \<le> int 640 \<and> 0 \<le> ry r \<and> 0 \<le> rh r \<and> ry r + rh r \<le> int 480 \<and>
    \<bar>of_int (rx r) - 1 / 4 * of_nat 640\<bar> < (2::rat) \<and> \<bar>of_int (rx r + rw r) - 3 / 4 * of_nat 640\<bar> < (2::rat) \<and>
    \<bar>of_int (ry r) - 1 / 2 * of_nat 480\<bar> < (2::rat) \<and> \<bar>of_int (ry r + rh r) - 1 * of_nat 480\<bar> < (2::rat)"
  by (rule box_in_frame [OF exact_ieee]) simp_all

end
