(* ===== verification/Attributes.thy ===== *)
theory Attributes
  imports Detection
begin

text \<open>
  The second network of \<open>PersonPipeline.cpp\<close>: \<open>PersonAttribsDetection\<close>, its attributes, the colour of a
  region (\<open>GetAvgColor\<close>, over \<open>cv::kmeans\<close>), and \<open>Load\<close>, which puts either network on a device.
\<close>

section \<open>The colour of a region\<close>

definition max_index :: "nat list \<Rightarrow> nat" where
  "max_index fs = fold (\<lambda>i best. if fs ! best < fs ! i then i else best) [0..<length fs] 0"

definition count_labels :: "nat list \<Rightarrow> nat list \<Rightarrow> nat list result" where
  "count_labels labels freq =
     fold_res (\<lambda>l fs. if l < length fs then Inr (fs[l := fs ! l + 1]) else Inl Undefined_behaviour) labels freq"

definition GetAvgColor :: "('e, 'r) platform \<Rightarrow> mat \<Rightarrow> (u8 \<times> u8 \<times> u8) result" where
  "GetAvgColor P img =
     (let clusterCount = min 5 (rows img * cols img) in
      bind_res (kmeans P img clusterCount) (\<lambda>(labels, centers).
      bind_res (count_labels labels (replicate clusterCount 0)) (\<lambda>freq.
        (let i = max_index freq in if i < length centers then Inr (centers ! i) else Inl Undefined_behaviour))))"

section \<open>Person attributes\<close>

record ('e, 'r) attribs_detection = "('e, 'r) base_detection" +
  outputNameForAttributes :: string
  outputNameForTopColorPoint :: string
  outputNameForBottomColorPoint :: string

definition attribs_model :: string where
  "attribs_model = ''person-attributes-recognition-crossroad-0230.xml''"

definition PersonAttribsDetection :: "('e, 'r) attribs_detection" where
  "PersonAttribsDetection = \<lparr>commandLineFlag = attribs_model, topoName = ''Person Attributes Recognition'',
     net = None, request_obj = None, inputName = [], outputName = [], enablingChecked = False,
     enabled_flag = False, outputNameForAttributes = [], outputNameForTopColorPoint = [],
     outputNameForBottomColorPoint = []\<rparr>"

record attributes =
  attributes_strings :: "string list"
  attributes_indicators :: "bool list"
  top_color_point :: "f32 \<times> f32"
  bottom_color_point :: "f32 \<times> f32"

definition attributeStrings :: "string list" where
  "attributeStrings = [''is male'', ''has_bag'', ''has_backpack'', ''has hat'', ''has longsleeves'',
     ''has longpants'', ''has longhair'', ''has coat_jacket'']"

definition wrong_attributes :: "nat \<Rightarrow> string" where
  "wrong_attributes n = ''Output size ('' @ dec n @ '') of the Person Attributes Recognition network is not equal to expected number of attributes ('' @ dec (length attributeStrings) @ '')''"

definition wrong_top_point :: "nat \<Rightarrow> string" where
  "wrong_top_point n = ''Output size ('' @ dec n @ '') of the Person Attributes Recognition network is not equal to point coordinates(2)''"

definition wrong_bottom_point :: "nat \<Rightarrow> string" where
  "wrong_bottom_point n = ''Output size ('' @ dec n @ '') of the Person Attributes Recognition network is not equal to point coordinates (2)''"

text \<open>The reads of the output buffers, once their shapes were accepted.\<close>

definition read_point :: "f32 list \<Rightarrow> (f32 \<times> f32) result" where
  "read_point fs = bind_res (float_at fs 0) (\<lambda>x. bind_res (float_at fs 1) (\<lambda>y. Inr (x, y)))"

definition read_indicators :: "f32 list \<Rightarrow> nat \<Rightarrow> bool list result" where
  "read_indicators fs n =
     fold_res (\<lambda>i acc. bind_res (float_at fs (int i)) (\<lambda>v. Inr (acc @ [f_greater v (1 / 2)]))) [0..<n] []"

definition read_attributes :: "f32 list \<Rightarrow> f32 list \<Rightarrow> f32 list \<Rightarrow> attributes result" where
  "read_attributes attrs tc bc =
     bind_res (read_point tc) (\<lambda>t. bind_res (read_point bc) (\<lambda>b.
     bind_res (read_indicators attrs (length attributeStrings)) (\<lambda>is.
       Inr \<lparr>attributes_strings = attributeStrings, attributes_indicators = is,
            top_color_point = t, bottom_color_point = b\<rparr>)))"

text \<open>The three outputs, each with its dimensions, checked and read.\<close>

definition attributes_from :: "nat list \<times> f32 list \<Rightarrow> nat list \<times> f32 list \<Rightarrow> nat list \<times> f32 list \<Rightarrow> attributes result"
where
  "attributes_from attribs tc bc =
     bind_res (dims_at (fst attribs) 1) (\<lambda>numOfAttrChannels.
     bind_res (dims_at (fst tc) 1) (\<lambda>numOfTCPointChannels.
     bind_res (dims_at (fst bc) 1) (\<lambda>numOfBCPointChannels.
       if numOfAttrChannels \<noteq> length attributeStrings
       then Inl (Logic_error (wrong_attributes numOfAttrChannels))
       else if numOfTCPointChannels \<noteq> 2 then Inl (Logic_error (wrong_top_point numOfTCPointChannels))
       else if numOfBCPointChannels \<noteq> 2 then Inl (Logic_error (wrong_bottom_point numOfBCPointChannels))
       else read_attributes (snd attribs) (snd tc) (snd bc))))"

definition GetPersonAttributes :: "('e, 'r) platform \<Rightarrow> (('e, 'r) attribs_detection, attributes) prog" where
  "GetPersonAttributes P =
     bind_prog (ask (\<lambda>d. d)) (\<lambda>d.
     bind_prog (get_output P (outputNameForAttributes d)) (\<lambda>attribs.
     bind_prog (get_output P (outputNameForTopColorPoint d)) (\<lambda>tc.
     bind_prog (get_output P (outputNameForBottomColorPoint d)) (\<lambda>bc.
       lift_res (attributes_from attribs tc bc)))))"

definition attribs_read :: "('e, 'r) platform \<Rightarrow> (('e, 'r) attribs_detection, network) prog" where
  "attribs_read P =
     bind_prog (lift_res (ReadNetwork P attribs_model)) (\<lambda>n0.
     bind_prog (lift_res (setBatchSize P 1 n0)) (\<lambda>n1.
       if length (net_inputs n1) \<noteq> 1
       then raise (Logic_error ''Person Attribs topology should have only one input'')
       else seq_prog (change (inputName_update (\<lambda>_. fst (hd (net_inputs n1)))))
         (case net_outputs n1 of
            [a, t, b] \<Rightarrow>
              seq_prog (change (\<lambda>d. d\<lparr>outputNameForAttributes := port_name (snd a),
                  outputNameForTopColorPoint := port_name (snd t),
                  outputNameForBottomColorPoint := port_name (snd b), enabled_flag := True\<rparr>))
                (ret (n1\<lparr>net_inputs := configure U8 NCHW (net_inputs n1)\<rparr>))
          | _ \<Rightarrow> raise (Logic_error ''Person Attribs Network expects networks having one output''))))"

section \<open>Loading a network\<close>

definition load_into ::
  "('e, 'r) platform \<Rightarrow> (('e, 'r, 'x) base_detection_scheme, network) prog \<Rightarrow> string \<Rightarrow>
   (('e, 'r, 'x) base_detection_scheme, unit) prog" where
  "load_into P read deviceName =
     bind_prog enabled (\<lambda>on. if \<not> on then ret ()
       else bind_prog read (\<lambda>n. bind_prog (lift_res (LoadNetwork P n deviceName)) (\<lambda>e.
         change (net_update (\<lambda>_. Some e)))))"

end
