(* ===== verification/PersonPipeline.thy ===== *)
theory PersonPipeline
  imports Attributes
begin

text \<open>
  \<open>PersonPipeline::Impl\<close> of \<open>PersonPipeline.cpp\<close>: \<open>init\<close>, \<open>run\<close> and \<open>constructJsonMessage\<close>. A run decodes
  an image, detects persons, crops each and recognises its attributes, and returns their regions as JSON;
  it catches every exception and returns the empty string then.
\<close>

section \<open>The pipeline\<close>

record roi =
  roi_x :: nat
  roi_y :: nat
  roi_w :: nat
  roi_h :: nat
  attrib :: string

record image_result =
  rois :: "roi list"
  imageName :: string

record ('e, 'r) pipeline =
  personDetection :: "('e, 'r) person_detection"
  personAttribs :: "('e, 'r) attribs_detection"

definition new_pipeline :: "('e, 'r) pipeline" where
  "new_pipeline = \<lparr>personDetection = PersonDetection, personAttribs = PersonAttribsDetection\<rparr>"

definition on_detection :: "(('e, 'r) person_detection, 'a) prog \<Rightarrow> (('e, 'r) pipeline, 'a) prog" where
  "on_detection = on_part personDetection personDetection_update"

definition on_attribs :: "(('e, 'r) attribs_detection, 'a) prog \<Rightarrow> (('e, 'r) pipeline, 'a) prog" where
  "on_attribs = on_part personAttribs personAttribs_update"

section \<open>Initialisation\<close>

text \<open>Each device once.\<close>

definition load_devices :: "('e, 'r) platform \<Rightarrow> string list \<Rightarrow> string set \<Rightarrow> string set result" where
  "load_devices P = fold_res (\<lambda>flag loaded.
     if flag = [] \<or> flag \<in> loaded then Inr loaded
     else bind_res (GetVersions P flag) (\<lambda>_. Inr (insert flag loaded)))"

definition init :: "('e, 'r) platform \<Rightarrow> (('e, 'r) pipeline, bool) prog" where
  "init P =
     catch_all
       (bind_prog (lift_res (NewCore P)) (\<lambda>ie.
        bind_prog (lift_res (load_devices P [''CPU'', ''CPU'', ''CPU''] {})) (\<lambda>loadedDevices.
        bind_prog (on_detection (load_into P (det_read P) ''CPU'')) (\<lambda>_.
        bind_prog (on_attribs (load_into P (attribs_read P) ''CPU'')) (\<lambda>_. ret True)))))
       (\<lambda>_. False)"

section \<open>The JSON text\<close>

definition roi_node :: "roi \<Rightarrow> ptree" where
  "roi_node r = Node [] [(''x'', Node (dec (roi_x r)) []), (''y'', Node (dec (roi_y r)) []),
     (''width'', Node (dec (roi_w r)) []), (''height'', Node (dec (roi_h r)) []),
     (''attributes'', Node (attrib r) [])]"

definition frame_nodes :: "image_result list \<Rightarrow> (string \<times> ptree) list" where
  "frame_nodes rs =
     concat (map (\<lambda>frame. let frameNode = map (\<lambda>r. ([], roi_node r)) (rois frame)
       in if frameNode \<noteq> [] then [(imageName frame, Node [] frameNode)] else []) rs)"

definition constructJsonMessage :: "('e, 'r) platform \<Rightarrow> image_result list \<Rightarrow> string result" where
  "constructJsonMessage P rs =
     (let jsonTree = frame_nodes rs in if jsonTree = [] then Inr [] else write_json P (Node [] jsonTree))"

section \<open>One image\<close>

text \<open>The point \<open>(static_cast<int>(p.x) * cols, static_cast<int>(p.y) * rows)\<close> and the area around it.\<close>

definition color_point :: "mat \<Rightarrow> f32 \<times> f32 \<Rightarrow> (int \<times> int) result" where
  "color_point person p =
     bind_res (int_of_f32 (fst p)) (\<lambda>x. bind_res (int_of_f32 (snd p)) (\<lambda>y.
       Inr (wrap_int (x * int (cols person)), wrap_int (y * int (rows person)))))"

definition color_area :: "('e, 'r) platform \<Rightarrow> mat \<Rightarrow> int \<times> int \<Rightarrow> rect" where
  "color_area P person p =
     rect_and P
       \<lparr>rx = wrap_int (fst p - int (cols person div 6)), ry = wrap_int (snd p - int (rows person div 10)),
        rw = int_quot (wrap_int (2 * int (cols person))) 6, rh = int_quot (wrap_int (2 * int (rows person))) 8\<rparr>
       \<lparr>rx = 0, ry = 0, rw = int (cols person), rh = int (rows person)\<rparr>"

definition area_color :: "('e, 'r) platform \<Rightarrow> mat \<Rightarrow> rect \<Rightarrow> (u8 \<times> u8 \<times> u8) result" where
  "area_color P person r = bind_res (crop P person r) (GetAvgColor P)"

text \<open>The two points, the two areas, the two colours: the colours are only printed, but may throw.\<close>

definition person_colors :: "('e, 'r) platform \<Rightarrow> mat \<Rightarrow> attributes \<Rightarrow> ((u8 \<times> u8 \<times> u8) \<times> (u8 \<times> u8 \<times> u8)) result" where
  "person_colors P person a =
     bind_res (color_point person (top_color_point a)) (\<lambda>tp.
     bind_res (color_point person (bottom_color_point a)) (\<lambda>bp.
     bind_res (area_color P person (color_area P person tp)) (\<lambda>top.
     bind_res (area_color P person (color_area P person bp)) (\<lambda>bottom.
       Inr (top, bottom)))))"

definition attribute_string :: "attributes \<Rightarrow> string" where
  "attribute_string a =
     concat (map (\<lambda>(s, on). if on then s @ '','' else []) (zip (attributes_strings a) (attributes_indicators a)))"

definition roi_of :: "rect \<Rightarrow> string \<Rightarrow> roi" where
  "roi_of r s = \<lparr>roi_x = unsigned_of_int (rx r), roi_y = unsigned_of_int (ry r),
     roi_w = unsigned_of_int (rw r), roi_h = unsigned_of_int (rh r), attrib = s\<rparr>"

text \<open>The body of the loop over the detections.\<close>

definition attributes_of :: "('e, 'r) platform \<Rightarrow> mat \<Rightarrow> (('e, 'r) attribs_detection, attributes) prog" where
  "attributes_of P person =
     seq_prog (base_enqueue P person)
       (seq_prog (base_submitRequest P) (seq_prog (base_wait P) (GetPersonAttributes P)))"

definition analyse_detection ::
  "('e, 'r) platform \<Rightarrow> mat \<Rightarrow> detection_result \<Rightarrow> roi list \<Rightarrow> (('e, 'r) attribs_detection, roi list) prog" where
  "analyse_detection P frame r acc =
     (if dlabel r \<noteq> 1 then ret acc
      else bind_prog (lift_res (crop P frame
          (rect_and P (location r) \<lparr>rx = 0, ry = 0, rw = int (cols frame), rh = int (rows frame)\<rparr>))) (\<lambda>person.
        bind_prog (attributes_of P person) (\<lambda>a.
        bind_prog (lift_res (person_colors P person a)) (\<lambda>_.
          ret (if attributes_strings a \<noteq> [] then acc @ [roi_of (location r) (attribute_string a)] else acc)))))"

text \<open>The pipeline up to the results of an image; what \<open>run\<close> does around it.\<close>

definition detect_persons :: "('e, 'r) platform \<Rightarrow> mat \<Rightarrow> (('e, 'r) person_detection, detection_result list) prog" where
  "detect_persons P frame =
     seq_prog (det_enqueue P frame)
       (seq_prog (det_submitRequest P)
         (seq_prog (base_wait P) (seq_prog (fetchResults P) (ask results))))"

definition run_image :: "('e, 'r) platform \<Rightarrow> string \<Rightarrow> string \<Rightarrow> (('e, 'r) pipeline, string) prog" where
  "run_image P input name =
     bind_prog (lift_res (imdecode P (int_of_size (length input)) input)) (\<lambda>frame.
     bind_prog (on_detection (detect_persons P frame)) (\<lambda>rs.
     bind_prog (on_attribs (fold_prog (analyse_detection P frame) rs [])) (\<lambda>found.
       lift_res (constructJsonMessage P [\<lparr>rois = found, imageName = name\<rparr>]))))"

definition run :: "('e, 'r) platform \<Rightarrow> string \<Rightarrow> string \<Rightarrow> (('e, 'r) pipeline, string) prog" where
  "run P input name = catch_all (run_image P input name) (\<lambda>_. [])"

section \<open>No exception leaves the pipeline\<close>

lemma run_Inl: "run P input name pl = (Inl e, t) \<Longrightarrow> e = Undefined_behaviour"
  unfolding run_def by (rule catch_all_Inl)

lemma init_Inl: "init P pl = (Inl e, t) \<Longrightarrow> e = Undefined_behaviour"
  unfolding init_def by (rule catch_all_Inl)

section \<open>What a successful initialisation establishes\<close>

text \<open>
  The networks the rest of the code relies on: the detection network has one 8-bit input and one output
  of four dimensions whose rows have seven numbers; the attributes network has one input and three
  outputs. The object remembers their names.
\<close>

definition fits_detection :: "network \<Rightarrow> ('e, 'r) person_detection \<Rightarrow> bool" where
  "fits_detection n d \<longleftrightarrow>
     (\<exists>p q. net_inputs n = [(inputName d, p)] \<and> net_outputs n = [(outputName d, q)] \<and>
        desc_precision (port_desc p) = U8 \<and> desc_layout (port_desc p) = NCHW \<and>
        desc_precision (port_desc q) = FP32 \<and> desc_layout (port_desc q) = NCHW \<and>
        length (desc_dims (port_desc q)) = 4 \<and>
        maxProposalCount d = int_of_size (desc_dims (port_desc q) ! 2) \<and>
        objectSize d = 7 \<and> int_of_size (desc_dims (port_desc q) ! 3) = 7)"

definition fits_attribs :: "network \<Rightarrow> ('e, 'r) attribs_detection \<Rightarrow> bool" where
  "fits_attribs n d \<longleftrightarrow>
     (\<exists>p. net_inputs n = [(inputName d, p)] \<and> desc_precision (port_desc p) = U8 \<and> desc_layout (port_desc p) = NCHW) \<and>
     map (port_name \<circ> snd) (net_outputs n) =
       [outputNameForAttributes d, outputNameForTopColorPoint d, outputNameForBottomColorPoint d]"

lemma one_element: "length xs = Suc 0 \<Longrightarrow> \<exists>k v. xs = [(k, v)]"
  by (cases xs) auto

lemma det_read_Inr:
  assumes "det_read P d = (Inr n, d')"
  shows "fits_detection n d'" and "switched_on d' = switched_on d" and "request_obj d' = request_obj d"
  using assms
  by (auto simp: det_read_def seq_prog_def bind_prog_Inr basic_progs Let_def fits_detection_def configure_def
      dims_index_def switched_on_def split: sum.splits if_splits dest!: one_element)

lemma attribs_read_Inr:
  assumes "attribs_read P d = (Inr n, d')"
  shows "fits_attribs n d'" and "switched_on d \<Longrightarrow> switched_on d'" and "request_obj d' = request_obj d"
  using assms
  by (auto simp: attribs_read_def seq_prog_def bind_prog_Inr basic_progs fits_attribs_def configure_def
      switched_on_def split: sum.splits if_splits list.splits dest!: one_element)

lemma load_into_Inr:
  assumes "load_into P read dev d = (Inr (), d')" and "switched_on d"
  shows "\<exists>n e t. read (checked d) = (Inr n, t) \<and> LoadNetwork P n dev = Inr e \<and> d' = t\<lparr>net := Some e\<rparr>"
proof -
  obtain n t where n: "read (checked d) = (Inr n, t)"
    and rest: "(case LoadNetwork P n dev of Inl e \<Rightarrow> (Inl e, t) | Inr e \<Rightarrow> change (net_update (\<lambda>_. Some e)) t) = (Inr (), d')"
    using assms by (auto simp: load_into_def bind_enabled bind_prog_Inr basic_progs)
  then show ?thesis by (cases "LoadNetwork P n dev") (auto simp: change_def)
qed

lemma switched_on_net [simp]: "switched_on (d\<lparr>net := x\<rparr>) = switched_on d"
  by (simp add: switched_on_def)

lemma fits_net [simp]:
  "fits_detection n (d\<lparr>net := x\<rparr>) = fits_detection n d" "fits_attribs n (a\<lparr>net := x\<rparr>) = fits_attribs n a"
  by (simp_all add: fits_detection_def fits_attribs_def)

lemma init_loads:
  fixes pl :: "('e, 'r) pipeline"
  assumes "init P new_pipeline = (Inr True, pl)"
  shows "\<exists>n1 n2 e1 e2. fits_detection n1 (personDetection pl) \<and> fits_attribs n2 (personAttribs pl) \<and>
    LoadNetwork P n1 ''CPU'' = Inr e1 \<and> net (personDetection pl) = Some e1 \<and>
    LoadNetwork P n2 ''CPU'' = Inr e2 \<and> net (personAttribs pl) = Some e2 \<and>
    switched_on (personDetection pl) \<and> switched_on (personAttribs pl) \<and>
    request_obj (personDetection pl) = None \<and> request_obj (personAttribs pl) = None"
proof -
  obtain d a where d: "load_into P (det_read P) ''CPU'' PersonDetection = (Inr (), d)"
    and a: "load_into P (attribs_read P) ''CPU'' PersonAttribsDetection = (Inr (), a)"
    and pl: "pl = \<lparr>personDetection = d, personAttribs = a\<rparr>"
    using assms
    by (auto simp: init_def catch_all_def on_detection_def on_attribs_def on_part_def new_pipeline_def
        bind_prog_Inr basic_progs split: prod.splits sum.splits if_splits)
  have on: "switched_on (PersonDetection :: ('e, 'r) person_detection)"
      "switched_on (PersonAttribsDetection :: ('e, 'r) attribs_detection)"
    by (simp_all add: switched_on_def PersonDetection_def PersonAttribsDetection_def person_model_def attribs_model_def)
  obtain n1 e1 t1 where 1: "det_read P (checked PersonDetection) = (Inr n1, t1)" "LoadNetwork P n1 ''CPU'' = Inr e1"
      "d = t1\<lparr>net := Some e1\<rparr>"
    using load_into_Inr [OF d on(1)] by blast
  obtain n2 e2 t2 where 2: "attribs_read P (checked PersonAttribsDetection) = (Inr n2, t2)"
      "LoadNetwork P n2 ''CPU'' = Inr e2" "a = t2\<lparr>net := Some e2\<rparr>"
    using load_into_Inr [OF a on(2)] by blast
  have fresh: "request_obj (checked PersonDetection) = (None :: 'r option)"
      "request_obj (checked PersonAttribsDetection) = (None :: 'r option)"
    by (simp_all add: checked_def PersonDetection_def PersonAttribsDetection_def)
  have "switched_on t1" "switched_on t2"
    using det_read_Inr(2) [OF 1(1)] attribs_read_Inr(2) [OF 2(1)] on by simp_all
  moreover have "request_obj t1 = None" "request_obj t2 = None"
    using det_read_Inr(3) [OF 1(1)] attribs_read_Inr(3) [OF 2(1)] fresh by simp_all
  ultimately show ?thesis
    using det_read_Inr(1) [OF 1(1)] attribs_read_Inr(1) [OF 2(1)] 1(2) 2(2)
    by (rule_tac x = n1 in exI, rule_tac x = n2 in exI, rule_tac x = e1 in exI, rule_tac x = e2 in exI)
       (simp add: pl 1(3) 2(3))
qed

text \<open>
  C18: when \<open>init\<close> returns true, both networks were loaded and have the shape the code reads them with:
  inputs configured as 8-bit planar images, detection rows of seven numbers, three attribute outputs,
  their names stored; no inference request exists yet.
\<close>
theorem init_ready:
  fixes pl :: "('e, 'r) pipeline"
  assumes "init P new_pipeline = (Inr True, pl)"
  shows "\<exists>n1 n2 e1 e2. fits_detection n1 (personDetection pl) \<and> fits_attribs n2 (personAttribs pl) \<and>
    LoadNetwork P n1 ''CPU'' = Inr e1 \<and> net (personDetection pl) = Some e1 \<and>
    LoadNetwork P n2 ''CPU'' = Inr e2 \<and> net (personAttribs pl) = Some e2 \<and>
    switched_on (personDetection pl) \<and> switched_on (personAttribs pl) \<and>
    request_obj (personDetection pl) = None \<and> request_obj (personAttribs pl) = None"
  by (rule init_loads [OF assms])

definition demo_pipeline :: "(nat, nat \<times> u8 list) pipeline" where
  "demo_pipeline = snd (init (demo_platform demo_table) new_pipeline)"

lemmas init_eval = init_def load_devices_def catch_all_def on_detection_def on_attribs_def on_part_def
  new_pipeline_def load_into_def bind_prog_def enabled_def det_read_def attribs_read_def seq_prog_def
  basic_progs Let_def demo_port_def configure_def dims_index_def PersonDetection_def
  PersonAttribsDetection_def int_of_size_def

lemma demo_init: "init (demo_platform demo_table) new_pipeline = (Inr True, demo_pipeline)"
proof -
  have "fst (init (demo_platform demo_table) new_pipeline) = Inr True"
    by (simp add: init_eval person_model_def attribs_model_def demo_platform_def demo_table_def)
  then show ?thesis unfolding demo_pipeline_def by (metis prod.collapse)
qed

theorem init_ready_witness:
  "\<exists>n1 n2 e1 e2. fits_detection n1 (personDetection demo_pipeline) \<and> fits_attribs n2 (personAttribs demo_pipeline) \<and>
    LoadNetwork (demo_platform demo_table) n1 ''CPU'' = Inr e1 \<and> net (personDetection demo_pipeline) = Some e1 \<and>
    LoadNetwork (demo_platform demo_table) n2 ''CPU'' = Inr e2 \<and> net (personAttribs demo_pipeline) = Some e2 \<and>
    switched_on (personDetection demo_pipeline) \<and> switched_on (personAttribs demo_pipeline) \<and>
    request_obj (personDetection demo_pipeline) = None \<and> request_obj (personAttribs demo_pipeline) = None"
  by (rule init_ready [OF demo_init])

section \<open>Where the code departs from its comments\<close>

text \<open>
  The colour points of the network are fractions of the person's size, below 1: the conversion to \<open>int\<close>
  comes before the multiplication, so the point is always the corner, whatever the network says.
\<close>

lemma color_point_corner:
  assumes "0 \<le> x" and "x < 1" and "0 \<le> y" and "y < 1"
  shows "color_point m (Fin x, Fin y) = Inr (0, 0)"
proof -
  have "\<lfloor>x\<rfloor> = 0" "\<lfloor>y\<rfloor> = 0" using assms by linarith+
  then show ?thesis using assms by (simp add: color_point_def trunc_rat_def in_int_def)
qed

text \<open>The area is empty for a person of less than four rows or three columns; averaging it then throws.\<close>

lemma small_person_area:
  assumes "rect_and P = documented_and" and "rows m < 4 \<or> cols m < 3"
  shows "rw (color_area P m p) = 0 \<and> rh (color_area P m p) = 0"
proof -
  have "int_quot (wrap_int (2 * int (cols m))) 6 \<le> 0 \<or> int_quot (wrap_int (2 * int (rows m))) 8 \<le> 0"
    using assms(2) by auto
  then show ?thesis using assms(1) by (auto simp: color_area_def documented_and_def Let_def)
qed

text \<open>A box that starts left of the image is reported with a huge coordinate.\<close>

lemma negative_box_wraps:
  assumes "- (2 ^ 31) \<le> rx r" and "rx r < 0"
  shows "roi_x (roi_of r s) = 2 ^ 32 - nat (- rx r)"
proof -
  have "rx r mod 2 ^ 32 = rx r + 2 ^ 32"
    using assms by (intro mod_pos_pos_trivial [of "rx r + 2 ^ 32" "2 ^ 32", simplified mod_add_self2]) auto
  then show ?thesis using assms by (simp add: roi_of_def unsigned_of_int_def)
qed

text \<open>A pipeline whose networks were not loaded answers every image with the empty string.\<close>

lemma run_without_networks:
  assumes "switched_on (personDetection pl)" and "net (personDetection pl) = None"
    and "request_obj (personDetection pl) = None" and "imdecode P (int_of_size (length input)) input = Inr m"
  shows "fst (run P input name pl) = Inr []"
  using assms
  by (simp add: run_def run_image_def catch_all_def bind_prog_def lift_res_def on_detection_def on_part_def
      detect_persons_def seq_prog_def det_enqueue_def change_def base_enqueue_def enabled_def switched_on_def
      need_request_def not_allocated_def Let_def)

end
