(* ===== verification/PipelineRefinement.thy ===== *)
theory PipelineRefinement
  imports PersonPipeline
begin

text \<open>
  \<open>PersonPipeline::run\<close> keeps state between images: two inference requests, the names of their blobs, the
  detections and the flag that they were fetched. This theory states what it computes as a function of
  the image alone, under the documented behaviour of the engine, and proves that a run in any state
  reached after a successful \<open>init\<close> computes that function.
\<close>

section \<open>What is assumed of the engine and of OpenCV\<close>

text \<open>
  \<open>sem e x name\<close> is the output \<open>name\<close> of the network \<open>e\<close> on the input bytes \<open>x\<close>, \<open>shape e\<close> the height and
  width of its input. A request belongs to its network and holds the input last written; the outputs it
  shows after an inference depend on these alone. Images that are decoded or resized lie in their memory.
\<close>

record ('e, 'r) semantics =
  sem :: "'e \<Rightarrow> u8 list \<Rightarrow> string \<Rightarrow> (nat list \<times> f32 list) result"
  shape :: "'e \<Rightarrow> nat \<times> nat"
  net_of :: "'r \<Rightarrow> 'e"
  input_of :: "'r \<Rightarrow> u8 list"

text \<open>The networks in use, with the names of their inputs and outputs.\<close>

record 'e nets =
  det_exec :: 'e
  det_in :: string
  det_out :: string
  proposals :: nat
  attr_exec :: 'e
  attr_in :: string
  attr_out :: string
  top_out :: string
  bottom_out :: string

text \<open>
  A request of network \<open>e\<close> has a blob of three planes under the name \<open>i\<close>, and writing it gives the request
  its input. Nothing is said of other names: the engine may throw there.
\<close>

definition input_blob :: "('e, 'r) platform \<Rightarrow> ('e, 'r) semantics \<Rightarrow> 'e \<Rightarrow> string \<Rightarrow> bool" where
  "input_blob P S e i \<longleftrightarrow>
     (\<forall>r. net_of S r = e \<longrightarrow>
        (\<exists>b. GetBlob P r i = Inr b \<and> desc_dims (desc b) = [1, 3, fst (shape S e), snd (shape S e)] \<and>
           length (blob_data b) = 3 * (fst (shape S e) * snd (shape S e))) \<and>
        (\<forall>b. net_of S (write_input P r i b) = e \<and> input_of S (write_input P r i b) = blob_data b))"

definition engine_laws :: "('e, 'r) platform \<Rightarrow> ('e, 'r) semantics \<Rightarrow> 'e nets \<Rightarrow> bool" where
  "engine_laws P S N \<longleftrightarrow>
     (\<forall>e. \<exists>r. CreateInferRequest P e = Inr r \<and> net_of S r = e) \<and>
     (\<forall>e. fst (shape S e) < 2 ^ 31 \<and> snd (shape S e) < 2 ^ 31 \<and> 3 * (fst (shape S e) * snd (shape S e)) < 2 ^ 31) \<and>
     (\<forall>r. \<exists>r'. StartAsync P r = Inr r' \<and> net_of S r' = net_of S r \<and> input_of S r' = input_of S r) \<and>
     (\<forall>r. \<exists>r'. Wait P r = Inr r' \<and> net_of S r' = net_of S r \<and>
        (\<forall>n. GetOutput P r' n = sem S (net_of S r) (input_of S r) n)) \<and>
     (\<forall>k s m. imdecode P k s = Inr m \<longrightarrow> mat_ok m) \<and>
     (\<forall>m r m'. crop P m r = Inr m' \<longrightarrow> mat_ok m \<longrightarrow> mat_ok m') \<and>
     (\<forall>m w h r. resize P m w h = Inr r \<longrightarrow> mat_ok r \<and> rows r = h \<and> cols r = w \<and> channels r = channels m) \<and>
     input_blob P S (det_exec N) (det_in N) \<and> input_blob P S (attr_exec N) (attr_in N)"

lemma engine_lawsD:
  assumes "engine_laws P S N"
  shows "\<exists>r. CreateInferRequest P e = Inr r \<and> net_of S r = e"
    and "fst (shape S e) < 2 ^ 31" and "snd (shape S e) < 2 ^ 31"
    and "3 * (fst (shape S e) * snd (shape S e)) < 2 ^ 31"
    and "\<exists>r'. StartAsync P r = Inr r' \<and> net_of S r' = net_of S r \<and> input_of S r' = input_of S r"
    and "\<exists>r'. Wait P r = Inr r' \<and> net_of S r' = net_of S r \<and>
      (\<forall>n. GetOutput P r' n = sem S (net_of S r) (input_of S r) n)"
    and "imdecode P k s = Inr m \<Longrightarrow> mat_ok m"
    and "crop P m r' = Inr m' \<Longrightarrow> mat_ok m \<Longrightarrow> mat_ok m'"
    and "resize P m w h = Inr m' \<Longrightarrow> mat_ok m' \<and> rows m' = h \<and> cols m' = w \<and> channels m' = channels m"
    and "input_blob P S (det_exec N) (det_in N)" and "input_blob P S (attr_exec N) (attr_in N)"
  using assms by (simp_all add: engine_laws_def)

lemma input_blobD:
  assumes "input_blob P S e i" and "net_of S r = e"
  shows "\<exists>b. GetBlob P r i = Inr b"
    and "GetBlob P r i = Inr b \<Longrightarrow> desc_dims (desc b) = [1, 3, fst (shape S e), snd (shape S e)]"
    and "GetBlob P r i = Inr b \<Longrightarrow> length (blob_data b) = 1 * (3 * (fst (shape S e) * snd (shape S e)))"
    and "net_of S (write_input P r i b) = e" and "input_of S (write_input P r i b) = blob_data b"
  using assms unfolding input_blob_def by auto

section \<open>The pipeline as a function of the image\<close>

text \<open>The input bytes of a network: the image, resized if need be, in planar order.\<close>

definition prepared :: "('e, 'r) platform \<Rightarrow> nat \<times> nat \<Rightarrow> mat \<Rightarrow> u8 list result" where
  "prepared P hw m =
     (if channels m \<noteq> 3 then Inl (Inference_error bad_channels)
      else bind_res (if rows m = fst hw \<and> cols m = snd hw then Inr m else resize P m (snd hw) (fst hw)) (\<lambda>r.
        Inr (planar r 3 (snd hw) (fst hw))))"

definition persons_in ::
  "('e, 'r) platform \<Rightarrow> ('e, 'r) semantics \<Rightarrow> 'e nets \<Rightarrow> mat \<Rightarrow> detection_result list result" where
  "persons_in P S N frame =
     bind_res (prepared P (shape S (det_exec N)) frame) (\<lambda>x.
     bind_res (sem S (det_exec N) x (det_out N)) (\<lambda>out.
       detections (rounding P) (rounding P (of_nat (cols frame))) (rounding P (of_nat (rows frame)))
         (table (snd out) (proposals N))))"

definition attributes_in ::
  "('e, 'r) platform \<Rightarrow> ('e, 'r) semantics \<Rightarrow> 'e nets \<Rightarrow> mat \<Rightarrow> attributes result" where
  "attributes_in P S N person =
     bind_res (prepared P (shape S (attr_exec N)) person) (\<lambda>x.
     bind_res (sem S (attr_exec N) x (attr_out N)) (\<lambda>a.
     bind_res (sem S (attr_exec N) x (top_out N)) (\<lambda>t.
     bind_res (sem S (attr_exec N) x (bottom_out N)) (\<lambda>b. attributes_from a t b))))"

definition region_of ::
  "('e, 'r) platform \<Rightarrow> ('e, 'r) semantics \<Rightarrow> 'e nets \<Rightarrow> mat \<Rightarrow> detection_result \<Rightarrow> roi result" where
  "region_of P S N frame r =
     bind_res (crop P frame (rect_and P (location r) \<lparr>rx = 0, ry = 0, rw = int (cols frame), rh = int (rows frame)\<rparr>)) (\<lambda>person.
     bind_res (attributes_in P S N person) (\<lambda>a.
     bind_res (person_colors P person a) (\<lambda>_. Inr (roi_of (location r) (attribute_string a)))))"

text \<open>The regions of an image: those of the detections labelled 1, in order.\<close>

definition regions ::
  "('e, 'r) platform \<Rightarrow> ('e, 'r) semantics \<Rightarrow> 'e nets \<Rightarrow> mat \<Rightarrow> roi list result" where
  "regions P S N frame =
     bind_res (persons_in P S N frame) (\<lambda>rs. map_res (region_of P S N frame) (filter (\<lambda>r. dlabel r = 1) rs))"

definition image_json ::
  "('e, 'r) platform \<Rightarrow> ('e, 'r) semantics \<Rightarrow> 'e nets \<Rightarrow> string \<Rightarrow> string \<Rightarrow> string result" where
  "image_json P S N input name =
     bind_res (imdecode P (int_of_size (length input)) input) (\<lambda>frame.
     bind_res (regions P S N frame) (\<lambda>found.
       if found = [] then Inr []
       else write_json P (Node [] [(name, Node [] (map (\<lambda>r. ([], roi_node r)) found))])))"

definition caught :: "string result \<Rightarrow> string result" where
  "caught r = (case r of Inl e \<Rightarrow> if catchable e then Inr [] else Inl e | Inr s \<Rightarrow> Inr s)"

section \<open>States in which the pipeline can run\<close>

definition base_ready :: "('e, 'r) semantics \<Rightarrow> 'e \<Rightarrow> ('e, 'r, 'x) base_detection_scheme \<Rightarrow> bool" where
  "base_ready S e d \<longleftrightarrow> switched_on d \<and> net d = Some e \<and> (\<forall>r. request_obj d = Some r \<longrightarrow> net_of S r = e)"

definition ready :: "('e, 'r) semantics \<Rightarrow> 'e nets \<Rightarrow> ('e, 'r) pipeline \<Rightarrow> bool" where
  "ready S N pl \<longleftrightarrow>
     base_ready S (det_exec N) (personDetection pl) \<and> inputName (personDetection pl) = det_in N \<and>
     outputName (personDetection pl) = det_out N \<and>
     objectSize (personDetection pl) = 7 \<and> maxProposalCount (personDetection pl) = int (proposals N) \<and>
     base_ready S (attr_exec N) (personAttribs pl) \<and> inputName (personAttribs pl) = attr_in N \<and>
     outputNameForAttributes (personAttribs pl) = attr_out N \<and>
     outputNameForTopColorPoint (personAttribs pl) = top_out N \<and>
     outputNameForBottomColorPoint (personAttribs pl) = bottom_out N"

text \<open>The output of the detection network has room for its proposals.\<close>

definition outputs_fit :: "('e, 'r) semantics \<Rightarrow> 'e nets \<Rightarrow> bool" where
  "outputs_fit S N \<longleftrightarrow>
     (\<forall>x out. sem S (det_exec N) x (det_out N) = Inr out \<longrightarrow>
        proposals N * 7 \<le> length (snd out) \<and> length (snd out) < 2 ^ 31)"

section \<open>One inference\<close>

definition with_request :: "'r \<Rightarrow> ('e, 'r, 'x) base_detection_scheme \<Rightarrow> ('e, 'r, 'x) base_detection_scheme" where
  "with_request r d = (checked d)\<lparr>request_obj := Some r\<rparr>"

lemma with_request_simps [simp]:
  "request_obj (with_request r d) = Some r" "net (with_request r d) = net d"
  "inputName (with_request r d) = inputName d" "outputName (with_request r d) = outputName d"
  "switched_on d \<Longrightarrow> switched_on (with_request r d)"
  "with_request r (with_request r' d) = with_request r d"
  "checked (with_request r d) = with_request r d"
  "with_request r (checked d) = with_request r d"
  "(checked d)\<lparr>request_obj := Some r\<rparr> = with_request r d"
  "(with_request r d)\<lparr>request_obj := Some r'\<rparr> = with_request r' d"
  by (simp_all add: with_request_def checked_def switched_on_def)

lemma checked_simps [simp]:
  "request_obj (checked d) = request_obj d" "net (checked d) = net d" "inputName (checked d) = inputName d"
  "outputName (checked d) = outputName d"
  by (simp_all add: checked_def)

lemma same_request: "request_obj d = Some r \<Longrightarrow> d\<lparr>request_obj := Some r\<rparr> = d"
  by (cases d) simp

lemma need_request_ready:
  assumes "engine_laws P S N" and "base_ready S e d"
  shows "\<exists>r. need_request P (checked d) = (Inr r, with_request r d) \<and> net_of S r = e"
proof (cases "request_obj d")
  case None
  obtain r where "CreateInferRequest P e = Inr r" and "net_of S r = e"
    using engine_lawsD(1) [OF assms(1)] by blast
  with None assms(2) show ?thesis by (simp add: need_request_def base_ready_def)
next
  case (Some r)
  then have same: "with_request r d = checked d"
    unfolding with_request_def by (intro same_request) simp
  have "net_of S r = e" using Some assms(2) by (simp add: base_ready_def)
  moreover have "need_request P (checked d) = (Inr r, checked d)" using Some by (simp add: need_request_def)
  ultimately show ?thesis unfolding same [symmetric] by blast
qed

lemma fill_blob:
  assumes "engine_laws P S N" and "mat_ok m" and "GetBlob P r i = Inr b" and "input_blob P S (net_of S r) i"
  shows "matU8ToBlob (resize P) m 0 b =
    bind_res (prepared P (shape S (net_of S r)) m) (\<lambda>x. Inr (b\<lparr>blob_data := x\<rparr>))"
proof -
  let ?h = "fst (shape S (net_of S r))" and ?w = "snd (shape S (net_of S r))"
  have b: "desc_dims (desc b) = [1, 3, ?h, ?w]" and len: "length (blob_data b) = 1 * (3 * (?h * ?w))"
    by (rule input_blobD(2,3) [OF assms(4) refl assms(3)])+
  have small: "?h < 2 ^ 31" "?w < 2 ^ 31" "length (blob_data b) < 2 ^ 31"
    using engine_lawsD(2-4) [OF assms(1)] len by simp_all
  show ?thesis
  proof (cases "channels m = 3")
    case False
    then show ?thesis by (simp add: matU8ToBlob_def prepared_def dims_index_def b)
  next
    case True
    show ?thesis
    proof (cases "if rows m = ?h \<and> cols m = ?w then Inr m else resize P m ?w ?h")
      case (Inr r')
      have r': "mat_ok r'" "channels r' = 3" "rows r' = ?h" "cols r' = ?w"
        using Inr assms(2) True engine_lawsD(9) [OF assms(1), of m ?w ?h r'] by (auto split: if_splits)
      have "splice_at (blob_data b) 0 (planar r' 3 ?w ?h) = planar r' 3 ?w ?h"
        using len by (simp add: splice_at_def)
      then show ?thesis
        using matU8ToBlob_splice [where resize = "resize P" and m = m and r = r' and i = 0 and b = b,
            OF b _ r' True small(1,2) Inr _ len small(3)]
        by (simp add: prepared_def True Inr)
    next
      case (Inl e)
      then have "\<not> (rows m = ?h \<and> cols m = ?w)" "resize P m ?w ?h = Inl e" by (auto split: if_splits)
      then show ?thesis using small(1,2)
        by (auto simp: matU8ToBlob_def prepared_def dims_index_def b True int_of_size_small)
    qed
  qed
qed

lemma enqueue_ready:
  assumes "engine_laws P S N" and "base_ready S e d" and "mat_ok m" and "input_blob P S e (inputName d)"
  shows "\<exists>r. net_of S r = e \<and>
    (case prepared P (shape S e) m of
       Inl ex \<Rightarrow> base_enqueue P m d = (Inl ex, with_request r d)
     | Inr x \<Rightarrow> base_enqueue P m d = (Inr (), with_request r d) \<and> input_of S r = x)"
proof -
  have on: "switched_on d" using assms(2) by (simp add: base_ready_def)
  obtain r where r: "need_request P (checked d) = (Inr r, with_request r d)" and e: "net_of S r = e"
    using need_request_ready [OF assms(1,2)] by blast
  obtain b where b: "GetBlob P r (inputName d) = Inr b" using input_blobD(1) [OF assms(4) e] by blast
  note fill = fill_blob [OF assms(1,3) b, unfolded e, OF assms(4)]
  have enq: "base_enqueue P m d =
      (case prepared P (shape S e) m of
         Inl ex \<Rightarrow> (Inl ex, with_request r d)
       | Inr x \<Rightarrow> (Inr (), with_request (write_input P r (inputName d) (b\<lparr>blob_data := x\<rparr>)) d))"
    by (cases "prepared P (shape S e) m")
       (simp_all add: base_enqueue_def bind_enabled [OF on] bind_prog_def [of "need_request P"] r b fill change_def)
  show ?thesis
  proof (cases "prepared P (shape S e) m")
    case (Inl ex)
    then show ?thesis using e enq by auto
  next
    case (Inr x)
    let ?r = "write_input P r (inputName d) (b\<lparr>blob_data := x\<rparr>)"
    have "net_of S ?r = e \<and> input_of S ?r = x" using input_blobD(4,5) [OF assms(4) e] by simp
    then show ?thesis using enq Inr by (intro exI [of _ ?r]) simp
  qed
qed

lemma on_request_with:
  "switched_on d \<Longrightarrow> on_request f (with_request r d) =
     (case f r of Inl e \<Rightarrow> (Inl e, with_request r d) | Inr r' \<Rightarrow> (Inr (), with_request r' d))"
  by (simp add: on_request_def bind_enabled change_def split: sum.split)

lemma submit_with:
  assumes "engine_laws P S N" and "switched_on d"
  shows "\<exists>r'. base_submitRequest P (with_request r d) = (Inr (), with_request r' d) \<and>
    net_of S r' = net_of S r \<and> input_of S r' = input_of S r"
  using engine_lawsD(5) [OF assms(1), of r] by (auto simp: base_submitRequest_def on_request_with [OF assms(2)])

lemma wait_with:
  assumes "engine_laws P S N" and "switched_on d"
  shows "\<exists>r'. base_wait P (with_request r d) = (Inr (), with_request r' d) \<and> net_of S r' = net_of S r \<and>
    (\<forall>n. GetOutput P r' n = sem S (net_of S r) (input_of S r) n)"
  using engine_lawsD(6) [OF assms(1), of r] by (auto simp: base_wait_def on_request_with [OF assms(2)])

section \<open>Recognising the attributes of one person\<close>

definition attribs_ready :: "('e, 'r) semantics \<Rightarrow> 'e nets \<Rightarrow> ('e, 'r) attribs_detection \<Rightarrow> bool" where
  "attribs_ready S N d \<longleftrightarrow>
     base_ready S (attr_exec N) d \<and> inputName d = attr_in N \<and> outputNameForAttributes d = attr_out N \<and>
     outputNameForTopColorPoint d = top_out N \<and> outputNameForBottomColorPoint d = bottom_out N"

lemma with_request_attribs [simp]:
  "outputNameForAttributes (with_request r d) = outputNameForAttributes d"
  "outputNameForTopColorPoint (with_request r d) = outputNameForTopColorPoint d"
  "outputNameForBottomColorPoint (with_request r d) = outputNameForBottomColorPoint d"
  by (simp_all add: with_request_def checked_def del: with_request_simps)

lemma with_request_ready:
  "base_ready S e d \<Longrightarrow> net_of S r = e \<Longrightarrow> base_ready S e (with_request r d)"
  by (simp add: base_ready_def)

lemma get_attributes_with:
  assumes "\<forall>n. GetOutput P r n = out n"
  shows "GetPersonAttributes P (with_request r d) =
    (bind_res (out (outputNameForAttributes d)) (\<lambda>a. bind_res (out (outputNameForTopColorPoint d)) (\<lambda>t.
       bind_res (out (outputNameForBottomColorPoint d)) (\<lambda>b. attributes_from a t b))), with_request r d)"
  using assms
  by (cases "out (outputNameForAttributes d)"; cases "out (outputNameForTopColorPoint d)";
      cases "out (outputNameForBottomColorPoint d)")
     (simp_all add: GetPersonAttributes_def get_output_def bind_prog_def ask_def lift_res_def)

lemma attributes_of_ready:
  assumes "engine_laws P S N" and "attribs_ready S N d" and "mat_ok m"
  shows "\<exists>d'. attributes_of P m d = (attributes_in P S N m, d') \<and> attribs_ready S N d'"
proof -
  have base: "base_ready S (attr_exec N) d" using assms(2) by (simp add: attribs_ready_def)
  then have on: "switched_on d" by (simp add: base_ready_def)
  have keep: "attribs_ready S N (with_request r d)" if "net_of S r = attr_exec N" for r
    using assms(2) with_request_ready [OF base that] by (simp add: attribs_ready_def)
  obtain r where net: "net_of S r = attr_exec N" and enq: "case prepared P (shape S (attr_exec N)) m of
       Inl ex \<Rightarrow> base_enqueue P m d = (Inl ex, with_request r d)
     | Inr x \<Rightarrow> base_enqueue P m d = (Inr (), with_request r d) \<and> input_of S r = x"
    using enqueue_ready [OF assms(1) base assms(3)] engine_lawsD(11) [OF assms(1)] assms(2)
    by (auto simp: attribs_ready_def)
  show ?thesis
  proof (cases "prepared P (shape S (attr_exec N)) m")
    case (Inl ex)
    with enq keep [OF net] show ?thesis
      by (auto simp: attributes_of_def seq_prog_def bind_prog_def attributes_in_def)
  next
    case (Inr x)
    with enq have enq': "base_enqueue P m d = (Inr (), with_request r d)" and x: "input_of S r = x" by simp_all
    obtain r1 where 1: "base_submitRequest P (with_request r d) = (Inr (), with_request r1 d)"
        "net_of S r1 = net_of S r" "input_of S r1 = input_of S r"
      using submit_with [OF assms(1) on] by blast
    obtain r2 where 2: "base_wait P (with_request r1 d) = (Inr (), with_request r2 d)"
        "net_of S r2 = net_of S r1" "\<forall>n. GetOutput P r2 n = sem S (net_of S r1) (input_of S r1) n"
      using wait_with [OF assms(1) on] by blast
    have "attributes_of P m d = (attributes_in P S N m, with_request r2 d)"
      using get_attributes_with [OF 2(3), of d] assms(2)
      by (simp add: attributes_of_def seq_prog_def bind_prog_def enq' 1 2(1) x net attributes_in_def Inr
          attribs_ready_def)
    moreover have "net_of S r2 = attr_exec N" using 1(2) 2(2) net by simp
    ultimately show ?thesis using keep by blast
  qed
qed

lemma attributes_from_strings: "attributes_from a t b = Inr x \<Longrightarrow> attributes_strings x = attributeStrings"
  by (auto simp: attributes_from_def read_attributes_def res_simps split: if_splits)

lemma attributes_in_strings: "attributes_in P S N m = Inr x \<Longrightarrow> attributes_strings x \<noteq> []"
  by (auto simp: attributes_in_def res_simps dest!: attributes_from_strings) (simp add: attributeStrings_def)

lemma analyse_ready:
  assumes "engine_laws P S N" and "attribs_ready S N d" and "mat_ok frame"
  shows "\<exists>d'. analyse_detection P frame r acc d =
      (if dlabel r = 1 then bind_res (region_of P S N frame r) (\<lambda>x. Inr (acc @ [x])) else Inr acc, d') \<and>
    attribs_ready S N d'"
proof (cases "dlabel r = 1")
  case False
  with assms(2) show ?thesis by (simp add: analyse_detection_def ret_def)
next
  case True
  let ?c = "crop P frame (rect_and P (location r) \<lparr>rx = 0, ry = 0, rw = int (cols frame), rh = int (rows frame)\<rparr>)"
  show ?thesis
  proof (cases ?c)
    case (Inl e)
    with True assms(2) show ?thesis by (simp add: analyse_detection_def region_of_def)
  next
    case (Inr person)
    obtain d' where d': "attributes_of P person d = (attributes_in P S N person, d')" "attribs_ready S N d'"
      using attributes_of_ready [OF assms(1,2) engine_lawsD(8) [OF assms(1) Inr assms(3)]] by blast
    show ?thesis
    proof (cases "attributes_in P S N person")
      case (Inl e)
      with True Inr d' show ?thesis by (simp add: analyse_detection_def region_of_def bind_prog_def lift_res_def)
    next
      case a: (Inr a)
      then show ?thesis
        using True Inr d' attributes_in_strings [OF a]
        by (cases "person_colors P person a")
           (simp_all add: analyse_detection_def region_of_def bind_prog_def ret_def lift_res_def)
    qed
  qed
qed

lemma analyse_all_ready:
  assumes "engine_laws P S N" and "mat_ok frame" and "attribs_ready S N d"
  shows "\<exists>d'. fold_prog (analyse_detection P frame) rs acc d =
      (bind_res (map_res (region_of P S N frame) (filter (\<lambda>r. dlabel r = 1) rs)) (\<lambda>xs. Inr (acc @ xs)), d') \<and>
    attribs_ready S N d'"
  using assms(3)
proof (induction rs arbitrary: acc d)
  case Nil
  then show ?case by (simp add: ret_def)
next
  case (Cons r rs)
  obtain d1 where d1: "analyse_detection P frame r acc d =
      (if dlabel r = 1 then bind_res (region_of P S N frame r) (\<lambda>x. Inr (acc @ [x])) else Inr acc, d1)"
      "attribs_ready S N d1"
    using analyse_ready [OF assms(1) Cons.prems assms(2)] by blast
  note IH = Cons.IH [OF d1(2)]
  show ?case
  proof (cases "dlabel r = 1")
    case False
    with d1(1) IH [of acc] show ?thesis by (simp add: bind_prog_def)
  next
    case True
    show ?thesis
    proof (cases "region_of P S N frame r")
      case (Inl e)
      with True d1 show ?thesis by (simp add: bind_prog_def)
    next
      case (Inr x)
      with True d1(1) IH [of "acc @ [x]"] show ?thesis by (simp add: bind_prog_def bind_res_assoc)
    qed
  qed
qed

section \<open>Detecting the persons of an image\<close>

definition detection_ready :: "('e, 'r) semantics \<Rightarrow> 'e nets \<Rightarrow> ('e, 'r) person_detection \<Rightarrow> bool" where
  "detection_ready S N d \<longleftrightarrow>
     base_ready S (det_exec N) d \<and> inputName d = det_in N \<and> outputName d = det_out N \<and> objectSize d = 7 \<and>
     maxProposalCount d = int (proposals N)"

lemma ready_parts:
  "ready S N pl \<longleftrightarrow> detection_ready S N (personDetection pl) \<and> attribs_ready S N (personAttribs pl)"
  by (simp add: ready_def detection_ready_def attribs_ready_def)

lemma detection_update [simp]:
  "base_ready S e (d\<lparr>det_height := h, det_width := w\<rparr>) = base_ready S e d"
  "base_ready S e (d\<lparr>resultsFetched := b, results := rs\<rparr>) = base_ready S e d"
  "switched_on (d\<lparr>det_height := h, det_width := w\<rparr>) = switched_on d"
  "switched_on (d\<lparr>resultsFetched := b, results := rs\<rparr>) = switched_on d"
  "base_ready S e (d\<lparr>det_height := h, det_width := w, resultsFetched := b, results := rs\<rparr>) = base_ready S e d"
  "switched_on (d\<lparr>det_height := h, det_width := w, resultsFetched := b, results := rs\<rparr>) = switched_on d"
  "(with_request r d)\<lparr>resultsFetched := b, results := rs\<rparr> = with_request r (d\<lparr>resultsFetched := b, results := rs\<rparr>)"
  by (simp_all add: base_ready_def switched_on_def with_request_def checked_def del: with_request_simps)

lemma with_request_detection [simp]:
  "objectSize (with_request r d) = objectSize d" "maxProposalCount (with_request r d) = maxProposalCount d"
  "det_width (with_request r d) = det_width d" "det_height (with_request r d) = det_height d"
  "resultsFetched (with_request r d) = resultsFetched d" "results (with_request r d) = results d"
  by (simp_all add: with_request_def checked_def del: with_request_simps)

lemma fetch_with:
  fixes d :: "('e, 'r) person_detection"
  assumes "engine_laws P S N" and "outputs_fit S N" and "detection_ready S N d" and "net_of S r = det_exec N"
    and "\<forall>n. GetOutput P r n = sem S (det_exec N) x n" and "\<not> resultsFetched d" and "results d = []"
  shows "\<exists>b rs. fetchResults P (with_request r d) =
    (case bind_res (sem S (det_exec N) x (det_out N)) (\<lambda>out.
        detections (rounding P) (det_width d) (det_height d) (table (snd out) (proposals N))) of
       Inl e \<Rightarrow> (Inl e, with_request r (d\<lparr>resultsFetched := b, results := rs\<rparr>))
     | Inr found \<Rightarrow> (Inr (), with_request r (d\<lparr>resultsFetched := b, results := found\<rparr>)))"
proof (cases "sem S (det_exec N) x (det_out N)")
  case (Inl e)
  let ?d = "with_request r d"
  have on: "switched_on ?d" using assms(3) by (simp add: detection_ready_def base_ready_def)
  have out: "GetOutput P r (outputName ?d) = Inl e" using assms(3,5) Inl by (simp add: detection_ready_def)
  have "fetchResults P ?d = (Inl e, with_request r (d\<lparr>resultsFetched := True, results := []\<rparr>))"
    using fetch_results_failing [OF on _ out] assms(6) by simp
  with Inl show ?thesis by auto
next
  case (Inr out)
  let ?d = "with_request r d"
  have on: "switched_on ?d" using assms(3) by (simp add: detection_ready_def base_ready_def)
  have fit: "proposals N * 7 \<le> length (snd out)" "length (snd out) < 2 ^ 31"
    using assms(2) Inr unfolding outputs_fit_def by blast+
  have out: "GetOutput P r (outputName ?d) = Inr (fst out, snd out)"
    using assms(3,5) Inr by (simp add: detection_ready_def)
  have "objectSize ?d = 7" "maxProposalCount ?d = int (proposals N)" "request_obj ?d = Some r"
    using assms(3) by (simp_all add: detection_ready_def)
  then show ?thesis
    using fetch_results_cases [OF on _ out _ _ fit] assms(6) Inr
    by (cases "detections (rounding P) (det_width d) (det_height d) (table (snd out) (proposals N))") auto
qed

lemma detect_persons_ready:
  assumes "engine_laws P S N" and "outputs_fit S N" and "detection_ready S N d" and "mat_ok frame"
  shows "\<exists>d'. detect_persons P frame d = (persons_in P S N frame, d') \<and> detection_ready S N d'"
proof -
  let ?w = "rounding P (of_nat (cols frame))" and ?h = "rounding P (of_nat (rows frame))"
  let ?d0 = "d\<lparr>det_height := ?h, det_width := ?w\<rparr>" and ?d1 = "d\<lparr>det_height := ?h, det_width := ?w, resultsFetched := False, results := []\<rparr>"
  have base: "base_ready S (det_exec N) ?d0" using assms(3) by (simp add: detection_ready_def)
  then have on: "switched_on ?d0" by (simp add: base_ready_def)
  have ready1: "detection_ready S N ?d1" using assms(3) by (simp add: detection_ready_def)
  then have on1: "switched_on ?d1" by (simp add: detection_ready_def base_ready_def)
  have keep: "detection_ready S N (with_request r (?d1\<lparr>resultsFetched := b, results := rs\<rparr>))"
    if "net_of S r = det_exec N" for r b rs
    using ready1 that by (simp add: detection_ready_def base_ready_def)
  have keep0: "detection_ready S N (with_request r ?d0)" if "net_of S r = det_exec N" for r
    using assms(3) that by (simp add: detection_ready_def base_ready_def)
  obtain r where net: "net_of S r = det_exec N" and enq: "case prepared P (shape S (det_exec N)) frame of
       Inl ex \<Rightarrow> base_enqueue P frame ?d0 = (Inl ex, with_request r ?d0)
     | Inr x \<Rightarrow> base_enqueue P frame ?d0 = (Inr (), with_request r ?d0) \<and> input_of S r = x"
    using enqueue_ready [OF assms(1) base assms(4)] engine_lawsD(10) [OF assms(1)] assms(3)
    by (auto simp: detection_ready_def)
  have first: "det_enqueue P frame d = base_enqueue P frame ?d0" by (simp add: det_enqueue_def seq_prog_def)
  show ?thesis
  proof (cases "prepared P (shape S (det_exec N)) frame")
    case (Inl ex)
    with enq keep0 [OF net] show ?thesis
      by (auto simp: detect_persons_def seq_prog_def bind_prog_def first persons_in_def)
  next
    case (Inr x)
    with enq have enq': "base_enqueue P frame ?d0 = (Inr (), with_request r ?d0)" and x: "input_of S r = x" by simp_all
    obtain r1 where 1: "base_submitRequest P (with_request r ?d1) = (Inr (), with_request r1 ?d1)"
        "net_of S r1 = net_of S r" "input_of S r1 = input_of S r"
      using submit_with [OF assms(1) on1] by blast
    then have sub: "det_submitRequest P (with_request r ?d0) = (Inr (), with_request r1 ?d1)"
      by (simp add: det_submitRequest_def seq_prog_def)
    obtain r2 where 2: "base_wait P (with_request r1 ?d1) = (Inr (), with_request r2 ?d1)"
        "net_of S r2 = net_of S r1" "\<forall>n. GetOutput P r2 n = sem S (net_of S r1) (input_of S r1) n"
      using wait_with [OF assms(1) on1] by blast
    have net2: "net_of S r2 = det_exec N" "\<forall>n. GetOutput P r2 n = sem S (det_exec N) x n"
      using 1(2,3) 2(2,3) net x by simp_all
    obtain b rs where fetch: "fetchResults P (with_request r2 ?d1) =
      (case bind_res (sem S (det_exec N) x (det_out N)) (\<lambda>out.
          detections (rounding P) ?w ?h (table (snd out) (proposals N))) of
         Inl e \<Rightarrow> (Inl e, with_request r2 (?d1\<lparr>resultsFetched := b, results := rs\<rparr>))
       | Inr found \<Rightarrow> (Inr (), with_request r2 (?d1\<lparr>resultsFetched := b, results := found\<rparr>)))"
      using fetch_with [OF assms(1,2) ready1 net2] by auto
    have spec: "persons_in P S N frame = bind_res (sem S (det_exec N) x (det_out N)) (\<lambda>out.
          detections (rounding P) ?w ?h (table (snd out) (proposals N)))"
      by (simp add: persons_in_def Inr)
    have "detect_persons P frame d =
      (case persons_in P S N frame of
         Inl e \<Rightarrow> (Inl e, with_request r2 (?d1\<lparr>resultsFetched := b, results := rs\<rparr>))
       | Inr found \<Rightarrow> (Inr found, with_request r2 (?d1\<lparr>resultsFetched := b, results := found\<rparr>)))"
      by (cases "persons_in P S N frame")
         (use fetch in \<open>simp_all add: detect_persons_def seq_prog_def bind_prog_def first enq' sub 2(1) spec ask_def\<close>)
    then show ?thesis using keep [OF net2(1)] by (cases "persons_in P S N frame") auto
  qed
qed

section \<open>A run computes the function, in every state\<close>

lemma json_of_image:
  "constructJsonMessage P [\<lparr>rois = found, imageName = name\<rparr>] =
    (if found = [] then Inr [] else write_json P (Node [] [(name, Node [] (map (\<lambda>r. ([], roi_node r)) found))]))"
  by (simp add: constructJsonMessage_def frame_nodes_def)

lemma run_image_ready:
  assumes "engine_laws P S N" and "outputs_fit S N" and "ready S N pl"
  shows "\<exists>pl'. run_image P input name pl = (image_json P S N input name, pl') \<and> ready S N pl'"
proof (cases "imdecode P (int_of_size (length input)) input")
  case (Inl e)
  with assms(3) show ?thesis by (simp add: run_image_def image_json_def)
next
  case (Inr frame)
  have ok: "mat_ok frame" by (rule engine_lawsD(7) [OF assms(1) Inr])
  obtain d where d: "detect_persons P frame (personDetection pl) = (persons_in P S N frame, d)"
      "detection_ready S N d"
    using detect_persons_ready [OF assms(1,2) _ ok] assms(3) unfolding ready_parts by blast
  show ?thesis
  proof (cases "persons_in P S N frame")
    case (Inl e)
    with d assms(3) Inr show ?thesis
      by (auto simp: run_image_def image_json_def regions_def bind_prog_def on_detection_def on_part_def ready_parts
          lift_res_def)
  next
    case rs: (Inr rs)
    obtain a where a: "fold_prog (analyse_detection P frame) rs [] (personAttribs pl) =
        (map_res (region_of P S N frame) (filter (\<lambda>r. dlabel r = 1) rs), a)" "attribs_ready S N a"
      using analyse_all_ready [OF assms(1) ok, of "personAttribs pl" rs "[]"] assms(3)
      unfolding ready_parts by (auto simp: bind_Inr)
    let ?pl = "pl\<lparr>personDetection := d, personAttribs := a\<rparr>"
    have "run_image P input name pl = (image_json P S N input name, ?pl)"
      by (cases "map_res (region_of P S N frame) (filter (\<lambda>r. dlabel r = 1) rs)")
         (simp_all add: run_image_def image_json_def regions_def bind_prog_def on_detection_def on_attribs_def
           on_part_def lift_res_def Inr d(1) rs a(1) json_of_image)
    moreover have "ready S N ?pl" using d(2) a(2) by (simp add: ready_parts)
    ultimately show ?thesis by blast
  qed
qed

lemma run_ready:
  assumes "engine_laws P S N" and "outputs_fit S N" and "ready S N pl"
  shows "fst (run P input name pl) = caught (image_json P S N input name)" and "ready S N (snd (run P input name pl))"
proof -
  obtain pl' where "run_image P input name pl = (image_json P S N input name, pl')" and "ready S N pl'"
    using run_image_ready [OF assms] by blast
  then show "fst (run P input name pl) = caught (image_json P S N input name)" "ready S N (snd (run P input name pl))"
    by (auto simp: run_def catch_all_def caught_def split: sum.split)
qed

text \<open>
  C5: in every state in which both networks are loaded, whatever was analysed before and however that ended,
  a run returns the same function of the image: the JSON of the regions of the detections labelled 1, in
  the order of the network, the empty string when there is none or anything threw; and it leaves the
  pipeline in such a state.
\<close>
theorem run_refines:
  assumes "engine_laws P S N" and "outputs_fit S N" and "ready S N pl"
  shows "fst (run P input name pl) = caught (image_json P S N input name) \<and> ready S N (snd (run P input name pl))"
  using run_ready [OF assms] by blast

text \<open>The platform above obeys the laws.\<close>

definition demo_semantics :: "f32 list \<Rightarrow> (nat, nat \<times> u8 list) semantics" where
  "demo_semantics fs = \<lparr>
     sem = (\<lambda>e x n. GetOutput (demo_platform fs) (e, x) n),
     shape = (\<lambda>e. (1, 1)),
     net_of = fst,
     input_of = snd\<rparr>"

definition demo_nets :: "nat nets" where
  "demo_nets = \<lparr>det_exec = 1, det_in = ''data'', det_out = ''out'', proposals = 2, attr_exec = 3, attr_in = ''0'', attr_out = ''453'',
     top_out = ''456'', bottom_out = ''459''\<rparr>"

lemma dense_mat_ok:
  "mat_ok \<lparr>rows = h, cols = w, channels = c, mem = replicate (h * (w * c)) v, origin = 0, step0 = w * c, step1 = c\<rparr>"
proof -
  have "y * (w * c) + w * c \<le> h * (w * c)" if "y < h" for y
    using mult_le_mono1 [of "Suc y" h "w * c"] that by simp
  then show ?thesis by (simp add: mat_ok_def)
qed

lemma documented_crop_ok: "documented_crop m r = Inr m' \<Longrightarrow> mat_ok m \<Longrightarrow> mat_ok m'"
proof -
  assume c: "documented_crop m r = Inr m'" and m: "mat_ok m"
  then have r: "0 \<le> rx r" "0 \<le> rw r" "rx r + rw r \<le> int (cols m)" "0 \<le> ry r" "0 \<le> rh r" "ry r + rh r \<le> int (rows m)"
    and m': "m' = m\<lparr>rows := nat (rh r), cols := nat (rw r),
      origin := origin m + nat (ry r) * step0 m + nat (rx r) * step1 m\<rparr>"
    by (auto simp: documented_crop_def split: if_splits)
  have "origin m' + h * step0 m' + cols m' * channels m' \<le> length (mem m')" if "h < rows m'" for h
  proof -
    have "(nat (rx r) + nat (rw r)) * channels m \<le> cols m * channels m" using r by (intro mult_le_mono1) linarith
    moreover have "nat (ry r) + h < rows m" using that r m' by auto
    then have "origin m + (nat (ry r) + h) * step0 m + cols m * channels m \<le> length (mem m)"
      using m by (auto simp: mat_ok_def)
    moreover have "step1 m = channels m" using m by (simp add: mat_ok_def)
    ultimately show ?thesis unfolding m' by (simp add: algebra_simps)
  qed
  then show ?thesis using m by (simp add: mat_ok_def m')
qed

lemma demo_laws: "engine_laws (demo_platform fs) (demo_semantics fs) demo_nets"
  using dense_mat_ok [of 8 8 3 0] dense_mat_ok [of 0 0 1 0]
  by (auto simp: engine_laws_def input_blob_def demo_nets_def demo_platform_def demo_semantics_def dense_mat_ok intro: documented_crop_ok)

lemma demo_ready: "ready (demo_semantics demo_table) demo_nets demo_pipeline"
  by (simp add: ready_def base_ready_def switched_on_def demo_pipeline_def init_eval person_model_def
      attribs_model_def demo_platform_def demo_table_def demo_nets_def)

lemma demo_outputs: "outputs_fit (demo_semantics demo_table) demo_nets"
  by (auto simp: outputs_fit_def demo_semantics_def demo_nets_def demo_platform_def demo_table_def)

theorem run_refines_witness:
  "fst (run (demo_platform demo_table) ''x'' ''a.jpg'' demo_pipeline) =
     caught (image_json (demo_platform demo_table) (demo_semantics demo_table) demo_nets ''x'' ''a.jpg'') \<and>
   ready (demo_semantics demo_table) demo_nets (snd (run (demo_platform demo_table) ''x'' ''a.jpg'' demo_pipeline))"
  by (rule run_refines [OF demo_laws demo_outputs demo_ready])

section \<open>The platform above, evaluated\<close>

abbreviation demo_frame :: mat where
  "demo_frame \<equiv> \<lparr>rows = 8, cols = 8, channels = 3, mem = replicate 192 0, origin = 0, step0 = 24, step1 = 3\<rparr>"

abbreviation demo_attribs :: attributes where
  "demo_attribs \<equiv> \<lparr>attributes_strings = attributeStrings,
      attributes_indicators = [True, True, True, True, True, True, True, True],
      top_color_point = (Fin 0, Fin 0), bottom_color_point = (Fin 0, Fin 0)\<rparr>"

lemma demo_persons:
  "persons_in (demo_platform demo_table) (demo_semantics demo_table) demo_nets demo_frame =
     Inr [\<lparr>dlabel = 1, confidence = Fin (9 / 10), location = \<lparr>rx = 0, ry = 0, rw = 8, rh = 8\<rparr>\<rparr>]"
  by (simp add: persons_in_def prepared_def demo_platform_def demo_semantics_def demo_nets_def demo_found)

lemma upt_8: "[0..<8] = [0, 1, 2, 3, 4, 5, 6, 7::nat]"
  by (simp add: upt_rec)

lemma demo_indicators:
  "read_indicators (replicate 8 (Fin 1)) 8 = Inr [True, True, True, True, True, True, True, True]"
  unfolding read_indicators_def upt_8 by (simp add: float_at_def)

lemma demo_attributes:
  assumes "channels m = 3" and "0 < rows m" and "0 < cols m"
  shows "attributes_in (demo_platform fs) (demo_semantics fs) demo_nets m = Inr demo_attribs"
proof -
  have "length attributeStrings = 8" by (simp add: attributeStrings_def)
  with assms show ?thesis
    by (simp add: attributes_in_def prepared_def demo_platform_def demo_semantics_def demo_nets_def
        attributes_from_def read_attributes_def read_point_def dims_at_def demo_indicators
        float_at_def in_int_def)
qed

lemma demo_crop: "crop (demo_platform fs) = documented_crop" "rect_and (demo_platform fs) = documented_and"
  by (simp_all add: demo_platform_def)

lemma demo_area:
  "color_area (demo_platform fs) demo_frame (0, 0) = \<lparr>rx = 0, ry = 0, rw = 1, rh = 2\<rparr>"
  by (simp add: color_area_def wrap_int_id in_int_def demo_platform_def documented_and_def)

lemma demo_point: "color_point m (Fin 0, Fin 0) = Inr (0, 0)"
  by (simp add: color_point_def in_int_def trunc_rat_def)

lemma demo_average:
  assumes "rows m * cols m = 2"
  shows "GetAvgColor (demo_platform fs) m = Inr (0, 0, 0)"
  using assms
  by (simp add: GetAvgColor_def demo_platform_def count_labels_def max_index_def numeral_2_eq_2)

lemma demo_colors:
  "person_colors (demo_platform fs) demo_frame demo_attribs = Inr ((0, 0, 0), (0, 0, 0))"
  by (simp add: person_colors_def demo_point demo_area area_color_def demo_crop documented_crop_def demo_average)

lemma demo_regions:
  "regions (demo_platform demo_table) (demo_semantics demo_table) demo_nets demo_frame =
     Inr [roi_of \<lparr>rx = 0, ry = 0, rw = 8, rh = 8\<rparr> (attribute_string demo_attribs)]"
  by (simp add: regions_def demo_persons region_of_def demo_crop documented_crop_def documented_and_def demo_attributes demo_colors)

lemma demo_json:
  "image_json (demo_platform demo_table) (demo_semantics demo_table) demo_nets s n =
     (if s \<noteq> [] \<and> hd s = CHR ''x'' then Inr ([CHR ''{'', LF] @ ''...'' @ [CHR ''}'', LF])
      else Inl (Inference_error bad_channels))"
proof (cases "s \<noteq> [] \<and> hd s = CHR ''x''")
  case True
  then have "imdecode (demo_platform demo_table) k s = Inr demo_frame" for k
    by (simp add: demo_platform_def)
  then show ?thesis using True by (simp add: image_json_def demo_regions) (simp add: demo_platform_def)
next
  case False
  then have "imdecode (demo_platform demo_table) k s =
      Inr \<lparr>rows = 0, cols = 0, channels = 1, mem = [], origin = 0, step0 = 0, step1 = 1\<rparr>" for k
    by (auto simp: demo_platform_def)
  then show ?thesis using False by (auto simp add: image_json_def regions_def persons_in_def prepared_def)
qed

end
