(* ===== verification/Interfaces.thy ===== *)
theory Interfaces
  imports Prelude
begin

text \<open>
  The interfaces between components, as locales: a machine that consumes a byte at a time and the
  loops that drive it, and a codec for the payloads of a transfer. Each is interpreted on the model's
  own definitions in the theory of the component that provides it; clients use the facts proved here.
  \<open>feed_chunks\<close> is how the lemmas speak of one call of \<open>parse\<close> for each completed read; the calls themselves
  are those of \<open>Connection.handle_read\<close>.
\<close>

section \<open>Three-valued verdicts\<close>

text \<open>\<open>boost::tribool\<close>.\<close>

datatype tribool = TTrue | TFalse | Indeterminate

section \<open>A machine that consumes bytes\<close>

text \<open>
  The loop of a connection: each chunk that arrives is handed to the machine; a verdict ends the loop
  and what is left of the chunk is dropped.
\<close>

fun feed_chunks ::
  "('s \<Rightarrow> string \<Rightarrow> ('s \<times> tribool \<times> string) result) \<Rightarrow> 's \<Rightarrow> string list \<Rightarrow> ('s \<times> tribool) result"
where
  "feed_chunks run s [] = Inr (s, Indeterminate)"
| "feed_chunks run s (ch # chs) =
     bind_res (run s ch) (\<lambda>(s', t, rest).
       if t = Indeterminate then feed_chunks run s' chs else Inr (s', t))"

locale byte_machine =
  fixes step :: "'s \<Rightarrow> char \<Rightarrow> ('s \<times> tribool) result"
    and run :: "'s \<Rightarrow> string \<Rightarrow> ('s \<times> tribool \<times> string) result"
    and invar :: "'s \<Rightarrow> bool"
  assumes run_Nil: "run s [] = Inr (s, Indeterminate, [])"
    and run_Cons: "run s (c # cs) = bind_res (step s c) (\<lambda>(s', t).
           if t = Indeterminate then run s' cs else Inr (s', t, cs))"
    and step_invar: "invar s \<Longrightarrow> step s c = Inr (s', t) \<Longrightarrow> invar s'"
    and step_defined: "invar s \<Longrightarrow> step s c \<noteq> Inl Undefined_behaviour"
begin

lemma run_append:
  "run s (xs @ ys) = bind_res (run s xs) (\<lambda>(s', t, rest).
     if t = Indeterminate then run s' ys else Inr (s', t, rest @ ys))"
proof (induction xs arbitrary: s)
  case Nil
  then show ?case by (simp add: run_Nil)
next
  case (Cons c xs)
  then show ?case
    by (cases "step s c") (auto simp: run_Cons split: prod.splits)
qed

lemma run_undecided:
  "run s xs = Inr (s', Indeterminate, rest) \<Longrightarrow> run s (xs @ ys) = run s' ys"
  by (simp add: run_append)

lemma run_step_undecided:
  "step s c = Inr (s', Indeterminate) \<Longrightarrow> run s (c # cs) = run s' cs"
  by (simp add: run_Cons)

lemma run_step_decided:
  "step s c = Inr (s', t) \<Longrightarrow> t \<noteq> Indeterminate \<Longrightarrow> run s (c # cs) = Inr (s', t, cs)"
  by (simp add: run_Cons)

text \<open>How the bytes are cut into chunks has no influence on the verdict or the state.\<close>

lemma feed_concat:
  "feed_chunks run s chs = bind_res (run s (concat chs)) (\<lambda>(s', t, rest). Inr (s', t))"
proof (induction chs arbitrary: s)
  case Nil
  then show ?case by (simp add: run_Nil)
next
  case (Cons ch chs)
  then show ?case
    by (cases "run s ch") (auto simp: run_append split: prod.splits)
qed

text \<open>A verdict on a prefix of what is used up to the last byte is the verdict on all of it.\<close>

lemma run_complete_prefix:
  "run s (xs @ ys) = Inr (s', t, []) \<Longrightarrow> run s xs = Inr (s1, t1, rest) \<Longrightarrow> t1 \<noteq> Indeterminate \<Longrightarrow> ys = []"
  by (simp add: run_append)

lemma run_invar: "invar s \<Longrightarrow> run s xs = Inr (s', t, rest) \<Longrightarrow> invar s'"
proof (induction xs arbitrary: s)
  case Nil
  then show ?case by (simp add: run_Nil)
next
  case (Cons c xs)
  then show ?case
    by (cases "step s c") (auto simp: run_Cons split: prod.splits if_splits dest: step_invar)
qed

lemma run_defined: "invar s \<Longrightarrow> run s xs \<noteq> Inl Undefined_behaviour"
proof (induction xs arbitrary: s)
  case Nil
  then show ?case by (simp add: run_Nil)
next
  case (Cons c xs)
  then show ?case
    using step_defined [of s c]
    by (cases "step s c") (auto simp: run_Cons split: prod.splits if_splits dest: step_invar)
qed

text \<open>An exception is that of the step on some byte, before which the machine has not decided.\<close>

lemma run_Inl_iff:
  "run s xs = Inl e \<longleftrightarrow>
     (\<exists>pre c post s'. xs = pre @ c # post \<and> run s pre = Inr (s', Indeterminate, []) \<and> step s' c = Inl e)"
proof
  show "run s xs = Inl e \<Longrightarrow>
    \<exists>pre c post s'. xs = pre @ c # post \<and> run s pre = Inr (s', Indeterminate, []) \<and> step s' c = Inl e"
  proof (induction xs arbitrary: s)
    case (Cons c xs)
    show ?case
    proof (cases "step s c")
      case (Inl f)
      then show ?thesis using Cons.prems by (intro exI [of _ "[]"] exI [of _ c] exI [of _ xs] exI [of _ s]) (simp add: run_Cons run_Nil)
    next
      case (Inr r)
      obtain s' t where r: "step s c = Inr (s', t)" using Inr by (cases r) auto
      with Cons.prems have t: "t = Indeterminate" "run s' xs = Inl e" by (auto simp: run_Cons split: if_splits)
      from Cons.IH [OF t(2)] obtain pre d post s'' where
        "xs = pre @ d # post" "run s' pre = Inr (s'', Indeterminate, [])" "step s'' d = Inl e" by blast
      then show ?thesis using r t(1) by (intro exI [of _ "c # pre"] exI [of _ d] exI [of _ post] exI [of _ s'']) (simp add: run_Cons)
    qed
  qed (simp add: run_Nil)
qed (auto simp: run_append run_Cons)

text \<open>A machine that has not decided has consumed everything.\<close>

lemma run_undecided_rest: "run s xs = Inr (s', Indeterminate, rest) \<Longrightarrow> rest = []"
proof (induction xs arbitrary: s)
  case Nil
  then show ?case by (simp add: run_Nil)
next
  case (Cons c xs)
  then show ?case
    by (cases "step s c") (auto simp: run_Cons split: prod.splits if_splits)
qed

end

section \<open>A codec for payloads\<close>

text \<open>
  The characters an encoded payload may use: none that the request parser or the search for a
  multipart boundary gives a meaning to.
\<close>

definition payload_char :: "char \<Rightarrow> bool" where
  "payload_char c \<longleftrightarrow> 33 \<le> uchar c \<and> uchar c \<le> 126 \<and> c \<noteq> CHR ''-''"

locale transfer_codec =
  fixes encode :: "string \<Rightarrow> string option"
    and decode :: "string \<Rightarrow> string result"
  assumes decode_encode: "encode s = Some e \<Longrightarrow> decode e = Inr s"
    and encode_payload: "encode s = Some e \<Longrightarrow> c \<in> set e \<Longrightarrow> payload_char c"
begin

lemma encode_inject: "encode s = Some e \<Longrightarrow> encode s' = Some e \<Longrightarrow> s = s'"
  using decode_encode [of s e] decode_encode [of s' e] by simp

end

end
