(* ===== verification/Base64.thy ===== *)
theory Base64
  imports Prelude Interfaces
begin

text \<open>
  \<open>source/common/utility/base64.cpp\<close>: the encoder the client calls, the decoder the server calls,
  and the line-breaking variants. The encoder's loop counter is an \<open>unsigned int\<close> compared with a
  \<open>size_t\<close>, so it is kept at 32 bits and its loop is partial: \<open>None\<close> is a loop that never ends.
  The decoder reads the string through \<open>operator[]\<close>, whose out-of-range read is a value of the
  model, and throws a string literal at a character outside the alphabet.
\<close>

section \<open>The alphabet\<close>

definition base64_chars :: "bool \<Rightarrow> string" where
  "base64_chars url =
     ''ABCDEFGHIJKLMNOPQRSTUVWXYZ'' @ ''abcdefghijklmnopqrstuvwxyz'' @ ''0123456789'' @
     (if url then ''-_'' else ''+/'')"

definition trailing_char :: "bool \<Rightarrow> char" where
  "trailing_char url = (if url then CHR ''.'' else CHR ''='')"

definition b64_literal :: string where
  "b64_literal = ''If input is correct, this line should never be reached.''"

definition pos_of_char :: "char \<Rightarrow> u32 result" where
  "pos_of_char chr =
     (let n = uchar chr in
      if uchar CHR ''A'' \<le> n \<and> n \<le> uchar CHR ''Z'' then Inr (of_nat (n - uchar CHR ''A''))
      else if uchar CHR ''a'' \<le> n \<and> n \<le> uchar CHR ''z'' then
        Inr (of_nat (n - uchar CHR ''a'' + (uchar CHR ''Z'' - uchar CHR ''A'') + 1))
      else if uchar CHR ''0'' \<le> n \<and> n \<le> uchar CHR ''9'' then
        Inr (of_nat (n - uchar CHR ''0'' + (uchar CHR ''Z'' - uchar CHR ''A'')
                     + (uchar CHR ''z'' - uchar CHR ''a'') + 2))
      else if chr = CHR ''+'' \<or> chr = CHR ''-'' then Inr 62
      else if chr = CHR ''/'' \<or> chr = CHR ''_'' then Inr 63
      else Inl (Literal_thrown b64_literal))"

section \<open>Encoding\<close>

text \<open>A byte as the \<open>int\<close> it is promoted to, and the table lookup.\<close>

definition byte_at :: "string \<Rightarrow> u32 \<Rightarrow> u32" where
  "byte_at bytes pos = of_nat (uchar (bytes ! unat pos))"

definition code_char :: "bool \<Rightarrow> u32 \<Rightarrow> char" where
  "code_char url i = base64_chars url ! unat i"

text \<open>The characters one iteration appends.\<close>

definition encode_step :: "string \<Rightarrow> bool \<Rightarrow> u32 \<Rightarrow> string" where
  "encode_step bytes url pos =
     (let b0 = byte_at bytes pos; b1 = byte_at bytes (pos + 1); b2 = byte_at bytes (pos + 2) in
      code_char url (drop_bit 2 (b0 AND 0xfc)) #
      (if unat (pos + 1) < length bytes then
         code_char url (push_bit 4 (b0 AND 0x03) + drop_bit 4 (b1 AND 0xf0)) #
         (if unat (pos + 2) < length bytes then
            [code_char url (push_bit 2 (b1 AND 0x0f) + drop_bit 6 (b2 AND 0xc0)),
             code_char url (b2 AND 0x3f)]
          else [code_char url (push_bit 2 (b1 AND 0x0f)), trailing_char url])
       else [code_char url (push_bit 4 (b0 AND 0x03)), trailing_char url, trailing_char url]))"

partial_function (option) encode_loop :: "string \<Rightarrow> bool \<Rightarrow> u32 \<Rightarrow> string \<Rightarrow> string option" where
  "encode_loop bytes url pos ret =
     (if unat pos < length bytes
      then encode_loop bytes url (pos + 3) (ret @ encode_step bytes url pos)
      else Some ret)"

definition base64_encode :: "string \<Rightarrow> bool \<Rightarrow> string option" where
  "base64_encode bytes url = encode_loop bytes url 0 ''''"

section \<open>Line breaks\<close>

partial_function (option) insert_linebreaks_loop :: "string \<Rightarrow> nat \<Rightarrow> nat \<Rightarrow> string option" where
  "insert_linebreaks_loop str distance pos =
     (if pos < length str
      then insert_linebreaks_loop (take pos str @ [LF] @ drop pos str) distance (pos + (distance + 1))
      else Some str)"

definition insert_linebreaks :: "string \<Rightarrow> nat \<Rightarrow> string option" where
  "insert_linebreaks str distance =
     (if length str = 0 then Some '''' else insert_linebreaks_loop str distance distance)"

definition encode_with_line_breaks :: "nat \<Rightarrow> string \<Rightarrow> string option" where
  "encode_with_line_breaks line_length s =
     Option.bind (base64_encode s False) (\<lambda>e. insert_linebreaks e line_length)"

definition base64_encode_pem :: "string \<Rightarrow> string option" where
  "base64_encode_pem s = encode_with_line_breaks 64 s"

definition base64_encode_mime :: "string \<Rightarrow> string option" where
  "base64_encode_mime s = encode_with_line_breaks 76 s"

section \<open>Decoding\<close>

text \<open>The loop that erases the line feeds: find the next one from \<open>pos\<close>, erase it, go on from there.\<close>

function erase_linebreaks :: "string \<Rightarrow> nat \<Rightarrow> string" where
  "erase_linebreaks copy pos =
     (case str_find copy [LF] pos of
        None \<Rightarrow> copy
      | Some p \<Rightarrow> erase_linebreaks (take p copy @ drop (Suc p) copy) p)"
  by pat_completeness auto
termination
  by (relation "measure (\<lambda>(copy, pos). length copy)")
     (use str_find_Some_bound in \<open>fastforce+\<close>)

declare erase_linebreaks.simps [simp del]

definition is_padding :: "char \<Rightarrow> bool" where
  "is_padding c \<longleftrightarrow> c = CHR ''='' \<or> c = CHR ''.''"

text \<open>The characters one iteration of the decoder appends: one, two or three.\<close>

definition decode_step :: "string \<Rightarrow> nat \<Rightarrow> string result" where
  "decode_step s pos =
     bind_res (str_at s (pos + 1)) (\<lambda>c1.
     bind_res (pos_of_char c1) (\<lambda>p1.
     bind_res (str_at s (pos + 0)) (\<lambda>c0.
     bind_res (pos_of_char c0) (\<lambda>p0.
     let o0 = char_of (unat (push_bit 2 p0 + drop_bit 4 (p1 AND 0x30))) in
     bind_res (str_at s (pos + 2)) (\<lambda>c2.
     if \<not> is_padding c2 then
       bind_res (pos_of_char c2) (\<lambda>p2.
       let o1 = char_of (unat (push_bit 4 (p1 AND 0x0f) + drop_bit 2 (p2 AND 0x3c))) in
       bind_res (str_at s (pos + 3)) (\<lambda>c3.
       if \<not> is_padding c3 then
         bind_res (pos_of_char c3) (\<lambda>p3.
         Inr [o0, o1, char_of (unat (push_bit 6 (p2 AND 0x03) + p3))])
       else Inr [o0, o1]))
     else Inr [o0])))))"

function decode_loop :: "string \<Rightarrow> nat \<Rightarrow> string \<Rightarrow> string result" where
  "decode_loop s pos ret =
     (if pos < length s
      then bind_res (decode_step s pos) (\<lambda>out. decode_loop s (pos + 4) (ret @ out))
      else Inr ret)"
  by pat_completeness auto
termination
  by (relation "measure (\<lambda>(s, pos, ret). length s - pos)") auto

declare decode_loop.simps [simp del]

text \<open>The decoder without line-break removal, then the public function.\<close>

definition decode_flat :: "string \<Rightarrow> string result" where
  "decode_flat encoded_string =
     (if length encoded_string = 0 then Inr '''' else decode_loop encoded_string 0 '''')"

definition base64_decode :: "string \<Rightarrow> bool \<Rightarrow> string result" where
  "base64_decode encoded_string remove_linebreaks =
     (if remove_linebreaks then
        (if length encoded_string = 0 then Inr ''''
         else decode_flat (erase_linebreaks encoded_string 0))
      else decode_flat encoded_string)"

section \<open>The reference encoding\<close>

text \<open>
  The encoding by groups of three bytes, on natural numbers: what the table loop is meant to compute.
\<close>

definition sextet :: "bool \<Rightarrow> nat \<Rightarrow> char" where
  "sextet url i = base64_chars url ! i"

fun b64_spec :: "bool \<Rightarrow> string \<Rightarrow> string" where
  "b64_spec url [] = []"
| "b64_spec url [a] =
     [sextet url (uchar a div 4), sextet url (uchar a mod 4 * 16), trailing_char url, trailing_char url]"
| "b64_spec url [a, b] =
     [sextet url (uchar a div 4), sextet url (uchar a mod 4 * 16 + uchar b div 16),
      sextet url (uchar b mod 16 * 4), trailing_char url]"
| "b64_spec url (a # b # c # rest) =
     [sextet url (uchar a div 4), sextet url (uchar a mod 4 * 16 + uchar b div 16),
      sextet url (uchar b mod 16 * 4 + uchar c div 64), sextet url (uchar c mod 64)]
     @ b64_spec url rest"

section \<open>The bit fields and the alphabet\<close>

lemma unat_byte_at [simp]: "unat (byte_at bytes pos) = uchar (bytes ! unat pos)"
  unfolding byte_at_def
  using uchar_less [of "bytes ! unat pos"] by (simp add: unat_of_nat del: uchar_less)

text \<open>The bit fields the encoder cuts out of a byte.\<close>

lemma encode_fields:
  fixes w :: u32
  assumes "unat w < 256"
  shows "unat (drop_bit 2 (w AND 0xfc)) = unat w div 4"
    and "unat (drop_bit 4 (w AND 0xf0)) = unat w div 16"
    and "unat (drop_bit 6 (w AND 0xc0)) = unat w div 64"
    and "unat (w AND 0x3f) = unat w mod 64"
    and "unat (push_bit 4 (w AND 0x03)) = unat w mod 4 * 16"
    and "unat (push_bit 2 (w AND 0x0f)) = unat w mod 16 * 4"
  using assms
  by (simp_all add: unat_drop_and unat_push_and unsigned_and_eq and_low_bits del: drop_bit_and push_bit_and)

lemma decode_fields:
  fixes w :: u32
  assumes "unat w < 64"
  shows "unat (push_bit 2 w) = unat w * 4"
    and "unat (drop_bit 4 (w AND 0x30)) = unat w div 16"
    and "unat (push_bit 4 (w AND 0x0f)) = unat w mod 16 * 16"
    and "unat (drop_bit 2 (w AND 0x3c)) = unat w div 4"
    and "unat (push_bit 6 (w AND 0x03)) = unat w mod 4 * 64"
  using assms
  by (simp_all add: unat_drop_and unat_push_and unat_push_small and_low_bits del: drop_bit_and push_bit_and)

lemma table_bytes: "map uchar (base64_chars url) =
   [65..<91] @ [97..<123] @ [48..<58] @ (if url then [45, 95] else [43, 47])"
  by (simp add: base64_chars_def uchar_def)

lemma sextet_uchar: "i < 64 \<Longrightarrow> uchar (sextet url i) =
   (if i < 26 then 65 + i else if i < 52 then 71 + i else if i < 62 then i - 4
    else if i = 62 then (if url then 45 else 43) else (if url then 95 else 47))"
proof -
  assume i: "i < 64"
  have "length (base64_chars url) = 64" by (simp add: base64_chars_def)
  with i have "uchar (sextet url i) = map uchar (base64_chars url) ! i"
    by (simp add: sextet_def)
  also have "\<dots> = ([65..<91] @ [97..<123] @ [48..<58] @ (if url then [45, 95] else [43, 47])) ! i"
    by (simp only: table_bytes)
  also have "\<dots> = (if i < 26 then 65 + i else if i < 52 then 97 + (i - 26) else if i < 62 then 48 + (i - 52)
      else (if url then [45, 95] else [43, 47]) ! (i - 62))"
    using i by (simp only: nth_append nth_upt length_upt) (auto simp del: upt_rec_numeral)
  finally show ?thesis using i by (auto simp: nth_Cons')
qed

lemma char_numbers:
  "uchar CHR ''A'' = 65" "uchar CHR ''Z'' = 90" "uchar CHR ''a'' = 97" "uchar CHR ''z'' = 122"
  "uchar CHR ''0'' = 48" "uchar CHR ''9'' = 57"
  "chr = CHR ''+'' \<longleftrightarrow> uchar chr = 43" "chr = CHR ''-'' \<longleftrightarrow> uchar chr = 45"
  "chr = CHR ''/'' \<longleftrightarrow> uchar chr = 47" "chr = CHR ''_'' \<longleftrightarrow> uchar chr = 95"
  "chr = CHR ''='' \<longleftrightarrow> uchar chr = 61" "chr = CHR ''.'' \<longleftrightarrow> uchar chr = 46"
  using uchar_eq_iff [of chr "CHR ''+''"] uchar_eq_iff [of chr "CHR ''-''"]
    uchar_eq_iff [of chr "CHR ''/''"] uchar_eq_iff [of chr "CHR ''_''"]
    uchar_eq_iff [of chr "CHR ''=''"] uchar_eq_iff [of chr "CHR ''.''"]
  by (simp_all add: uchar_def)

lemma pos_of_char_uchar: "pos_of_char chr =
   (let n = uchar chr in
    if 65 \<le> n \<and> n \<le> 90 then Inr (of_nat (n - 65))
    else if 97 \<le> n \<and> n \<le> 122 then Inr (of_nat (n - 71))
    else if 48 \<le> n \<and> n \<le> 57 then Inr (of_nat (n + 4))
    else if n = 43 \<or> n = 45 then Inr 62
    else if n = 47 \<or> n = 95 then Inr 63
    else Inl (Literal_thrown b64_literal))"
proof -
  have "97 \<le> n \<Longrightarrow> n - 97 + (90 - 65) + 1 = n - 71"
    and "48 \<le> n \<Longrightarrow> n - 48 + (90 - 65) + (122 - 97) + 2 = n + 4" for n :: nat
    by linarith+
  then show ?thesis unfolding pos_of_char_def char_numbers Let_def
    by (simp only: cong: if_cong conj_cong)
qed

lemma pos_of_char_table:
  assumes "i < 64"
  shows "pos_of_char (sextet url i) = Inr (of_nat i)"
proof -
  consider "i < 26" | "26 \<le> i" "i < 52" | "52 \<le> i" "i < 62" | "i = 62" | "i = 63"
    using assms by linarith
  then show ?thesis
  proof cases
    case 3
    then have "48 \<le> i - 4" "i - 4 \<le> 57" "i - 4 + 4 = i" "\<not> 65 \<le> i - 4" "\<not> 97 \<le> i - 4" by linarith+
    moreover have "uchar (sextet url i) = i - 4" using sextet_uchar [OF assms, of url] 3 by simp
    ultimately show ?thesis by (simp only: pos_of_char_uchar Let_def) simp
  qed (use sextet_uchar [OF assms, of url] in \<open>simp_all add: pos_of_char_uchar Let_def\<close>)
qed

lemma table_not_padding: "i < 64 \<Longrightarrow> \<not> is_padding (sextet url i)"
  using sextet_uchar [of i url]
  by (auto simp: is_padding_def char_numbers split: if_splits)

section \<open>The encoding loop computes the reference encoding\<close>

lemma drop_3_cases:
  assumes "p < length xs"
  obtains (one) a where "drop p xs = [a]" "length xs = p + 1"
  | (two) a b where "drop p xs = [a, b]" "length xs = p + 2"
  | (three) a b c rest where "drop p xs = a # b # c # rest" "length xs = p + 3 + length rest"
proof -
  obtain a r where r: "drop p xs = a # r" using assms by (metis Cons_nth_drop_Suc)
  then have l: "length xs = p + 1 + length r" using assms by (metis add.assoc add.commute length_Cons length_drop less_or_eq_imp_le le_add_diff_inverse plus_1_eq_Suc)
  show thesis
  proof (cases r)
    case Nil
    with r l one show thesis by simp
  next
    case (Cons b r')
    show thesis
    proof (cases r')
      case Nil
      with r l Cons two show thesis by simp
    next
      case (Cons c r'')
      with r l \<open>r = b # r'\<close> three show thesis by simp
    qed
  qed
qed

lemma nth_of_drop: "drop p xs = ys \<Longrightarrow> k < length ys \<Longrightarrow> xs ! (p + k) = ys ! k"
  by auto

lemma code_char_sextet: "code_char url w = sextet url (unat w)"
  by (simp add: code_char_def sextet_def)

lemma unat_pos_plus:
  assumes "3 dvd unat pos" and "unat (pos::u32) < n" and "n < 2 ^ 32"
  shows "unat (pos + 1) = unat pos + 1" and "unat (pos + 2) = unat pos + 2" and "unat (pos + 3) = unat pos + 3"
proof -
  obtain k where "unat pos = 3 * k" using assms(1) by (rule dvdE)
  with assms have "unat pos + 3 < 2 ^ 32" by simp presburger
  then show "unat (pos + 1) = unat pos + 1" "unat (pos + 2) = unat pos + 2" "unat (pos + 3) = unat pos + 3"
    by (simp_all add: unat_word_ariths)
qed

lemma encode_pairs:
  fixes v w :: u32
  assumes "unat v < 256" and "unat w < 256"
  shows "unat (push_bit 4 (v AND 0x03) + drop_bit 4 (w AND 0xf0)) = unat v mod 4 * 16 + unat w div 16"
    and "unat (push_bit 2 (v AND 0x0f) + drop_bit 6 (w AND 0xc0)) = unat v mod 16 * 4 + unat w div 64"
proof -
  have "unat v mod 4 < 4" "unat v mod 16 < 16" "unat w div 16 < 16" "unat w div 64 < 4"
    using assms(2) by auto
  then have "unat v mod 4 * 16 + unat w div 16 < 2 ^ 32" "unat v mod 16 * 4 + unat w div 64 < 2 ^ 32"
    by simp_all
  then show "unat (push_bit 4 (v AND 0x03) + drop_bit 4 (w AND 0xf0)) = unat v mod 4 * 16 + unat w div 16"
    "unat (push_bit 2 (v AND 0x0f) + drop_bit 6 (w AND 0xc0)) = unat v mod 16 * 4 + unat w div 64"
    using encode_fields [OF assms(1)] encode_fields [OF assms(2)]
    by (subst unat_add_small; simp only:)+
qed

lemma encode_step_nat:
  "encode_step bytes url pos =
     (let b0 = uchar (bytes ! unat pos); b1 = uchar (bytes ! unat (pos + 1));
          b2 = uchar (bytes ! unat (pos + 2)) in
      sextet url (b0 div 4) #
      (if unat (pos + 1) < length bytes then
         sextet url (b0 mod 4 * 16 + b1 div 16) #
         (if unat (pos + 2) < length bytes then
            [sextet url (b1 mod 16 * 4 + b2 div 64), sextet url (b2 mod 64)]
          else [sextet url (b1 mod 16 * 4), trailing_char url])
       else [sextet url (b0 mod 4 * 16), trailing_char url, trailing_char url]))"
proof -
  have b: "unat (byte_at bytes p) < 256" for p by simp
  show ?thesis
    unfolding encode_step_def Let_def code_char_sextet
    by (simp only: encode_pairs [OF b b] encode_fields [OF b] unat_byte_at)
qed

lemma encode_step_spec:
  assumes "3 dvd unat pos" and "unat pos < length bytes" and "length bytes < 2 ^ 32"
  shows "encode_step bytes url pos @ b64_spec url (drop (unat pos + 3) bytes)
    = b64_spec url (drop (unat pos) bytes)"
proof -
  note p = unat_pos_plus [OF assms]
  have n: "drop (unat pos) bytes = ys \<Longrightarrow> k < length ys \<Longrightarrow> bytes ! (unat pos + k) = ys ! k" for ys k
    by auto
  from assms(2) show ?thesis
  proof (cases rule: drop_3_cases)
    case (one a)
    then show ?thesis using n [OF one(1), of 0]
      by (simp add: encode_step_nat Let_def p)
  next
    case (two a b)
    then show ?thesis using n [OF two(1), of 0] n [OF two(1), of 1]
      by (simp add: encode_step_nat Let_def p)
  next
    case (three a b c rest)
    have "drop (unat pos + 3) bytes = drop 3 (drop (unat pos) bytes)" by (simp add: add.commute)
    also have "\<dots> = rest" by (simp add: three(1))
    finally have "drop (unat pos + 3) bytes = rest" .
    with three show ?thesis
      using n [OF three(1), of 0] n [OF three(1), of 1] n [OF three(1), of 2]
      by (simp add: encode_step_nat Let_def p)
  qed
qed

lemma encode_loop_spec:
  assumes "3 dvd unat pos" and "length bytes < 2 ^ 32"
  shows "encode_loop bytes url pos ret = Some (ret @ b64_spec url (drop (unat pos) bytes))"
  using assms(1)
proof (induction "length bytes - unat pos" arbitrary: pos ret rule: less_induct)
  case less
  show ?case
  proof (cases "unat pos < length bytes")
    case True
    note p3 = unat_pos_plus(3) [OF less.prems True assms(2)]
    have "encode_loop bytes url (pos + 3) (ret @ encode_step bytes url pos) =
      Some ((ret @ encode_step bytes url pos) @ b64_spec url (drop (unat (pos + 3)) bytes))"
      using True less.prems by (intro less.hyps) (simp_all add: p3)
    also have "\<dots> = Some (ret @ b64_spec url (drop (unat pos) bytes))"
      using encode_step_spec [OF less.prems True assms(2), of url] by (simp add: p3)
    finally show ?thesis using True by (subst encode_loop.simps) simp
  next
    case False
    then show ?thesis by (subst encode_loop.simps) simp
  qed
qed

lemma encode_loop_returns_bound:
  assumes "encode_loop bytes url pos ret = Some r"
  shows "length bytes < 2 ^ 32"
proof (rule encode_loop.raw_induct [where P = "\<lambda>bytes url pos ret r. length bytes < 2 ^ 32", OF _ assms])
  fix f bytes url pos ret r
  assume IH: "\<And>bytes url pos ret r. f bytes url pos ret = Some r \<Longrightarrow> length bytes < 2 ^ 32"
    and eq: "(if unat (pos :: u32) < length bytes then f bytes url (pos + 3) (ret @ encode_step bytes url pos)
              else Some ret) = Some r"
  show "length bytes < 2 ^ 32"
  proof (cases "unat pos < length bytes")
    case True
    with eq IH show ?thesis by simp
  next
    case False
    moreover have "unat pos < 2 ^ 32" using unsigned_less [of pos] by simp
    ultimately show ?thesis by simp
  qed
qed

section \<open>Decoding, group by group\<close>

definition sextet_of :: "char \<Rightarrow> nat option" where
  "sextet_of c = (case pos_of_char c of Inl _ \<Rightarrow> None | Inr w \<Rightarrow> Some (unat w))"

text \<open>
  The bytes of one group of four characters, on natural numbers; a group the string ends in may be
  short, and then only a padding character in its third place keeps the decoder from throwing.
\<close>

fun decode_group :: "string \<Rightarrow> string option" where
  "decode_group (c0 # c1 # c2 # cs) =
     (case (sextet_of c0, sextet_of c1) of
        (Some v0, Some v1) \<Rightarrow>
          (if is_padding c2 then Some [char_of (v0 * 4 + v1 div 16)]
           else (case (sextet_of c2, cs) of
                   (Some v2, c3 # _) \<Rightarrow>
                     (if is_padding c3
                      then Some [char_of (v0 * 4 + v1 div 16), char_of (v1 mod 16 * 16 + v2 div 4)]
                      else (case sextet_of c3 of
                              Some v3 \<Rightarrow> Some [char_of (v0 * 4 + v1 div 16),
                                char_of (v1 mod 16 * 16 + v2 div 4), char_of (v2 mod 4 * 64 + v3)]
                            | None \<Rightarrow> None))
                 | _ \<Rightarrow> None))
      | _ \<Rightarrow> None)"
| "decode_group _ = None"

function b64_decode_spec :: "string \<Rightarrow> string option" where
  "b64_decode_spec s =
     (if s = [] then Some []
      else (case decode_group s of
              None \<Rightarrow> None
            | Some out \<Rightarrow> map_option ((@) out) (b64_decode_spec (drop 4 s))))"
  by pat_completeness auto
termination
  by (relation "measure length") auto

declare b64_decode_spec.simps [simp del]

fun thrown :: "'a option \<Rightarrow> 'a result" where
  "thrown None = Inl (Literal_thrown b64_literal)"
| "thrown (Some a) = Inr a"

lemma pos_of_char_Inr_bound: "pos_of_char c = Inr w \<Longrightarrow> unat w < 64"
  by (auto simp: pos_of_char_uchar Let_def unat_of_nat simp del: of_nat_diff of_nat_add split: if_splits)

lemma pos_of_char_Inl: "pos_of_char c = Inl e \<Longrightarrow> e = Literal_thrown b64_literal"
  by (auto simp: pos_of_char_uchar Let_def split: if_splits)

lemma pos_of_char_NUL: "pos_of_char NUL = Inl (Literal_thrown b64_literal)"
  by (simp add: pos_of_char_uchar uchar_def)

lemma pos_of_char_cases:
  obtains (bad) "pos_of_char c = Inl (Literal_thrown b64_literal)" "sextet_of c = None"
  | (good) w where "pos_of_char c = Inr w" "sextet_of c = Some (unat w)" "unat w < 64"
  by (cases "pos_of_char c") (auto simp: sextet_of_def pos_of_char_Inl dest: pos_of_char_Inr_bound)

lemma str_at_drop: "pos \<le> length s \<Longrightarrow> str_at s (pos + k) = str_at (drop pos s) k"
  by (auto simp: str_at_def)

lemma decode_pairs:
  fixes v w :: u32
  assumes "unat v < 64" and "unat w < 64"
  shows "unat (push_bit 2 v + drop_bit 4 (w AND 0x30)) = unat v * 4 + unat w div 16"
    and "unat (push_bit 4 (v AND 0x0f) + drop_bit 2 (w AND 0x3c)) = unat v mod 16 * 16 + unat w div 4"
    and "unat (push_bit 6 (v AND 0x03) + w) = unat v mod 4 * 64 + unat w"
proof -
  have "unat v mod 4 < 4" "unat v mod 16 < 16" "unat w div 16 < 4" "unat w div 4 < 16"
    using assms(2) by auto
  then have "unat v * 4 + unat w div 16 < 2 ^ 32" "unat v mod 16 * 16 + unat w div 4 < 2 ^ 32"
    "unat v mod 4 * 64 + unat w < 2 ^ 32"
    using assms by simp_all
  then show "unat (push_bit 2 v + drop_bit 4 (w AND 0x30)) = unat v * 4 + unat w div 16"
    "unat (push_bit 4 (v AND 0x0f) + drop_bit 2 (w AND 0x3c)) = unat v mod 16 * 16 + unat w div 4"
    "unat (push_bit 6 (v AND 0x03) + w) = unat v mod 4 * 64 + unat w"
    using decode_fields [OF assms(1)] decode_fields [OF assms(2)]
    by (subst unat_add_small; simp only:)+
qed

lemma decode_step_drop: "pos \<le> length s \<Longrightarrow> decode_step s pos = decode_step (drop pos s) 0"
  unfolding decode_step_def by (simp only: str_at_drop add_0)

lemma decode_step_start: "decode_step (c0 # ys) 0 = thrown (decode_group (c0 # ys))"
proof -
  note step = decode_step_def str_at_def Let_def
  show ?thesis
  proof (cases ys)
    case Nil
    then show ?thesis by (simp add: step pos_of_char_NUL)
  next
    case c1: (Cons c1 zs)
    show ?thesis
    proof (cases zs)
      case Nil
      with c1 show ?thesis
        by (cases c0 rule: pos_of_char_cases; cases c1 rule: pos_of_char_cases)
           (simp_all add: step pos_of_char_NUL is_padding_def)
    next
      case c2: (Cons c2 us)
      show ?thesis
      proof (cases us)
        case Nil
        with c1 c2 show ?thesis
          by (cases c0 rule: pos_of_char_cases; cases c1 rule: pos_of_char_cases;
              cases c2 rule: pos_of_char_cases)
             (simp_all add: step pos_of_char_NUL decode_pairs is_padding_def
                del: drop_bit_and push_bit_and)
      next
        case (Cons c3 rest)
        with c1 c2 show ?thesis
          by (cases c0 rule: pos_of_char_cases; cases c1 rule: pos_of_char_cases;
              cases c2 rule: pos_of_char_cases; cases c3 rule: pos_of_char_cases)
             (simp_all add: step decode_pairs del: drop_bit_and push_bit_and)
      qed
    qed
  qed
qed

lemma decode_step_group:
  assumes "pos < length s"
  shows "decode_step s pos = thrown (decode_group (drop pos s))"
proof -
  obtain c0 ys where "drop pos s = c0 # ys" using assms by (metis Cons_nth_drop_Suc)
  with assms show ?thesis using decode_step_drop [of pos s] decode_step_start by simp
qed

lemma decode_loop_spec:
  "decode_loop s pos ret = thrown (map_option ((@) ret) (b64_decode_spec (drop pos s)))"
proof (induction s pos ret rule: decode_loop.induct)
  case (1 s pos ret)
  show ?case
  proof (cases "pos < length s")
    case True
    then have "drop pos s \<noteq> []" by simp
    then show ?thesis using True 1
      by (subst decode_loop.simps, subst b64_decode_spec.simps)
         (cases "decode_group (drop pos s)"; cases "b64_decode_spec (drop (pos + 4) s)";
          simp add: decode_step_group add.commute)
  next
    case False
    then show ?thesis
      by (subst decode_loop.simps, subst b64_decode_spec.simps) simp
  qed
qed

lemma decode_flat_spec: "decode_flat s = thrown (b64_decode_spec s)"
  by (cases "b64_decode_spec s")
     (auto simp: decode_flat_def decode_loop_spec b64_decode_spec.simps [of "[]"])

section \<open>Line breaks: inserting and erasing\<close>

function break_lines :: "nat \<Rightarrow> string \<Rightarrow> string" where
  "break_lines d s = (if d = 0 \<or> length s \<le> d then s else take d s @ LF # break_lines d (drop d s))"
  by pat_completeness auto
termination
  by (relation "measure (\<lambda>(d, s). length s)") auto

declare break_lines.simps [simp del]

lemma insert_linebreaks_loop_spec:
  assumes "0 < d"
  shows "insert_linebreaks_loop (pre @ rest) d (length pre + d) = Some (pre @ break_lines d rest)"
  using assms
proof (induction d rest arbitrary: pre rule: break_lines.induct)
  case (1 d rest)
  show ?case
  proof (cases "d < length rest")
    case True
    let ?pre = "pre @ take d rest @ [LF]"
    have "insert_linebreaks_loop (?pre @ drop d rest) d (length ?pre + d)
        = Some (?pre @ break_lines d (drop d rest))"
      using True "1.prems" by (intro "1.IH") simp_all
    moreover have "insert_linebreaks_loop (pre @ rest) d (length pre + d)
        = insert_linebreaks_loop (?pre @ drop d rest) d (length ?pre + d)"
      using True by (subst insert_linebreaks_loop.simps) (simp add: add.commute add.left_commute)
    ultimately show ?thesis using True "1.prems" by (subst break_lines.simps) simp
  next
    case False
    then show ?thesis
      by (subst insert_linebreaks_loop.simps, subst break_lines.simps) simp
  qed
qed

lemma insert_linebreaks_spec: "0 < d \<Longrightarrow> insert_linebreaks s d = Some (break_lines d s)"
  using insert_linebreaks_loop_spec [of d "[]" s]
  by (simp add: insert_linebreaks_def break_lines.simps [of d "[]"])

lemma filter_break_lines: "filter (\<lambda>c. c \<noteq> LF) (break_lines d s) = filter (\<lambda>c. c \<noteq> LF) s"
proof (induction d s rule: break_lines.induct)
  case (1 d s)
  have "filter (\<lambda>c. c \<noteq> LF) (take d s) @ filter (\<lambda>c. c \<noteq> LF) (drop d s) = filter (\<lambda>c. c \<noteq> LF) s"
    by (simp flip: filter_append)
  with 1 show ?case by (subst break_lines.simps) auto
qed

lemma break_lines_window:
  "0 < d \<Longrightarrow> sublist w (break_lines d s) \<Longrightarrow> length w = Suc d \<Longrightarrow> LF \<in> set w"
proof (induction d s rule: break_lines.induct)
  case (1 d s)
  show ?case
  proof (cases "length s \<le> d")
    case True
    with "1.prems" sublist_length_le [of w s] show ?thesis
      by (simp add: break_lines.simps [of d s])
  next
    case False
    let ?r = "break_lines d (drop d s)"
    from False "1.prems" have "sublist w (take d s @ LF # ?r)"
      by (simp add: break_lines.simps [of d s])
    then consider "sublist w (take d s)" | "sublist w (LF # ?r)"
      | w1 w2 where "w = w1 @ w2" "suffix w1 (take d s)" "prefix w2 (LF # ?r)"
      by (auto simp: sublist_append)
    then show ?thesis
    proof cases
      case 1
      with "1.prems" sublist_length_le [of w "take d s"] show ?thesis by simp
    next
      case 2
      with "1.prems" False "1.IH" show ?thesis
        by (auto simp: sublist_Cons_right prefix_Cons)
    next
      case 3
      with "1.prems" suffix_length_le [of w1 "take d s"] have "w2 \<noteq> []" by auto
      with 3 show ?thesis by (auto simp: prefix_Cons)
    qed
  qed
qed

lemma find_sub_LF: "find_sub [LF] s =
   (if LF \<in> set s then Some (length (takeWhile (\<lambda>c. c \<noteq> LF) s)) else None)"
  by (induction s) auto

lemma erase_linebreaks_spec:
  "pos \<le> length s \<Longrightarrow> erase_linebreaks s pos = take pos s @ filter (\<lambda>c. c \<noteq> LF) (drop pos s)"
proof (induction s pos rule: erase_linebreaks.induct)
  case (1 s pos)
  let ?r = "drop pos s" and ?k = "length (takeWhile (\<lambda>c. c \<noteq> LF) (drop pos s))"
  show ?case
  proof (cases "LF \<in> set ?r")
    case True
    obtain xs ys where r: "?r = xs @ LF # ys" "LF \<notin> set xs"
      using split_list_first [OF True] by blast
    have k: "?k = length xs" using r by (auto simp: takeWhile_append)
    have find: "str_find s [LF] pos = Some (pos + length xs)"
      using "1.prems" True by (simp add: str_find_def find_sub_LF k)
    have s: "s = take pos s @ xs @ LF # ys" by (metis append_take_drop_id r(1))
    have tk: "take (pos + length xs) s = take pos s @ xs"
      using "1.prems" by (subst s) simp
    have dr: "drop (Suc (pos + length xs)) s = ys"
      using "1.prems" by (subst s) simp
    have "erase_linebreaks s pos = erase_linebreaks (take pos s @ xs @ ys) (pos + length xs)"
      by (subst erase_linebreaks.simps) (simp add: find tk dr)
    also have "\<dots> = take pos s @ xs @ filter (\<lambda>c. c \<noteq> LF) ys"
      using "1.IH" [OF find] "1.prems" by (simp add: tk dr)
    also have "xs = filter (\<lambda>c. c \<noteq> LF) xs" using r(2) by (induction xs) auto
    finally show ?thesis using r(1) by simp
  next
    case False
    then have "filter (\<lambda>c. c \<noteq> LF) ?r = ?r" by (intro filter_True) auto
    moreover have "str_find s [LF] pos = None" using False by (simp add: str_find_def find_sub_LF)
    ultimately show ?thesis by (subst erase_linebreaks.simps) simp
  qed
qed

section \<open>The round trip\<close>

lemma sextet_of_table: "i < 64 \<Longrightarrow> sextet_of (sextet url i) = Some i"
  by (simp add: sextet_of_def pos_of_char_table unat_of_nat)

lemma sextet_not_LF: "i < 64 \<Longrightarrow> sextet url i \<noteq> LF"
  using pos_of_char_table [of i url] by (auto simp: pos_of_char_uchar uchar_def)

lemma trailing_is_padding [simp]: "is_padding (trailing_char url)"
  by (simp add: is_padding_def trailing_char_def)

lemma byte_sextets:
  assumes "a < 256" "b < 256" "c < 256"
  shows "a div 4 < 64" "a mod 4 * 16 < 64" "a mod 4 * 16 + b div 16 < 64" "b mod 16 * 4 < 64"
    and "b mod 16 * 4 + c div 64 < 64" "c mod 64 < (64::nat)"
proof -
  have "a mod 4 < 4" "b mod 16 < 16" "b div 16 < 16" "c div 64 < 4" using assms by auto
  then show "a mod 4 * 16 < 64" "a mod 4 * 16 + b div 16 < 64" "b mod 16 * 4 < 64"
    "b mod 16 * 4 + c div 64 < 64" by linarith+
qed (use assms in auto)

lemma byte_reassemble:
  fixes a b c :: nat
  assumes "b < 256" "c < 256"
  shows "a div 4 * 4 + (a mod 4 * 16 + b div 16) div 16 = a"
    and "(a mod 4 * 16 + b div 16) mod 16 * 16 + (b mod 16 * 4 + c div 64) div 4 = b"
    and "(b mod 16 * 4 + c div 64) mod 4 * 64 + c mod 64 = c"
proof -
  have "b div 16 < 16" "c div 64 < 4" using assms by auto
  then have "(a mod 4 * 16 + b div 16) div 16 = a mod 4" "(a mod 4 * 16 + b div 16) mod 16 = b div 16"
    "(b mod 16 * 4 + c div 64) div 4 = b mod 16" "(b mod 16 * 4 + c div 64) mod 4 = c div 64"
    by auto
  then show "a div 4 * 4 + (a mod 4 * 16 + b div 16) div 16 = a"
    "(a mod 4 * 16 + b div 16) mod 16 * 16 + (b mod 16 * 4 + c div 64) div 4 = b"
    "(b mod 16 * 4 + c div 64) mod 4 * 64 + c mod 64 = c" by auto
qed

lemma decode_spec_encode: "b64_decode_spec (b64_spec url bytes) = Some bytes"
proof (induction url bytes rule: b64_spec.induct)
  case (1 url)
  then show ?case by (simp add: b64_decode_spec.simps)
next
  case (2 url a)
  note s = byte_sextets [OF uchar_less [of a] uchar_less uchar_less]
  from byte_reassemble(1) [where a = "uchar a" and b = 0 and c = 0] s show ?case
    by (subst b64_decode_spec.simps)
       (simp add: sextet_of_table b64_decode_spec.simps [of "[]"])
next
  case (3 url a b)
  note s = byte_sextets [OF uchar_less [of a] uchar_less [of b] uchar_less]
  from byte_reassemble(1,2) [where a = "uchar a" and b = "uchar b" and c = 0] s
  show ?case
    by (subst b64_decode_spec.simps)
       (simp add: sextet_of_table table_not_padding b64_decode_spec.simps [of "[]"])
next
  case (4 url a b c rest)
  note s = byte_sextets [OF uchar_less [of a] uchar_less [of b] uchar_less [of c]]
  from byte_reassemble(1,2) [where a = "uchar a" and b = "uchar b" and c = "uchar c"]
    byte_reassemble(3) [where b = "uchar b" and c = "uchar c"] s 4 show ?case
    by (subst b64_decode_spec.simps) (simp add: sextet_of_table table_not_padding)
qed

lemma b64_spec_no_LF: "c \<in> set (b64_spec url bytes) \<Longrightarrow> c \<noteq> LF"
proof (induction url bytes rule: b64_spec.induct)
  case (2 url a)
  note s = byte_sextets [OF uchar_less [of a] uchar_less uchar_less]
  with 2 show ?case by (auto simp: sextet_not_LF sextet_not_LF [symmetric] trailing_char_def split: if_splits)
next
  case (3 url a b)
  note s = byte_sextets [OF uchar_less [of a] uchar_less [of b] uchar_less]
  with 3 show ?case by (auto simp: sextet_not_LF sextet_not_LF [symmetric] trailing_char_def split: if_splits)
next
  case (4 url a b c rest)
  note s = byte_sextets [OF uchar_less [of a] uchar_less [of b] uchar_less [of c]]
  with 4 show ?case by (auto simp: sextet_not_LF sextet_not_LF [symmetric])
qed auto

section \<open>What the component promises\<close>

lemma base64_encode_Some:
  "length bytes < 2 ^ 32 \<Longrightarrow> base64_encode bytes url = Some (b64_spec url bytes)"
  using encode_loop_spec [of 0 bytes url "[]"] by (simp add: base64_encode_def)

lemma base64_encode_SomeD:
  "base64_encode bytes url = Some e \<Longrightarrow> length bytes < 2 ^ 32 \<and> e = b64_spec url bytes"
  using encode_loop_returns_bound [of bytes url 0 "[]"] base64_encode_Some [of bytes url]
  by (auto simp: base64_encode_def)

text \<open>
  C28: the encoder returns exactly on inputs shorter than \<open>2 ^ 32\<close> bytes, and then the reference
  encoding; on a longer input its 32-bit counter wraps below the length and the loop never ends.
\<close>
theorem base64_encode_result:
  "base64_encode bytes url =
     (if length bytes < 2 ^ 32 then Some (b64_spec url bytes) else None)"
proof (cases "length bytes < 2 ^ 32")
  case False
  then have "base64_encode bytes url = None"
    using base64_encode_SomeD [of bytes url] by (cases "base64_encode bytes url") auto
  with False show ?thesis by (simp only: if_False)
qed (simp add: base64_encode_Some)

lemma base64_decode_thrown:
  "base64_decode s rm =
     thrown (b64_decode_spec (if rm then filter (\<lambda>c. c \<noteq> LF) s else s))"
  using erase_linebreaks_spec [of 0 s]
  by (auto simp: base64_decode_def decode_flat_spec b64_decode_spec.simps [of "[]"])

text \<open>
  C27: decoding never reads past the terminating NUL of its input, whatever the input is: it either
  returns the bytes of the groups of four characters or throws the string literal.
\<close>
theorem base64_decode_result:
  "base64_decode s rm =
     (case b64_decode_spec (if rm then filter (\<lambda>c. c \<noteq> LF) s else s) of
        Some out \<Rightarrow> Inr out
      | None \<Rightarrow> Inl (Literal_thrown b64_literal))"
  unfolding base64_decode_thrown by (simp split: option.split)

lemma encode_filter_LF: "filter (\<lambda>c. c \<noteq> LF) (b64_spec url bytes) = b64_spec url bytes"
  using b64_spec_no_LF by (auto intro: filter_True)

text \<open>
  C26: what was encoded decodes to itself, in both alphabets and with or without removal of line
  breaks.
\<close>
theorem base64_roundtrip:
  assumes "base64_encode bytes url = Some e"
  shows "base64_decode e rm = Inr bytes"
  using base64_encode_SomeD [OF assms]
  by (simp add: base64_decode_thrown encode_filter_LF decode_spec_encode)

lemma encode_Man: "base64_encode ''Man'' False = Some ''TWFu''"
  by (subst base64_encode_Some)
     (simp_all add: sextet_def base64_chars_def uchar_def)

theorem base64_roundtrip_witness:
  "base64_encode ''Man'' False = Some ''TWFu'' \<and> base64_decode ''TWFu'' True = Inr ''Man''"
  using encode_Man base64_roundtrip [OF encode_Man, of True] by simp

text \<open>
  The PEM and MIME variants (64 and 76 characters per line) return on the same inputs as the
  encoder, decode back with line-break removal, and no line is longer than the limit.
\<close>
theorem line_breaks_roundtrip:
  assumes "length bytes < 2 ^ 32"
    and "(n, enc) = (64, base64_encode_pem) \<or> (n, enc) = (76, base64_encode_mime)"
  shows "\<exists>e. enc bytes = Some e \<and> base64_decode e True = Inr bytes \<and>
    (\<forall>w. sublist w e \<and> length w = Suc n \<longrightarrow> LF \<in> set w)"
proof -
  have n: "0 < n" and enc: "enc bytes = Some (break_lines n (b64_spec False bytes))"
    using assms(2) base64_encode_Some [OF assms(1), of False]
    by (auto simp: base64_encode_pem_def base64_encode_mime_def encode_with_line_breaks_def
      insert_linebreaks_spec)
  then show ?thesis using break_lines_window [OF n]
    by (auto simp: base64_decode_thrown filter_break_lines encode_filter_LF decode_spec_encode)
qed

theorem line_breaks_roundtrip_witness:
  "\<exists>e. base64_encode_pem ''Man'' = Some e \<and> base64_decode e True = Inr ''Man''"
  using line_breaks_roundtrip [of "''Man''" 64 base64_encode_pem] by auto

section \<open>The codec of a transfer\<close>

lemma sextet_payload: "i < 64 \<Longrightarrow> payload_char (sextet False i)"
proof -
  assume i: "i < 64"
  have "\<forall>c\<in>set (base64_chars False). payload_char c" by code_simp
  moreover have "length (base64_chars False) = 64" by code_simp
  ultimately show ?thesis using i by (simp add: sextet_def)
qed

lemma trailing_payload: "payload_char (trailing_char False)"
  by code_simp

lemma b64_spec_payload: "c \<in> set (b64_spec False bytes) \<Longrightarrow> payload_char c"
proof (induction False bytes rule: b64_spec.induct)
  case (2 a)
  note s = byte_sextets [OF uchar_less [of a] uchar_less uchar_less]
  with 2 show ?case by (auto simp: sextet_payload trailing_payload)
next
  case (3 a b)
  note s = byte_sextets [OF uchar_less [of a] uchar_less [of b] uchar_less]
  with 3 show ?case by (auto simp: sextet_payload trailing_payload)
next
  case (4 a b c rest)
  note s = byte_sextets [OF uchar_less [of a] uchar_less [of b] uchar_less [of c]]
  with 4 show ?case by (auto simp: sextet_payload)
qed auto

interpretation b64: transfer_codec "\<lambda>s. base64_encode s False" "\<lambda>e. base64_decode e True"
proof
  fix s e
  assume e: "base64_encode s False = Some e"
  show "base64_decode e True = Inr s"
    using base64_encode_SomeD [OF e] by (simp add: base64_decode_thrown encode_filter_LF decode_spec_encode)
  show "payload_char c" if "c \<in> set e" for c
    using base64_encode_SomeD [OF e] that b64_spec_payload by simp
qed

end
