(* ===== verification/Client.thy ===== *)
theory Client
  imports Base64
begin

text \<open>
  \<open>client.hpp\<close>/\<open>client.cpp\<close> and \<open>source/client/main.cpp\<close>: the requests a client forms, the message it
  sends for them, and its command line. The file system, what the option parser returns or throws, and the
  connection to the server are arguments.
\<close>

section \<open>Requests\<close>

datatype RequestType = Person | Vehicle | Both | History | Invalid

record request_impl =
  m_valid :: bool
  m_filenames :: "string list"
  m_type :: RequestType

text \<open>
  A \<open>Request\<close> is its \<open>unique_ptr<Impl> m_impl\<close>: \<open>None\<close> is the null pointer that the default
  constructor leaves.
\<close>

type_synonym client_request = "request_impl option"

definition Request_default :: client_request where
  "Request_default = None"

definition Request_of :: "string list \<Rightarrow> RequestType \<Rightarrow> client_request" where
  "Request_of filePath type = Some \<lparr>m_valid = True, m_filenames = filePath, m_type = type\<rparr>"

text \<open>\<open>operator bool\<close>, \<open>filePath()\<close> and \<open>type()\<close> dereference \<open>m_impl\<close>.\<close>

definition request_bool :: "client_request \<Rightarrow> bool result" where
  "request_bool r = (case r of None \<Rightarrow> Inl Undefined_behaviour | Some i \<Rightarrow> Inr (m_valid i))"

definition request_filePath :: "client_request \<Rightarrow> string list result" where
  "request_filePath r = (case r of None \<Rightarrow> Inl Undefined_behaviour | Some i \<Rightarrow> Inr (m_filenames i))"

definition request_type :: "client_request \<Rightarrow> RequestType result" where
  "request_type r = (case r of None \<Rightarrow> Inl Undefined_behaviour | Some i \<Rightarrow> Inr (m_type i))"

section \<open>The file system\<close>

text \<open>
  What the client asks of Boost.Filesystem and of \<open>ifstream\<close>: \<open>exists\<close> and \<open>is_regular_file\<close>, where
  \<open>None\<close> is a \<open>filesystem_error\<close>; the last component of a path; and what comes of opening a file, asking for
  its size with \<open>tellg\<close>, allocating a buffer of that size (\<open>new char[-1]\<close> when \<open>tellg\<close> failed) and reading it.
\<close>

datatype file_read = Cannot_open | No_buffer | Cannot_read | Contents string

record filesystem =
  fs_exists :: "string \<Rightarrow> bool option"
  fs_regular :: "string \<Rightarrow> bool option"
  fs_filename :: "string \<Rightarrow> string"
  fs_read :: "string \<Rightarrow> file_read"

section \<open>Forming a request\<close>

definition valid_file :: "filesystem \<Rightarrow> string \<Rightarrow> bool" where
  "valid_file fs f =
     (case fs_exists fs f of
        None \<Rightarrow> False
      | Some False \<Rightarrow> False
      | Some True \<Rightarrow> (case fs_regular fs f of None \<Rightarrow> False | Some b \<Rightarrow> b))"

text \<open>The loop over the paths; it breaks at the first one that is not valid.\<close>

primrec valid_files :: "filesystem \<Rightarrow> string list \<Rightarrow> bool" where
  "valid_files fs [] = True"
| "valid_files fs (f # fs') = (if valid_file fs f then valid_files fs fs' else False)"

definition formRequest :: "filesystem \<Rightarrow> string list \<Rightarrow> RequestType \<Rightarrow> client_request" where
  "formRequest fs filePath type =
     (if type = Person then
        (if filePath = [] then Request_default
         else if valid_files fs filePath then Request_of filePath type
         else Request_default)
      else if type = History then Request_of filePath type
      else Request_default)"

section \<open>Sending it\<close>

text \<open>
  How a call can end: with a value, with \<open>exit(0)\<close>, not at all (the encoder on a file of \<open>2 ^ 32\<close>
  bytes or more), with a \<open>std::exception\<close> that \<open>sendRequest\<close> catches, or with an exception that nobody
  catches or undefined behaviour.
\<close>

datatype std_exception = From_connect | From_buffer | From_transfer

datatype 'a outcome = Returned 'a | Exited | Diverges | Throws std_exception | Crashed

fun bind_outcome :: "'a outcome \<Rightarrow> ('a \<Rightarrow> 'b outcome) \<Rightarrow> 'b outcome" where
  "bind_outcome (Returned a) f = f a"
| "bind_outcome Exited f = Exited"
| "bind_outcome Diverges f = Diverges"
| "bind_outcome (Throws k) f = Throws k"
| "bind_outcome Crashed f = Crashed"

definition client_boundary :: string where
  "client_boundary = ''77580b83-390b-4c34-8393-4eac360c7b42''"

definition file_part :: "string \<Rightarrow> string \<Rightarrow> string" where
  "file_part shortFilename base64 =
     ''--77580b83-390b-4c34-8393-4eac360c7b42'' @ CRLF @
     ''Content-Disposition: form-data; name='' @ [DQ] @ ''datafile'' @ [DQ] @ ''; filename='' @ [DQ] @
       shortFilename @ [DQ] @ CRLF @
     ''Content-Type: image/jpeg'' @ CRLF @ CRLF @
     base64 @ CRLF"

primrec file_parts :: "filesystem \<Rightarrow> string list \<Rightarrow> string outcome" where
  "file_parts fs [] = Returned []"
| "file_parts fs (f # fs') =
     (case fs_read fs f of
        Cannot_open \<Rightarrow> Exited
      | No_buffer \<Rightarrow> Throws From_buffer
      | Cannot_read \<Rightarrow> Exited
      | Contents bytes \<Rightarrow>
          (case base64_encode bytes False of
             None \<Rightarrow> Diverges
           | Some base64 \<Rightarrow>
               bind_outcome (file_parts fs fs') (\<lambda>rest.
                 Returned (file_part (fs_filename fs f) base64 @ rest))))"

definition predict_body :: "filesystem \<Rightarrow> string list \<Rightarrow> string outcome" where
  "predict_body fs files =
     bind_outcome (file_parts fs files) (\<lambda>parts.
       Returned (parts @ ''--77580b83-390b-4c34-8393-4eac360c7b42--'' @ CRLF))"

definition predict_message :: "string \<Rightarrow> string" where
  "predict_message stringRequestData =
     ''POST '' @ ''/predict'' @ '' HTTP/1.0'' @ CRLF @
     ''Accept: */*'' @ CRLF @
     ''Content-Length: '' @ dec (length stringRequestData) @ CRLF @
     ''Content-Type: multipart/form-data; boundary=77580b83-390b-4c34-8393-4eac360c7b42'' @ CRLF @
     ''Connection: close'' @ CRLF @ CRLF @
     stringRequestData"

definition history_message :: string where
  "history_message =
     ''GET '' @ ''/history'' @ '' HTTP/1.0'' @ CRLF @ ''Accept: */*'' @ CRLF @ ''Connection: close'' @ CRLF @ CRLF"

text \<open>
  The connection: whether it can be established, and what comes back for the bytes written. Reading to
  the end of file is the good case; any other \<open>error_code\<close> is thrown as it is, and it is no
  \<open>std::exception\<close>; the exceptions of Asio are.
\<close>

datatype exchange = Response string | Asio_exception | Read_error_code

record network =
  connects :: bool
  transfer :: "string \<Rightarrow> exchange"

definition exchange_result :: "exchange \<Rightarrow> string outcome" where
  "exchange_result x =
     (case x of Response s \<Rightarrow> Returned s | Asio_exception \<Rightarrow> Throws From_transfer | Read_error_code \<Rightarrow> Crashed)"

text \<open>The \<open>try\<close> block; for the types without a branch the function ends without a \<open>return\<close>.\<close>

definition try_request :: "filesystem \<Rightarrow> network \<Rightarrow> client_request \<Rightarrow> string outcome" where
  "try_request fs net req =
     (if \<not> connects net then Throws From_connect
      else
        (case request_type req of
           Inl _ \<Rightarrow> Crashed
         | Inr Person \<Rightarrow>
             (case request_filePath req of
                Inl _ \<Rightarrow> Crashed
              | Inr files \<Rightarrow>
                  bind_outcome (predict_body fs files) (\<lambda>body.
                    exchange_result (transfer net (predict_message body))))
         | Inr History \<Rightarrow> exchange_result (transfer net history_message)
         | Inr _ \<Rightarrow> Crashed))"

definition sendRequest :: "filesystem \<Rightarrow> network \<Rightarrow> client_request \<Rightarrow> string outcome" where
  "sendRequest fs net req = (case try_request fs net req of Throws _ \<Rightarrow> Returned '''' | r \<Rightarrow> r)"

section \<open>The command line\<close>

datatype option_type = Predict | HistoryOpt

record sisdOption =
  opt_type :: option_type
  images :: "string list"

text \<open>
  The \<open>variables_map\<close> after \<open>notify\<close>: whether \<open>help\<close> is there, and the values of the other two options. What
  \<open>parse_command_line\<close>, \<open>store\<close> and \<open>notify\<close> make of the arguments is \<open>Some\<close> such map, or \<open>None\<close> when one of
  them throws (an unknown option, an option without its value), which nobody catches.
\<close>

record variables_map =
  vm_help :: bool
  vm_image :: "string list option"
  vm_type :: "string option"

definition with_images :: "variables_map \<Rightarrow> sisdOption \<Rightarrow> sisdOption outcome" where
  "with_images vm ret =
     (if opt_type ret = Predict then
        (case vm_image vm of Some is \<Rightarrow> Returned (ret\<lparr>images := is\<rparr>) | None \<Rightarrow> Exited)
      else Returned ret)"

definition parse_options :: "variables_map \<Rightarrow> sisdOption outcome" where
  "parse_options vm =
     (if vm_help vm then Exited
      else
        (case vm_type vm of
           Some t \<Rightarrow>
             (if t = ''predict'' then with_images vm \<lparr>opt_type = Predict, images = []\<rparr>
              else if t = ''history'' then with_images vm \<lparr>opt_type = HistoryOpt, images = []\<rparr>
              else Exited)
         | None \<Rightarrow> with_images vm \<lparr>opt_type = Predict, images = []\<rparr>))"

definition parseArguments :: "variables_map option \<Rightarrow> sisdOption outcome" where
  "parseArguments args = (case args of None \<Rightarrow> Crashed | Some vm \<Rightarrow> parse_options vm)"

text \<open>\<open>main\<close>: the response it prints.\<close>

definition client_main :: "filesystem \<Rightarrow> network \<Rightarrow> variables_map option \<Rightarrow> string outcome" where
  "client_main fs net vm =
     bind_outcome (parseArguments vm) (\<lambda>opt.
       let req = formRequest fs (images opt) (if opt_type opt = Predict then Person else History)
       in case request_bool req of
            Inl _ \<Rightarrow> Crashed
          | Inr valid \<Rightarrow> (if \<not> valid then Exited else sendRequest fs net req))"

section \<open>What the client promises\<close>

lemma valid_files_iff: "valid_files fs files \<longleftrightarrow> (\<forall>f\<in>set files. fs_exists fs f = Some True \<and> fs_regular fs f = Some True)"
  by (induction files) (auto simp: valid_file_def split: option.splits bool.splits)

text \<open>
  \<open>formRequest\<close> makes a valid request exactly of a non-empty list of existing regular files for a
  prediction and of anything for a history; for all else it returns a request on which \<open>operator bool\<close>
  is undefined (so it never returns \<open>false\<close>, as the header documents it to).
\<close>
lemma form_request:
  "request_bool (formRequest fs files t) =
     (if t = History \<or>
         t = Person \<and> files \<noteq> [] \<and> (\<forall>f\<in>set files. fs_exists fs f = Some True \<and> fs_regular fs f = Some True)
      then Inr True else Inl Undefined_behaviour)"
  by (simp add: formRequest_def Request_default_def Request_of_def request_bool_def valid_files_iff)

lemma form_request_witness:
  "request_bool (formRequest
     \<lparr>fs_exists = (\<lambda>_. Some True), fs_regular = (\<lambda>_. Some True), fs_filename = (\<lambda>f. f), fs_read = (\<lambda>_. Contents ''Man'')\<rparr>
     [''a.jpg''] Person) = Inr True"
  using form_request [of "\<lparr>fs_exists = (\<lambda>_. Some True), fs_regular = (\<lambda>_. Some True), fs_filename = (\<lambda>f. f),
    fs_read = (\<lambda>_. Contents ''Man'')\<rparr>" "[''a.jpg'']" Person] by simp

lemma bind_outcome_Crashed:
  "bind_outcome m f = Crashed \<longleftrightarrow> m = Crashed \<or> (\<exists>a. m = Returned a \<and> f a = Crashed)"
  by (cases m) auto

lemma file_parts_outcome: "file_parts fs files \<noteq> Crashed"
  by (induction files) (auto simp: bind_outcome_Crashed split: option.split file_read.split)

lemma exchange_result_Crashed: "exchange_result x = Crashed \<longleftrightarrow> x = Read_error_code"
  by (simp add: exchange_result_def split: exchange.split)

lemma sendRequest_try_Crashed: "sendRequest fs net req = Crashed \<longleftrightarrow> try_request fs net req = Crashed"
  by (simp add: sendRequest_def split: outcome.split)

lemma sendRequest_Crashed:
  "sendRequest fs net (Request_of files Person) = Crashed \<longleftrightarrow>
     connects net \<and> (\<exists>body. predict_body fs files = Returned body \<and>
       transfer net (predict_message body) = Read_error_code)"
  "sendRequest fs net (Request_of files History) = Crashed \<longleftrightarrow>
     connects net \<and> transfer net history_message = Read_error_code"
  by (auto simp: sendRequest_try_Crashed try_request_def request_type_def request_filePath_def Request_of_def
      bind_outcome_Crashed exchange_result_Crashed predict_body_def file_parts_outcome)

lemma parseArguments_Crashed: "parseArguments vm = Crashed \<longleftrightarrow> vm = None"
  by (auto simp: parseArguments_def parse_options_def with_images_def split: option.split)

lemma parseArguments_catches: "parseArguments vm \<noteq> Throws k" "parseArguments vm \<noteq> Diverges"
  by (auto simp: parseArguments_def parse_options_def with_images_def split: option.split)

lemma sendRequest_catches: "sendRequest fs net req \<noteq> Throws k"
  by (simp add: sendRequest_def split: outcome.split)

text \<open>
  C36: exactly when the client's \<open>main\<close> crashes: on a command line the option parser rejects (its exception is
  caught nowhere), on a prediction for a path that is not an existing regular file (a null pointer is read),
  and when the connection fails while the response is read (the \<open>error_code\<close> that is thrown is not a
  \<open>std::exception\<close>).
\<close>
theorem client_crashes:
  "client_main fs net vm = Crashed \<longleftrightarrow>
     vm = None \<or>
     (\<exists>files. parseArguments vm = Returned \<lparr>opt_type = Predict, images = files\<rparr> \<and>
        (files = [] \<or> (\<exists>f\<in>set files. fs_exists fs f \<noteq> Some True \<or> fs_regular fs f \<noteq> Some True) \<or>
         connects net \<and> (\<exists>body. predict_body fs files = Returned body \<and>
           transfer net (predict_message body) = Read_error_code))) \<or>
     (\<exists>files. parseArguments vm = Returned \<lparr>opt_type = HistoryOpt, images = files\<rparr> \<and>
        connects net \<and> transfer net history_message = Read_error_code)"
proof (cases "parseArguments vm")
  case (Returned opt)
  then have args: "vm \<noteq> None" using parseArguments_Crashed [of vm] by auto
  obtain t files where opt: "opt = \<lparr>opt_type = t, images = files\<rparr>" by (cases opt)
  show ?thesis
  proof (cases t)
    case Predict
    then show ?thesis using Returned opt args
      by (cases "files \<noteq> [] \<and> valid_files fs files")
         (auto simp: client_main_def formRequest_def request_bool_def Request_default_def Request_of_def
           sendRequest_Crashed(1) [unfolded Request_of_def] valid_files_iff)
  next
    case HistoryOpt
    then show ?thesis using Returned opt args
      by (auto simp: client_main_def formRequest_def request_bool_def Request_of_def
          sendRequest_Crashed(2) [unfolded Request_of_def])
  qed
next
  case Exited
  then have "vm \<noteq> None" using parseArguments_Crashed [of vm] by auto
  with Exited show ?thesis by (simp add: client_main_def)
next
  case Crashed
  then show ?thesis using parseArguments_Crashed [of vm] by (simp add: client_main_def)
qed (simp_all add: parseArguments_catches)

theorem client_crashes_witness:
  "client_main \<lparr>fs_exists = (\<lambda>_. Some False), fs_regular = (\<lambda>_. Some True), fs_filename = (\<lambda>f. f),
       fs_read = (\<lambda>_. Cannot_open)\<rparr>
     \<lparr>connects = True, transfer = (\<lambda>_. Response ''ok'')\<rparr>
     (Some \<lparr>vm_help = False, vm_image = Some [''no.jpg''], vm_type = None\<rparr>) = Crashed"
proof -
  have "parseArguments (Some \<lparr>vm_help = False, vm_image = Some [''no.jpg''], vm_type = None\<rparr>) =
      Returned \<lparr>opt_type = Predict, images = [''no.jpg'']\<rparr>"
    by code_simp
  then show ?thesis by (subst client_crashes) simp
qed

end
