(* ===== verification/Http.thy ===== *)
theory Http
  imports Prelude
begin

text \<open>
  The data of the HTTP layer and the reply side of it: \<open>header.hpp\<close>, \<open>request.hpp\<close>,
  \<open>reply.hpp\<close>/\<open>reply.cpp\<close> (status lines, stock replies, the buffers handed to the socket) and
  \<open>mime_types.cpp\<close>. A reader of responses states what a client gets back from the buffers.
\<close>

section \<open>Headers, requests, replies\<close>

record header =
  hname :: string
  hvalue :: string

record request =
  req_method :: string
  uri :: string
  http_version_major :: int
  http_version_minor :: int
  rq_headers :: "header list"
  jsonData :: string

datatype status_type =
    Ok
  | Created
  | Accepted
  | No_content
  | Multiple_choices
  | Moved_permanently
  | Moved_temporarily
  | Not_modified
  | Bad_request
  | Unauthorized
  | Forbidden
  | Not_found
  | Internal_server_error
  | Not_implemented
  | Bad_gateway
  | Service_unavailable

text \<open>The enumerators' values.\<close>

primrec status_code :: "status_type \<Rightarrow> nat" where
  "status_code Ok = 200"
| "status_code Created = 201"
| "status_code Accepted = 202"
| "status_code No_content = 204"
| "status_code Multiple_choices = 300"
| "status_code Moved_permanently = 301"
| "status_code Moved_temporarily = 302"
| "status_code Not_modified = 304"
| "status_code Bad_request = 400"
| "status_code Unauthorized = 401"
| "status_code Forbidden = 403"
| "status_code Not_found = 404"
| "status_code Internal_server_error = 500"
| "status_code Not_implemented = 501"
| "status_code Bad_gateway = 502"
| "status_code Service_unavailable = 503"

record reply =
  status :: status_type
  rp_headers :: "header list"
  content :: string

section \<open>Status lines\<close>

text \<open>
  \<open>status_strings::to_buffer\<close>. The switch covers every enumerator; its default branch is for
  integers that are none of them, which a \<open>status_type\<close> of the program never holds.
\<close>

primrec to_buffer :: "status_type \<Rightarrow> string" where
  "to_buffer Ok = ''HTTP/1.0 200 OK'' @ CRLF"
| "to_buffer Created = ''HTTP/1.0 201 Created'' @ CRLF"
| "to_buffer Accepted = ''HTTP/1.0 202 Accepted'' @ CRLF"
| "to_buffer No_content = ''HTTP/1.0 204 No Content'' @ CRLF"
| "to_buffer Multiple_choices = ''HTTP/1.0 300 Multiple Choices'' @ CRLF"
| "to_buffer Moved_permanently = ''HTTP/1.0 301 Moved Permanently'' @ CRLF"
| "to_buffer Moved_temporarily = ''HTTP/1.0 302 Moved Temporarily'' @ CRLF"
| "to_buffer Not_modified = ''HTTP/1.0 304 Not Modified'' @ CRLF"
| "to_buffer Bad_request = ''HTTP/1.0 400 Bad Request'' @ CRLF"
| "to_buffer Unauthorized = ''HTTP/1.0 401 Unauthorized'' @ CRLF"
| "to_buffer Forbidden = ''HTTP/1.0 403 Forbidden'' @ CRLF"
| "to_buffer Not_found = ''HTTP/1.0 404 Not Found'' @ CRLF"
| "to_buffer Internal_server_error = ''HTTP/1.0 500 Internal Server Error'' @ CRLF"
| "to_buffer Not_implemented = ''HTTP/1.0 501 Not Implemented'' @ CRLF"
| "to_buffer Bad_gateway = ''HTTP/1.0 502 Bad Gateway'' @ CRLF"
| "to_buffer Service_unavailable = ''HTTP/1.0 503 Service Unavailable'' @ CRLF"

definition name_value_separator :: string where
  "name_value_separator = '': ''"

definition crlf :: string where
  "crlf = CRLF"

section \<open>The buffers of a reply\<close>

primrec header_buffers :: "header list \<Rightarrow> string list" where
  "header_buffers [] = []"
| "header_buffers (h # hs) = [hname h, name_value_separator, hvalue h, crlf] @ header_buffers hs"

definition to_buffers :: "reply \<Rightarrow> string list" where
  "to_buffers rep = [to_buffer (status rep)] @ header_buffers (rp_headers rep) @ [crlf, content rep]"

text \<open>What is written to the socket: the buffers one after the other.\<close>

definition wire :: "reply \<Rightarrow> string" where
  "wire rep = concat (to_buffers rep)"

section \<open>Stock replies\<close>

primrec stock_body :: "status_type \<Rightarrow> string" where
  "stock_body Ok =
     ''''"
| "stock_body Created =
     ''<html>'' @ ''<head><title>Created</title></head>'' @ ''<body><h1>201 Created</h1></body>'' @ ''</html>''"
| "stock_body Accepted =
     ''<html>'' @ ''<head><title>Accepted</title></head>'' @ ''<body><h1>202 Accepted</h1></body>'' @ ''</html>''"
| "stock_body No_content =
     ''<html>'' @ ''<head><title>No Content</title></head>'' @ ''<body><h1>204 Content</h1></body>'' @ ''</html>''"
| "stock_body Multiple_choices =
     ''<html>'' @ ''<head><title>Multiple Choices</title></head>'' @ ''<body><h1>300 Multiple Choices</h1></body>'' @ ''</html>''"
| "stock_body Moved_permanently =
     ''<html>'' @ ''<head><title>Moved Permanently</title></head>'' @ ''<body><h1>301 Moved Permanently</h1></body>'' @ ''</html>''"
| "stock_body Moved_temporarily =
     ''<html>'' @ ''<head><title>Moved Temporarily</title></head>'' @ ''<body><h1>302 Moved Temporarily</h1></body>'' @ ''</html>''"
| "stock_body Not_modified =
     ''<html>'' @ ''<head><title>Not Modified</title></head>'' @ ''<body><h1>304 Not Modified</h1></body>'' @ ''</html>''"
| "stock_body Bad_request =
     ''<html>'' @ ''<head><title>Bad Request</title></head>'' @ ''<body><h1>400 Bad Request</h1></body>'' @ ''</html>''"
| "stock_body Unauthorized =
     ''<html>'' @ ''<head><title>Unauthorized</title></head>'' @ ''<body><h1>401 Unauthorized</h1></body>'' @ ''</html>''"
| "stock_body Forbidden =
     ''<html>'' @ ''<head><title>Forbidden</title></head>'' @ ''<body><h1>403 Forbidden</h1></body>'' @ ''</html>''"
| "stock_body Not_found =
     ''<html>'' @ ''<head><title>Not Found</title></head>'' @ ''<body><h1>404 Not Found</h1></body>'' @ ''</html>''"
| "stock_body Internal_server_error =
     ''<html>'' @ ''<head><title>Internal Server Error</title></head>'' @ ''<body><h1>500 Internal Server Error</h1></body>'' @ ''</html>''"
| "stock_body Not_implemented =
     ''<html>'' @ ''<head><title>Not Implemented</title></head>'' @ ''<body><h1>501 Not Implemented</h1></body>'' @ ''</html>''"
| "stock_body Bad_gateway =
     ''<html>'' @ ''<head><title>Bad Gateway</title></head>'' @ ''<body><h1>502 Bad Gateway</h1></body>'' @ ''</html>''"
| "stock_body Service_unavailable =
     ''<html>'' @ ''<head><title>Service Unavailable</title></head>'' @ ''<body><h1>503 Service Unavailable</h1></body>'' @ ''</html>''"

definition stock_reply :: "status_type \<Rightarrow> reply" where
  "stock_reply st =
     \<lparr>status = st,
      rp_headers =
        [\<lparr>hname = ''Content-Length'', hvalue = dec (length (stock_body st))\<rparr>,
         \<lparr>hname = ''Content-Type'', hvalue = ''text/html''\<rparr>],
      content = stock_body st\<rparr>"

section \<open>MIME types\<close>

text \<open>The table of \<open>mime_types.cpp\<close>, without the entry of null pointers that ends it.\<close>

definition mappings :: "(string \<times> string) list" where
  "mappings =
     [(''gif'', ''image/gif''), (''htm'', ''text/html''), (''html'', ''text/html''),
      (''jpg'', ''image/jpeg''), (''png'', ''image/png''), (''json'', ''application/json'')]"

fun lookup_mapping :: "(string \<times> string) list \<Rightarrow> string \<Rightarrow> string" where
  "lookup_mapping [] ext = ''text/plain''"
| "lookup_mapping ((e, m) # ms) ext = (if e = ext then m else lookup_mapping ms ext)"

definition extension_to_type :: "string \<Rightarrow> string" where
  "extension_to_type ext = lookup_mapping mappings ext"

section \<open>What a client reads back\<close>

text \<open>
  A reader of responses, as any HTTP client has one: the status line up to the first CRLF with its
  three-digit code, header lines up to the empty line, and the rest as the content.
\<close>

function read_headers :: "string \<Rightarrow> (header list \<times> string) option" where
  "read_headers s =
     (case find_sub CRLF s of
        None \<Rightarrow> None
      | Some i \<Rightarrow>
          if i = 0 then Some ([], drop 2 s)
          else (case find_sub name_value_separator (take i s) of
                  None \<Rightarrow> None
                | Some k \<Rightarrow>
                    map_option
                      (\<lambda>(hs, rest).
                        (\<lparr>hname = take k (take i s), hvalue = drop (k + 2) (take i s)\<rparr> # hs, rest))
                      (read_headers (drop (i + 2) s))))"
  by pat_completeness auto
termination
  by (relation "measure length") (auto dest: find_sub_Some_bound)

declare read_headers.simps [simp del]

definition read_response :: "string \<Rightarrow> (nat \<times> header list \<times> string) option" where
  "read_response s =
     (case find_sub CRLF s of
        None \<Rightarrow> None
      | Some i \<Rightarrow>
          map_option (\<lambda>(hs, body). (dec_val (take 3 (drop 9 (take i s))), hs, body))
            (read_headers (drop (i + 2) s)))"

text \<open>Headers that survive the trip: no CR, and no colon in the name.\<close>

definition plain_header :: "header \<Rightarrow> bool" where
  "plain_header h \<longleftrightarrow> CR \<notin> set (hname h) \<and> CHR '':'' \<notin> set (hname h) \<and> CR \<notin> set (hvalue h)"

lemma find_separator:
  "CHR '':'' \<notin> set n \<Longrightarrow> find_sub name_value_separator (n @ name_value_separator @ v) = Some (length n)"
  by (induction n) (auto simp: name_value_separator_def)

lemma read_headers_buffers:
  assumes "\<forall>h\<in>set hs. plain_header h"
  shows "read_headers (concat (header_buffers hs) @ crlf @ body) = Some (hs, body)"
  using assms
proof (induction hs)
  case Nil
  then show ?case by (subst read_headers.simps) (simp add: crlf_def)
next
  case (Cons h hs)
  define line where "line = hname h @ name_value_separator @ hvalue h"
  define rest where "rest = concat (header_buffers hs) @ crlf @ body"
  have h: "plain_header h" using Cons.prems by simp
  have s: "concat (header_buffers (h # hs)) @ crlf @ body = line @ CRLF @ rest"
    by (simp add: line_def rest_def crlf_def)
  have crlf: "find_sub CRLF (line @ CRLF @ rest) = Some (length line)"
    using h by (intro find_sub_crlf) (auto simp: line_def plain_header_def name_value_separator_def)
  have sep: "find_sub name_value_separator line = Some (length (hname h))"
    using h unfolding line_def by (intro find_separator) (simp add: plain_header_def)
  have parts: "take (length (hname h)) line = hname h" "drop (length (hname h) + 2) line = hvalue h"
    "length line \<noteq> 0"
    by (simp_all add: line_def name_value_separator_def)
  have IH: "read_headers rest = Some (hs, body)" using Cons by (simp add: rest_def)
  show ?case
    unfolding s by (subst read_headers.simps, subst crlf) (use sep parts IH in simp)
qed

lemma to_buffer_shape:
  "\<exists>line. to_buffer st = line @ CRLF \<and> CR \<notin> set line \<and> dec_val (take 3 (drop 9 line)) = status_code st"
  by (cases st) (simp_all add: dec_val_def uchar_def)

lemma read_response_wire:
  assumes "\<forall>h\<in>set (rp_headers rep). plain_header h"
  shows "read_response (wire rep) = Some (status_code (status rep), rp_headers rep, content rep)"
proof -
  obtain line where line: "to_buffer (status rep) = line @ CRLF" "CR \<notin> set line"
    "dec_val (take 3 (drop 9 line)) = status_code (status rep)"
    using to_buffer_shape by blast
  have w: "wire rep = line @ CRLF @ concat (header_buffers (rp_headers rep)) @ crlf @ content rep"
    by (simp add: wire_def to_buffers_def line(1) crlf_def)
  show ?thesis
    unfolding read_response_def w find_sub_crlf [OF line(2)]
    using read_headers_buffers [OF assms] line(3) by simp
qed

lemma dec_plain: "CR \<notin> set (dec n)"
  using dec_digits [of CR n] by (auto simp: is_digit_char_def uchar_def)

lemma extension_to_type_cases: "extension_to_type ext \<in> insert ''text/plain'' (snd ` set mappings)"
  by (auto simp: extension_to_type_def mappings_def)

section \<open>What the component promises\<close>

text \<open>
  C33: the buffers of a reply with plain headers carry it unchanged: a client reads back the status
  code of its enumerator, the headers in order, and the content byte for byte.
\<close>
theorem reply_roundtrip:
  assumes "\<And>h. h \<in> set (rp_headers rep) \<Longrightarrow> plain_header h"
  shows "read_response (concat (to_buffers rep))
    = Some (status_code (status rep), rp_headers rep, content rep)"
  using read_response_wire [of rep] assms by (simp add: wire_def)

theorem reply_roundtrip_witness:
  "read_response (concat (to_buffers \<lparr>status = Not_found,
       rp_headers = [\<lparr>hname = ''Age'', hvalue = ''12''\<rparr>], content = ''gone''\<rparr>))
   = Some (404, [\<lparr>hname = ''Age'', hvalue = ''12''\<rparr>], ''gone'')"
  using reply_roundtrip [of "\<lparr>status = Not_found,
       rp_headers = [\<lparr>hname = ''Age'', hvalue = ''12''\<rparr>], content = ''gone''\<rparr>"]
  by (simp add: plain_header_def)

text \<open>
  Every stock reply is read back with its own status code, and its Content-Length, read as a
  number, is the length of the body that follows.
\<close>
theorem stock_reply_wellformed:
  "\<exists>len_text. read_response (wire (stock_reply st)) =
     Some (status_code st,
       [\<lparr>hname = ''Content-Length'', hvalue = len_text\<rparr>,
        \<lparr>hname = ''Content-Type'', hvalue = ''text/html''\<rparr>],
       content (stock_reply st))
   \<and> stoul len_text = Inr (length (content (stock_reply st)))"
proof -
  have "length (stock_body st) < 2 ^ 64" by (cases st) simp_all
  then show ?thesis
    using read_response_wire [of "stock_reply st"] stoul_dec [of "length (stock_body st)"]
    by (simp add: stock_reply_def plain_header_def dec_plain)
qed

end
