(* ===== verification/HistoryStorage.thy ===== *)
theory HistoryStorage
  imports Prelude
begin

text \<open>
  \<open>historyStorage.hpp\<close>/\<open>historyStorage.cpp\<close>: the singleton that hands out job handles and keeps the
  combined result of every prediction in the Redis hash \<open>history\<close>. The two Redis commands it uses are
  parameters (\<open>hset\<close>, \<open>hgetall\<close>); \<open>redis_hash\<close> names what is assumed of them.
\<close>

section \<open>State\<close>

record impl =
  m_ctr :: u32

text \<open>
  What outlives a request: the function-local static of \<open>getInstance\<close>, constructed at its first call,
  and the database. A restart of the process drops the first and keeps the second.
\<close>

record 'db world =
  inst :: "impl option"
  db :: 'db

definition new_impl :: impl where
  "new_impl = \<lparr>m_ctr = 0\<rparr>"

definition getInstance :: "'db world \<Rightarrow> impl \<times> 'db world" where
  "getInstance w =
     (case inst w of
        Some i \<Rightarrow> (i, w)
      | None \<Rightarrow> (new_impl, w\<lparr>inst := Some new_impl\<rparr>))"

definition restart :: "'db world \<Rightarrow> 'db world" where
  "restart w = w\<lparr>inst := None\<rparr>"

section \<open>Operations\<close>

definition impl_generateHandle :: "impl \<Rightarrow> u32 \<times> impl" where
  "impl_generateHandle i = (m_ctr i, i\<lparr>m_ctr := m_ctr i + 1\<rparr>)"

definition generateHandle :: "'db world \<Rightarrow> u32 \<times> 'db world" where
  "generateHandle w =
     (let (i, w1) = getInstance w; (h, i') = impl_generateHandle i in (h, w1\<lparr>inst := Some i'\<rparr>))"

type_synonym 'db hset_command = "'db \<Rightarrow> string \<Rightarrow> string \<Rightarrow> string \<Rightarrow> 'db result"
type_synonym 'db hgetall_command = "'db \<Rightarrow> string \<Rightarrow> (string \<times> string) list result"

text \<open>\<open>Impl::save\<close>; the \<open>true\<close> it returns is the \<open>Inr\<close>.\<close>

definition save :: "'db hset_command \<Rightarrow> u32 \<Rightarrow> string \<Rightarrow> 'db world \<Rightarrow> 'db world result" where
  "save hset handle json w =
     (let (i, w1) = getInstance w
      in bind_res (hset (db w1) ''history'' (dec (unat handle)) json) (\<lambda>d. Inr (w1\<lparr>db := d\<rparr>)))"

text \<open>
  An \<open>unordered_map\<close> is a list of pairs with distinct keys; \<open>insert\<close> (the inserter of \<open>getAll\<close>) keeps
  an entry that is there, \<open>operator[]\<close> followed by an assignment replaces it.
\<close>

type_synonym umap = "(string \<times> string) list"

definition umap_insert :: "string \<times> string \<Rightarrow> umap \<Rightarrow> umap" where
  "umap_insert kv m = (if fst kv \<in> fst ` set m then m else m @ [kv])"

definition umap_assign :: "string \<Rightarrow> string \<Rightarrow> umap \<Rightarrow> umap" where
  "umap_assign k v m = AList.update k v m"

definition getAll :: "'db hgetall_command \<Rightarrow> 'db world \<Rightarrow> (umap \<times> 'db world) result" where
  "getAll hgetall w =
     (let (i, w1) = getInstance w
      in bind_res (hgetall (db w1) ''history'') (\<lambda>kvs. Inr (fold umap_insert kvs [], w1)))"

section \<open>Hash maps\<close>

lemma umap_insert_fold_distinct:
  "distinct (map fst (m @ kvs)) \<Longrightarrow> fold umap_insert kvs m = m @ kvs"
proof (induction kvs arbitrary: m)
  case (Cons kv kvs)
  then have "fst kv \<notin> fst ` set m" by auto
  with Cons show ?case by (simp add: umap_insert_def)
qed simp

lemma distinct_umap_assign: "distinct (map fst m) \<Longrightarrow> distinct (map fst (umap_assign k v m))"
  by (simp add: umap_assign_def distinct_update)

lemma map_of_umap_assign: "map_of (umap_assign k v m) = (map_of m)(k \<mapsto> v)"
  by (auto simp: umap_assign_def update_conv)

section \<open>What Redis promises\<close>

text \<open>
  HSET sets one field of one hash and keeps everything else; HGETALL returns each field of a hash once,
  with its value. A command that does not complete throws. \<open>contents\<close> is what the server holds.
\<close>

definition redis_hash ::
  "('db \<Rightarrow> string \<Rightarrow> string \<rightharpoonup> string) \<Rightarrow> 'db hset_command \<Rightarrow> 'db hgetall_command \<Rightarrow> bool"
where
  "redis_hash contents hset hgetall \<longleftrightarrow>
     (\<forall>d k f v d'. hset d k f v = Inr d' \<longrightarrow> contents d' = (contents d)(k := (contents d k)(f \<mapsto> v))) \<and>
     (\<forall>d k kvs. hgetall d k = Inr kvs \<longrightarrow> distinct (map fst kvs) \<and> map_of kvs = contents d k) \<and>
     (\<forall>d k f v e. hset d k f v = Inl e \<longrightarrow> e = Redis_error) \<and>
     (\<forall>d k e. hgetall d k = Inl e \<longrightarrow> e = Redis_error)"

lemma redis_hset:
  "redis_hash contents hset hgetall \<Longrightarrow> hset d k f v = Inr d' \<Longrightarrow>
    contents d' = (contents d)(k := (contents d k)(f \<mapsto> v))"
  by (simp add: redis_hash_def)

lemma redis_hgetall:
  assumes "redis_hash contents hset hgetall" and "hgetall d k = Inr kvs"
  shows "distinct (map fst kvs)" and "map_of kvs = contents d k"
  using assms by (simp_all add: redis_hash_def)

text \<open>A store in memory that satisfies the laws, for the concrete instances below.\<close>

type_synonym mem_db = "(string \<times> umap) list"

definition mem_rows :: "mem_db \<Rightarrow> string \<Rightarrow> umap" where
  "mem_rows d k = AList.clearjunk (case map_of d k of None \<Rightarrow> [] | Some r \<Rightarrow> r)"

definition mem_hset :: "mem_db hset_command" where
  "mem_hset d k f v = Inr (AList.update k (AList.update f v (mem_rows d k)) d)"

definition mem_hgetall :: "mem_db hgetall_command" where
  "mem_hgetall d k = Inr (mem_rows d k)"

definition mem_contents :: "mem_db \<Rightarrow> string \<Rightarrow> string \<rightharpoonup> string" where
  "mem_contents d k = map_of (mem_rows d k)"

lemma mem_redis_hash: "redis_hash mem_contents mem_hset mem_hgetall"
proof -
  have "mem_contents (AList.update k (AList.update f v (mem_rows d k)) d) =
      (mem_contents d)(k := (mem_contents d k)(f \<mapsto> v))" for d k f v
    by (rule ext, rule ext) (auto simp: mem_contents_def mem_rows_def map_of_clearjunk update_conv)
  then show ?thesis
    by (auto simp: redis_hash_def mem_hset_def mem_hgetall_def mem_contents_def mem_rows_def
        distinct_clearjunk)
qed

section \<open>Handles\<close>

definition ctr :: "'db world \<Rightarrow> u32" where
  "ctr w = (case inst w of None \<Rightarrow> 0 | Some i \<Rightarrow> m_ctr i)"

text \<open>The handles of the next \<open>n\<close> calls.\<close>

primrec handles :: "nat \<Rightarrow> 'db world \<Rightarrow> u32 list" where
  "handles 0 w = []"
| "handles (Suc n) w = (let (h, w') = generateHandle w in h # handles n w')"

lemmas handle_defs = generateHandle_def getInstance_def impl_generateHandle_def new_impl_def ctr_def

lemma generateHandle_eq:
  "generateHandle w = (ctr w, w\<lparr>inst := Some \<lparr>m_ctr = ctr w + 1\<rparr>\<rparr>)"
  by (simp add: handle_defs split: option.split)

lemma ctr_inst [simp]: "ctr (w\<lparr>inst := Some i\<rparr>) = m_ctr i" "ctr (w\<lparr>db := d\<rparr>) = ctr w"
  "ctr (restart w) = 0"
  by (simp_all add: ctr_def restart_def)

lemma handles_eq: "handles n w = map (\<lambda>i. ctr w + word_of_nat i) [0..<n]"
proof (induction n arbitrary: w)
  case (Suc n)
  have "[0..<Suc n] = 0 # map Suc [0..<n]" by (simp add: map_Suc_upt upt_conv_Cons del: upt_Suc)
  then show ?case using Suc by (simp add: generateHandle_eq comp_def add_ac del: upt_Suc)
qed simp

lemma word_of_nat_eq_u32:
  "(word_of_nat i :: u32) = word_of_nat j \<longleftrightarrow> i mod 2 ^ 32 = j mod 2 ^ 32"
  by (simp add: unsigned_of_nat take_bit_eq_mod word_unat_eq_iff)

text \<open>
  The handles of successive calls are pairwise different exactly as long as the 32-bit counter has
  not wrapped around.
\<close>
theorem handles_unique: "distinct (handles n w) \<longleftrightarrow> n \<le> 2 ^ 32"
proof
  assume d: "distinct (handles n w)"
  show "n \<le> 2 ^ 32"
  proof (rule ccontr)
    assume "\<not> n \<le> 2 ^ 32"
    then have "(0::nat) \<in> set [0..<n]" and "(2::nat) ^ 32 \<in> set [0..<n]" by auto
    moreover have "inj_on (\<lambda>i. ctr w + word_of_nat i) (set [0..<n])"
      using d by (simp add: handles_eq distinct_map)
    ultimately have "(0::nat) = 2 ^ 32"
      by (rule_tac inj_onD [of "\<lambda>i. ctr w + word_of_nat i"]) (auto simp: word_of_nat_eq_u32)
    then show False by simp
  qed
next
  assume "n \<le> 2 ^ 32"
  then have "inj_on (\<lambda>i. ctr w + word_of_nat i) {0..<n}"
    by (intro inj_onI) (auto simp: word_of_nat_eq_u32)
  then show "distinct (handles n w)" by (simp add: handles_eq distinct_map)
qed

section \<open>The records of a run\<close>

text \<open>What the request handler does with a combined result: a fresh handle, then \<open>save\<close>.\<close>

definition store_result :: "'db hset_command \<Rightarrow> string \<Rightarrow> 'db world \<Rightarrow> 'db world result" where
  "store_result hset json w = (let (h, w1) = generateHandle w in save hset h json w1)"

primrec store_all :: "'db hset_command \<Rightarrow> string list \<Rightarrow> 'db world \<Rightarrow> 'db world result" where
  "store_all hset [] w = Inr w"
| "store_all hset (j # js) w = bind_res (store_result hset j w) (store_all hset js)"

lemma store_result_Inr:
  assumes "redis_hash contents hset hgetall" and "store_result hset j w = Inr w'"
  shows "contents (db w') = (contents (db w))
      (''history'' := (contents (db w) ''history'')(dec (unat (ctr w)) \<mapsto> j))"
    and "ctr w' = ctr w + 1"
  using assms(2)
  by (auto simp: store_result_def generateHandle_eq save_def getInstance_def res_simps
      dest!: redis_hset [OF assms(1)])

lemma getAll_Inr:
  assumes "redis_hash contents hset hgetall" and "getAll hgetall w = Inr (m, w')"
  shows "map_of m = contents (db w) ''history''" and "distinct (map fst m)"
proof -
  have db1: "db (snd (getInstance w)) = db w" by (simp add: getInstance_def split: option.split)
  obtain kvs where kvs: "hgetall (db w) ''history'' = Inr kvs" and m: "m = fold umap_insert kvs []"
    using assms(2) db1 by (auto simp: getAll_def res_simps split: prod.splits)
  note facts = redis_hgetall [OF assms(1), OF kvs]
  have "m = kvs" using m umap_insert_fold_distinct [of "[]" kvs] facts(1) by simp
  then show "map_of m = contents (db w) ''history''" and "distinct (map fst m)" using facts by simp_all
qed

text \<open>Record \<open>i\<close> of the list, under the decimal name of \<open>n + i\<close>.\<close>

definition numbered :: "nat \<Rightarrow> string list \<Rightarrow> string \<rightharpoonup> string" where
  "numbered n js = map_of (zip (map dec [n..<n + length js]) js)"

lemma upt_first: "[n..<n + length (j # js)] = n # [Suc n..<Suc n + length js]"
  by (simp add: upt_conv_Cons del: upt_Suc)

lemma numbered_eq: "numbered n (j # js) = (numbered (Suc n) js)(dec n \<mapsto> j)"
  unfolding numbered_def upt_first by simp

lemma numbered_later: "i < n \<Longrightarrow> numbered n js (dec i) = None"
  by (auto simp: numbered_def map_of_eq_None_iff dest!: set_zip_leftD)

lemma numbered_Cons: "m(dec n \<mapsto> j) ++ numbered (Suc n) js = m ++ numbered n (j # js)"
  using numbered_later [of n "Suc n" js]
  by (auto simp: numbered_eq map_add_def fun_eq_iff split: option.split)

lemma numbered_nth: "i < length js \<Longrightarrow> numbered n js (dec (n + i)) = Some (js ! i)"
  unfolding numbered_def
  by (rule map_of_is_SomeI) (auto simp: set_zip distinct_map inj_on_def intro!: exI [of _ i])

lemma store_all_Inr:
  assumes "redis_hash contents hset hgetall" and "store_all hset js w = Inr w'"
    and "unat (ctr w) + length js \<le> 2 ^ 32"
  shows "contents (db w') ''history'' = contents (db w) ''history'' ++ numbered (unat (ctr w)) js"
  using assms(2,3)
proof (induction js arbitrary: w)
  case Nil
  then show ?case by (simp add: numbered_def)
next
  case (Cons j js)
  obtain w1 where w1: "store_result hset j w = Inr w1" and rest: "store_all hset js w1 = Inr w'"
    using Cons.prems by (auto simp: res_simps)
  note step = store_result_Inr [OF assms(1) w1]
  show ?case
  proof (cases "js = []")
    case True
    then show ?thesis using rest step by (simp add: numbered_def map_add_def fun_eq_iff)
  next
    case False
    then have "unat (ctr w) + 1 < 2 ^ 32" using Cons.prems by (cases js) auto
    then have u: "unat (ctr w1) = Suc (unat (ctr w))" using step(2) unat_add_small [of "ctr w" 1] by simp
    have "contents (db w1) ''history'' = (contents (db w) ''history'')(dec (unat (ctr w)) \<mapsto> j)"
      unfolding step(1) by (rule fun_upd_same)
    moreover have "contents (db w') ''history'' =
        contents (db w1) ''history'' ++ numbered (Suc (unat (ctr w))) js"
      using Cons.IH [OF rest] Cons.prems(2) u by simp
    ultimately show ?thesis by (simp only: numbered_Cons)
  qed
qed

text \<open>
  A run that starts with no record returns from \<open>getAll\<close> exactly what it saved, record \<open>i\<close> under
  the name \<open>i\<close>, as long as it saves at most \<open>2 ^ 32\<close> records.
\<close>
theorem history_complete:
  assumes "redis_hash contents hset hgetall"
    and "inst w = None" and "contents (db w) ''history'' = Map.empty"
    and "store_all hset js w = Inr w1" and "length js \<le> 2 ^ 32"
    and "getAll hgetall w1 = Inr (m, w2)"
  shows "distinct (map fst m) \<and> map_of m = numbered 0 js \<and>
    (\<forall>i<length js. map_of m (dec i) = Some (js ! i))"
proof -
  have "ctr w = 0" using assms(2) by (simp add: ctr_def)
  then have "map_of m = numbered 0 js"
    using store_all_Inr [OF assms(1,4)] assms(3,5) getAll_Inr(1) [OF assms(1,6)] by simp
  then show ?thesis using getAll_Inr(2) [OF assms(1,6)] numbered_nth [of _ js 0] by simp
qed

lemma small_history_run:
  "store_all mem_hset [''a'', ''b''] \<lparr>inst = None, db = []\<rparr> =
    Inr \<lparr>inst = Some \<lparr>m_ctr = 2\<rparr>, db = [(''history'', [(''0'', ''a''), (''1'', ''b'')])]\<rparr>"
  by code_simp

lemma small_history_read:
  "getAll mem_hgetall \<lparr>inst = Some \<lparr>m_ctr = 2\<rparr>, db = [(''history'', [(''0'', ''a''), (''1'', ''b'')])]\<rparr> =
    Inr ([(''0'', ''a''), (''1'', ''b'')],
      \<lparr>inst = Some \<lparr>m_ctr = 2\<rparr>, db = [(''history'', [(''0'', ''a''), (''1'', ''b'')])]\<rparr>)"
  by code_simp

theorem history_complete_witness:
  "distinct (map fst [(''0'', ''a''), (''1'', ''b'')]) \<and>
   map_of [(''0'', ''a''), (''1'', ''b'')] = numbered 0 [''a'', ''b''] \<and>
   map_of [(''0'', ''a''), (''1'', ''b'')] (dec 1) = Some ''b''"
proof -
  have c: "distinct (map fst [(''0'', ''a''), (''1'', ''b'')]) \<and>
     map_of [(''0'', ''a''), (''1'', ''b'')] = numbered 0 [''a'', ''b''] \<and>
     (\<forall>i<length [''a'', ''b'']. map_of [(''0'', ''a''), (''1'', ''b'')] (dec i) = Some ([''a'', ''b''] ! i))"
    by (rule history_complete [OF mem_redis_hash _ _ small_history_run _ small_history_read])
       (simp_all add: mem_contents_def mem_rows_def)
  have one: "1 < length [''a'', ''b'']" and b: "[''a'', ''b''] ! 1 = ''b''" by simp_all
  show ?thesis
    using c c [THEN conjunct2, THEN conjunct2, rule_format, OF one, unfolded b] by (intro conjI) (elim conjE, assumption)+
qed

text \<open>
  The counter is not kept over a restart: the records of the next run take the names, and so the
  places, of the first ones of the previous run; only the records beyond them survive.
\<close>
lemma restart_overwrites:
  assumes "redis_hash contents hset hgetall"
    and "inst w = None" and "contents (db w) ''history'' = Map.empty"
    and "store_all hset js w = Inr w1" and "store_all hset ks (restart w1) = Inr w2"
    and "length js \<le> 2 ^ 32" and "length ks \<le> length js"
    and "getAll hgetall w2 = Inr (m, w3)"
  shows "map_of m = numbered 0 js ++ numbered 0 ks \<and>
    (\<forall>i<length ks. map_of m (dec i) = Some (ks ! i)) \<and> dom (map_of m) = dec ` {..<length js}"
proof -
  have "ctr w = 0" using assms(2) by (simp add: ctr_def)
  then have w1: "contents (db w1) ''history'' = numbered 0 js"
    using store_all_Inr [OF assms(1,4)] assms(3,6) by simp
  have "contents (db w2) ''history'' = numbered 0 js ++ numbered 0 ks"
    using store_all_Inr [OF assms(1,5)] assms(6,7) w1 by (simp add: restart_def ctr_def)
  then have m: "map_of m = numbered 0 js ++ numbered 0 ks" using getAll_Inr(1) [OF assms(1,8)] by simp
  have "dom (numbered 0 xs) = dec ` {..<length xs}" for xs
    by (simp add: numbered_def dom_map_of_zip atLeast0LessThan)
  then have "dom (map_of m) = dec ` {..<length js}"
    unfolding m dom_map_add using assms(7) by (auto simp: image_Un [symmetric])
  then show ?thesis using m numbered_nth [of _ ks 0] by (simp add: map_add_def)
qed

lemma small_restart_run:
  "store_all mem_hset [''c''] (restart \<lparr>inst = Some \<lparr>m_ctr = 2\<rparr>, db = [(''history'', [(''0'', ''a''), (''1'', ''b'')])]\<rparr>) =
    Inr \<lparr>inst = Some \<lparr>m_ctr = 1\<rparr>, db = [(''history'', [(''0'', ''c''), (''1'', ''b'')])]\<rparr>"
  by code_simp

lemma small_restart_read:
  "getAll mem_hgetall \<lparr>inst = Some \<lparr>m_ctr = 1\<rparr>, db = [(''history'', [(''0'', ''c''), (''1'', ''b'')])]\<rparr> =
    Inr ([(''0'', ''c''), (''1'', ''b'')],
      \<lparr>inst = Some \<lparr>m_ctr = 1\<rparr>, db = [(''history'', [(''0'', ''c''), (''1'', ''b'')])]\<rparr>)"
  by code_simp

lemma restart_overwrites_witness:
  "map_of [(''0'', ''c''), (''1'', ''b'')] = numbered 0 [''a'', ''b''] ++ numbered 0 [''c''] \<and>
    dom (map_of [(''0'', ''c''), (''1'', ''b'')]) = dec ` {..<length [''a'', ''b'']}"
proof -
  have "mem_contents [] ''history'' = Map.empty" by (simp add: mem_contents_def mem_rows_def)
  then show ?thesis
    by (intro conjI restart_overwrites [OF mem_redis_hash _ _ small_history_run small_restart_run _ _
          small_restart_read, THEN conjunct1]
        restart_overwrites [OF mem_redis_hash _ _ small_history_run small_restart_run _ _
          small_restart_read, THEN conjunct2, THEN conjunct2]) simp_all
qed

end
