(* ===== verification/RequestHandler.thy ===== *)
theory RequestHandler
  imports Base64 Http HistoryStorage Interfaces
begin

text \<open>
  \<open>request_handler.hpp\<close>/\<open>request_handler.cpp\<close>: the decoding of the URL, the search for the multipart
  boundary and the parts of the body, the combination of the results of the images, and
  \<open>handle_request\<close> itself. The person pipeline and the two Redis commands are arguments.
\<close>

section \<open>URL decoding\<close>

definition hex_digit :: "char \<Rightarrow> nat option" where
  "hex_digit c =
     (if 48 \<le> uchar c \<and> uchar c \<le> 57 then Some (uchar c - 48)
      else if 65 \<le> uchar c \<and> uchar c \<le> 70 then Some (uchar c - 55)
      else if 97 \<le> uchar c \<and> uchar c \<le> 102 then Some (uchar c - 87)
      else None)"

primrec hex_run :: "nat \<Rightarrow> string \<Rightarrow> nat" where
  "hex_run a [] = a"
| "hex_run a (c # cs) = (case hex_digit c of None \<Rightarrow> a | Some d \<Rightarrow> hex_run (16 * a + d) cs)"

text \<open>
  \<open>is >> std::hex >> value\<close> on a short string: leading white space is skipped, then an optional sign,
  an optional \<open>0x\<close>, and the longest run of hexadecimal digits, which must not be empty; what follows
  is left in the stream. (A two-character string cannot overflow an \<open>int\<close>.)
\<close>

definition scan_hex :: "string \<Rightarrow> int option" where
  "scan_hex s =
     (let s1 = dropWhile is_space_char s;
          neg = (case s1 of [] \<Rightarrow> False | c # _ \<Rightarrow> c = CHR ''-'');
          s2 = (case s1 of [] \<Rightarrow> [] | c # r \<Rightarrow> if c = CHR ''-'' \<or> c = CHR ''+'' then r else s1);
          s3 = (case s2 of a # b # r \<Rightarrow> if a = CHR ''0'' \<and> (b = CHR ''x'' \<or> b = CHR ''X'') then r else s2
                | _ \<Rightarrow> s2)
      in case s3 of
           [] \<Rightarrow> None
         | c # _ \<Rightarrow> (if hex_digit c = None then None
                    else Some (if neg then - int (hex_run 0 s3) else int (hex_run 0 s3))))"

text \<open>\<open>static_cast<char>\<close> of an \<open>int\<close>.\<close>

definition char_of_int :: "int \<Rightarrow> char" where
  "char_of_int v = char_of (nat (v mod 256))"

text \<open>\<open>None\<close> is the return value \<open>false\<close>.\<close>

fun url_decode :: "string \<Rightarrow> string option" where
  "url_decode [] = Some []"
| "url_decode (c # cs) =
     (if c = CHR ''%'' then
        (case cs of
           a # b # r \<Rightarrow>
             (case scan_hex [a, b] of
                Some v \<Rightarrow> map_option ((#) (char_of_int v)) (url_decode r)
              | None \<Rightarrow> None)
         | _ \<Rightarrow> None)
      else if c = CHR ''+'' then map_option ((#) CHR '' '') (url_decode cs)
      else map_option ((#) c) (url_decode cs))"

section \<open>The multipart message\<close>

text \<open>
  The functions that fill an \<open>out\<close> parameter and return a \<open>bool\<close>: \<open>Inr None\<close> is \<open>false\<close>,
  \<open>Inr (Some out)\<close> is \<open>true\<close>, \<open>Inl\<close> an exception.
\<close>

definition retrieveMultipartBoundary :: "string \<Rightarrow> string option result" where
  "retrieveMultipartBoundary s =
     (case str_find s ''boundary='' 0 of
        None \<Rightarrow> Inr None
      | Some i \<Rightarrow>
          (let startIdx = i + 9;
               endIdx = (case find_first_of s ''/r ;'' startIdx of None \<Rightarrow> length s | Some e \<Rightarrow> e)
           in bind_res (substr s startIdx (sz_add (sz_sub endIdx startIdx) 1)) (\<lambda>out. Inr (Some out))))"

definition retrieveFilenameFromMultiPartMessage :: "string \<Rightarrow> string option result" where
  "retrieveFilenameFromMultiPartMessage s =
     (case str_find s (''filename='' @ [DQ]) 0 of
        None \<Rightarrow> Inr None
      | Some i \<Rightarrow>
          (let startIdx = i + 10
           in case str_find s [DQ] startIdx of
                None \<Rightarrow> Inr None
              | Some endIdx \<Rightarrow> bind_res (substr s startIdx (sz_sub endIdx startIdx)) (\<lambda>out. Inr (Some out))))"

definition retrieveImageFromMultiPartMessage :: "string \<Rightarrow> string option result" where
  "retrieveImageFromMultiPartMessage s =
     (case str_find s (CRLF @ CRLF) 0 of
        None \<Rightarrow> Inr None
      | Some i \<Rightarrow>
          (let startIdx = i + 4
           in case str_find s CRLF startIdx of
                None \<Rightarrow> Inr None
              | Some endIdx \<Rightarrow> bind_res (substr s startIdx (sz_sub endIdx startIdx)) (\<lambda>out. Inr (Some out))))"

text \<open>The two searches and the assignment \<open>out[filename] = base64image\<close> that each part goes through.\<close>

definition add_part :: "string \<Rightarrow> umap \<Rightarrow> umap option result" where
  "add_part part out =
     bind_res (retrieveFilenameFromMultiPartMessage part) (\<lambda>fo.
       case fo of
         None \<Rightarrow> Inr None
       | Some filename \<Rightarrow>
           bind_res (retrieveImageFromMultiPartMessage part) (\<lambda>io.
             case io of
               None \<Rightarrow> Inr None
             | Some base64image \<Rightarrow> Inr (Some (umap_assign filename base64image out))))"

text \<open>The \<open>while\<close> loop over the separators, and the last part after it.\<close>

definition boundary_rn :: "string \<Rightarrow> string" where
  "boundary_rn boundary = ''--'' @ boundary @ CRLF"

definition boundary_end_rn :: "string \<Rightarrow> string" where
  "boundary_end_rn boundary = ''--'' @ boundary @ ''--'' @ CRLF"

lemma boundary_rn_nonempty [simp]: "boundary_rn b \<noteq> []"
  by (simp add: boundary_rn_def)

function images_loop :: "string \<Rightarrow> string \<Rightarrow> nat \<Rightarrow> umap \<Rightarrow> umap option result" where
  "images_loop boundary s currentIdx out =
     (case str_find s (boundary_rn boundary) currentIdx of
        Some partEndIdx \<Rightarrow>
          bind_res (substr s currentIdx (sz_add (sz_sub partEndIdx currentIdx) 1)) (\<lambda>part.
            bind_res (add_part part out) (\<lambda>r.
              case r of
                None \<Rightarrow> Inr None
              | Some out' \<Rightarrow> images_loop boundary s (partEndIdx + length (boundary_rn boundary)) out'))
      | None \<Rightarrow>
          bind_res (substr s currentIdx
              (sz_add (sz_sub (idx_val (str_find s (boundary_end_rn boundary) currentIdx)) currentIdx) 1))
            (\<lambda>lastPart. add_part lastPart out))"
  by pat_completeness auto

termination
proof (relation "measure (\<lambda>(b, s, cur, out). length s - cur)")
  fix b s cur out p part r out'
  assume "str_find s (boundary_rn b) cur = Some p"
  then have "cur \<le> p" and "p + length (boundary_rn b) \<le> length s"
    using str_find_Some_bound by blast+
  moreover have "0 < length (boundary_rn b)" by (simp add: boundary_rn_def)
  ultimately have "length s - (p + length (boundary_rn b)) < length s - cur" by linarith
  then show "((b, s, p + length (boundary_rn b), out'), (b, s, cur, out))
      \<in> measure (\<lambda>(b, s, cur, out). length s - cur)"
    by simp
qed simp

declare images_loop.simps [simp del]

definition retrieveImages :: "string \<Rightarrow> string \<Rightarrow> umap option result" where
  "retrieveImages boundary s =
     (case str_find s (boundary_rn boundary) 0 of
        None \<Rightarrow> Inr None
      | Some i \<Rightarrow> images_loop boundary s (i + length (boundary_rn boundary)) [])"

section \<open>Combining the results\<close>

text \<open>\<open>iter.substr(2, iter.length()-4)\<close> between the two braces.\<close>

primrec inner_results :: "string list \<Rightarrow> string result" where
  "inner_results [] = Inr []"
| "inner_results (r # rs) =
     bind_res (substr r 2 (sz_sub (length r) 4)) (\<lambda>x.
       bind_res (inner_results rs) (\<lambda>y. Inr (x @ y)))"

definition combineJsonResults :: "string list \<Rightarrow> string result" where
  "combineJsonResults results =
     bind_res (inner_results results) (\<lambda>x. Inr (''{'' @ [LF] @ x @ ''}'' @ [LF]))"

section \<open>\<open>handle_request\<close>\<close>

text \<open>
  The code outside \<open>src/\<close> and the pipeline: the Redis commands, \<open>person.run\<close> (which catches every
  exception and returns a string), and the order in which an \<open>unordered_map\<close> is iterated. \<open>person.init\<close>
  catches every exception too, and what it returns is not used: it has no part in the model.
\<close>

record 'db services =
  hset :: "'db hset_command"
  hgetall :: "'db hgetall_command"
  person_run :: "string \<Rightarrow> string \<Rightarrow> string"
  iter :: "umap \<Rightarrow> umap"

text \<open>The boundary of the last Content-Type header; \<open>None\<close> when one of them has none.\<close>

primrec find_boundary :: "header list \<Rightarrow> string \<Rightarrow> string option result" where
  "find_boundary [] b = Inr (Some b)"
| "find_boundary (h # hs) b =
     (if hname h = ''Content-Type'' then
        bind_res (retrieveMultipartBoundary (hvalue h)) (\<lambda>r.
          case r of None \<Rightarrow> Inr None | Some b' \<Rightarrow> find_boundary hs b')
      else find_boundary hs b)"

text \<open>The \<open>for\<close> loop over the images.\<close>

primrec run_images :: "(string \<Rightarrow> string \<Rightarrow> string) \<Rightarrow> umap \<Rightarrow> string list result" where
  "run_images person [] = Inr []"
| "run_images person (im # ims) =
     bind_res (base64_decode (snd im) True) (\<lambda>decoded.
       let r = person decoded (fst im) in bind_res (run_images person ims) (\<lambda>rs. Inr (r # rs)))"

text \<open>The reply both routes make: append, status, two headers.\<close>

definition json_reply :: "string \<Rightarrow> reply \<Rightarrow> reply" where
  "json_reply body rep =
     (let content' = content rep @ body
      in \<lparr>status = Ok,
          rp_headers = [\<lparr>hname = ''Content-Length'', hvalue = dec (length content')\<rparr>,
                        \<lparr>hname = ''Content-Type'', hvalue = extension_to_type ''json''\<rparr>],
          content = content'\<rparr>)"

text \<open>From the images on: run the pipeline on each, combine, store, reply.\<close>

definition predict_images ::
  "'db services \<Rightarrow> umap \<Rightarrow> reply \<Rightarrow> 'db world \<Rightarrow> (reply \<times> 'db world) result"
where
  "predict_images sv images rep w =
     bind_res (run_images (person_run sv) (iter sv images)) (\<lambda>results.
       bind_res (combineJsonResults results) (\<lambda>stringReplyData.
         bind_res (store_result (hset sv) stringReplyData w) (\<lambda>w'.
           Inr (json_reply stringReplyData rep, w'))))"

definition handle_predict ::
  "'db services \<Rightarrow> request \<Rightarrow> reply \<Rightarrow> 'db world \<Rightarrow> (reply \<times> 'db world) result"
where
  "handle_predict sv req rep w =
     bind_res (find_boundary (rq_headers req) '''') (\<lambda>bo.
       case bo of
         None \<Rightarrow> Inr (stock_reply Bad_request, w)
       | Some boundary \<Rightarrow>
           (if boundary = '''' then Inr (stock_reply Bad_request, w)
            else
              bind_res (retrieveImages boundary (jsonData req)) (\<lambda>ro.
                case ro of
                  None \<Rightarrow> Inr (stock_reply Bad_request, w)
                | Some images \<Rightarrow> predict_images sv images rep w)))"

definition handle_history ::
  "'db services \<Rightarrow> reply \<Rightarrow> 'db world \<Rightarrow> (reply \<times> 'db world) result"
where
  "handle_history sv rep w =
     bind_res (getAll (hgetall sv) w) (\<lambda>(history, w').
       Inr (json_reply (concat (map snd (iter sv history))) rep, w'))"

definition handle_request ::
  "'db services \<Rightarrow> request \<Rightarrow> reply \<Rightarrow> 'db world \<Rightarrow> (reply \<times> 'db world) result"
where
  "handle_request sv req rep w =
     (case url_decode (uri req) of
        None \<Rightarrow> Inr (stock_reply Bad_request, w)
      | Some request_path \<Rightarrow>
          (if request_path = [] \<or> request_path ! 0 \<noteq> CHR ''/'' \<or> str_find request_path ''..'' 0 \<noteq> None
           then Inr (stock_reply Bad_request, w)
           else if request_path = ''/predict'' then handle_predict sv req rep w
           else if request_path = ''/history'' then handle_history sv rep w
           else Inr (stock_reply Bad_request, w)))"

section \<open>URL encoding\<close>

text \<open>The encoder a client may use: characters outside \<open>P\<close> as \<open>%\<close> and two hexadecimal digits.\<close>

definition hex_char :: "nat \<Rightarrow> char" where
  "hex_char d = ''0123456789ABCDEF'' ! d"

definition url_encode :: "(char \<Rightarrow> bool) \<Rightarrow> string \<Rightarrow> string" where
  "url_encode P s =
     concat (map (\<lambda>c. if P c then [c] else [CHR ''%'', hex_char (uchar c div 16), hex_char (uchar c mod 16)]) s)"

lemma hex_char_facts:
  assumes "d < 16"
  shows "hex_digit (hex_char d) = Some d" and "\<not> is_space_char (hex_char d)"
    and "hex_char d \<noteq> CHR ''-''" and "hex_char d \<noteq> CHR ''+''"
    and "hex_char d \<noteq> CHR ''x''" and "hex_char d \<noteq> CHR ''X''"
proof -
  have "\<forall>d\<in>set [0..<16]. hex_digit (hex_char d) = Some d \<and> \<not> is_space_char (hex_char d) \<and>
    hex_char d \<noteq> CHR ''-'' \<and> hex_char d \<noteq> CHR ''+'' \<and> hex_char d \<noteq> CHR ''x'' \<and> hex_char d \<noteq> CHR ''X''"
    by code_simp
  then show "hex_digit (hex_char d) = Some d" "\<not> is_space_char (hex_char d)"
    "hex_char d \<noteq> CHR ''-''" "hex_char d \<noteq> CHR ''+''" "hex_char d \<noteq> CHR ''x''" "hex_char d \<noteq> CHR ''X''"
    using assms by auto
qed

lemma scan_hex_pair: "a < 16 \<Longrightarrow> b < 16 \<Longrightarrow> scan_hex [hex_char a, hex_char b] = Some (int (16 * a + b))"
  by (simp add: scan_hex_def hex_char_facts)

lemma scan_hex_byte: "scan_hex [hex_char (uchar c div 16), hex_char (uchar c mod 16)] = Some (int (uchar c))"
proof -
  have "uchar c div 16 < 16" using uchar_less [of c] by linarith
  then show ?thesis by (simp add: scan_hex_pair)
qed

lemma char_of_int_uchar: "char_of_int (int (uchar c)) = c"
proof -
  have "int (uchar c) mod 256 = int (uchar c)" using uchar_less [of c] by simp
  then show ?thesis by (simp only: char_of_int_def nat_int char_of_uchar)
qed

text \<open>
  C35: a path in which \<open>%\<close>, \<open>+\<close> and any other characters have been percent-encoded is decoded to
  itself.
\<close>
theorem url_decode_encode:
  assumes "\<not> P CHR ''%''" and "\<not> P CHR ''+''"
  shows "url_decode (url_encode P s) = Some s"
proof (induction s)
  case Nil
  then show ?case by (simp add: url_encode_def)
next
  case (Cons c s)
  with assms show ?case
    by (auto simp: url_encode_def scan_hex_byte char_of_int_uchar)
qed

theorem url_decode_encode_witness:
  "url_decode (url_encode (\<lambda>c. c = CHR ''/'' \<or> c = CHR ''a'') ''/a b%'') = Some ''/a b%''"
  by (rule url_decode_encode) simp_all

section \<open>The searches\<close>

lemma find_pred_takeWhile:
  "find_pred P s = (if \<exists>c\<in>set s. P c then Some (length (takeWhile (\<lambda>c. \<not> P c) s)) else None)"
  by (induction s) auto

lemma take_Suc_takeWhile:
  "take (Suc (length (takeWhile Q b))) b = takeWhile Q b @ take 1 (dropWhile Q b)"
  by (induction b) auto

lemma sz_window:
  assumes "x + n < 2 ^ 63"
  shows "sz_sub (x + n) x = n" and "sz_add (sz_sub (x + n) x) 1 = Suc n"
  using assms by (simp_all add: sz_add_def)

text \<open>
  C34: the boundary runs up to and including the first \<open>/\<close>, \<open>r\<close>, blank or \<open>;\<close> after \<open>boundary=\<close>, to
  the end when there is none.
\<close>
theorem boundary_result:
  assumes "fits (pre @ ''boundary='' @ b)"
    and "find_sub ''boundary='' (pre @ ''boundary='' @ b) = Some (length pre)"
  shows "retrieveMultipartBoundary (pre @ ''boundary='' @ b) =
    Inr (Some (takeWhile (\<lambda>c. c \<notin> set ''/r ;'') b @ take 1 (dropWhile (\<lambda>c. c \<notin> set ''/r ;'') b)))"
proof -
  define s where "s = pre @ ''boundary='' @ b"
  define Q where "Q = (\<lambda>c. c \<notin> set ''/r ;'')"
  define n where "n = length pre + 9"
  let ?e = "case find_first_of s ''/r ;'' n of None \<Rightarrow> length s | Some e \<Rightarrow> e"
  have drop: "drop n s = b" and len: "length s = n + length b" by (simp_all add: s_def n_def)
  have lt: "n + length b < 2 ^ 63" using assms(1) by (simp add: fits_def n_def)
  have "find_first_of s ''/r ;'' n = map_option ((+) n) (find_pred (\<lambda>c. \<not> Q c) b)"
    unfolding find_first_of_def Q_def by (simp only: drop len not_not le_add1 if_True)
  moreover have "length (takeWhile Q b) = length b" if "Ball (set b) Q"
    using that takeWhile_eq_all_conv [of Q b] by metis
  ultimately have e: "?e = n + length (takeWhile Q b)"
    by (auto simp: find_pred_takeWhile len)
  have "length (takeWhile Q b) \<le> length b" by (rule length_takeWhile_le)
  then have "sz_add (sz_sub ?e n) 1 = Suc (length (takeWhile Q b))"
    unfolding e using lt by (intro sz_window(2)) linarith
  moreover have "find_sub ''boundary='' s = Some (length pre)" unfolding s_def by (rule assms(2))
  ultimately have "retrieveMultipartBoundary s = Inr (Some (take (Suc (length (takeWhile Q b))) b))"
    using len
    by (simp add: retrieveMultipartBoundary_def str_find_0 n_def [symmetric]
        substr_def drop Let_def del: One_nat_def)
  then show ?thesis unfolding take_Suc_takeWhile unfolding s_def Q_def .
qed

theorem boundary_result_witness:
  "retrieveMultipartBoundary ''multipart/form-data; boundary=our;x'' = Inr (Some ''our'')"
  using boundary_result [of "''multipart/form-data; ''" "''our;x''"] by (simp add: fits_def)

section \<open>Exceptions\<close>

lemma substr_defined: "i \<le> length s \<Longrightarrow> substr s i n = Inr (take n (drop i s))"
  by (simp add: substr_def)

lemma str_find_defined: "str_find s pat 0 = Some i \<Longrightarrow> k \<le> length pat \<Longrightarrow> substr s (i + k) n \<noteq> Inl e"
  using str_find_Some_bound [of s pat 0 i] by (simp add: substr_defined)

lemma retrieveMultipartBoundary_defined: "retrieveMultipartBoundary s \<noteq> Inl e"
  using str_find_defined [of s "''boundary=''" _ 9]
  by (auto simp: retrieveMultipartBoundary_def Let_def res_simps split: option.split)

lemma retrieveFilename_defined: "retrieveFilenameFromMultiPartMessage s \<noteq> Inl e"
  using str_find_defined [of s "''filename='' @ [DQ]" _ 10]
  by (auto simp: retrieveFilenameFromMultiPartMessage_def Let_def res_simps split: option.split)

lemma retrieveImage_defined: "retrieveImageFromMultiPartMessage s \<noteq> Inl e"
  using str_find_defined [of s "CRLF @ CRLF" _ 4]
  by (auto simp: retrieveImageFromMultiPartMessage_def Let_def res_simps split: option.split)

lemmas retrieve_defined = retrieveMultipartBoundary_defined retrieveFilename_defined retrieveImage_defined

lemma add_part_defined: "add_part part out \<noteq> Inl e"
  by (auto simp: add_part_def res_simps retrieve_defined split: option.splits)

lemma images_loop_defined: "cur \<le> length s \<Longrightarrow> images_loop b s cur out \<noteq> Inl e"
proof (induction b s cur out rule: images_loop.induct)
  case (1 b s cur out)
  note IH = "1.IH"
  show ?case
  proof (cases "str_find s (boundary_rn b) cur")
    case None
    then show ?thesis
      using 1(2) add_part_defined by (subst images_loop.simps) (simp add: substr_defined)
  next
    case (Some p)
    then have "p + length (boundary_rn b) \<le> length s" using str_find_Some_bound by blast
    then show ?thesis
      using 1(2) IH [OF Some] Some add_part_defined
      by (subst images_loop.simps) (auto simp: substr_defined res_simps split: option.splits)
  qed
qed

lemma retrieveImages_defined: "retrieveImages b s \<noteq> Inl e"
  by (auto simp: retrieveImages_def split: option.split dest!: str_find_Some_bound
      intro!: images_loop_defined notI elim!: notE)

lemma find_boundary_defined: "find_boundary hs b \<noteq> Inl e"
  by (induction hs arbitrary: b) (auto simp: res_simps retrieve_defined split: option.splits)

lemma thrown_Inl: "thrown x = Inl e \<Longrightarrow> e = Literal_thrown b64_literal"
  by (cases x) auto

lemma run_images_Inl: "run_images person ims = Inl e \<Longrightarrow> e = Literal_thrown b64_literal"
  by (induction ims) (auto simp: res_simps Let_def base64_decode_thrown dest: thrown_Inl)

lemma run_images_Inr: "run_images person ims = Inr rs \<Longrightarrow> r \<in> set rs \<Longrightarrow> \<exists>d n. r = person d n"
proof (induction ims arbitrary: rs)
  case (Cons im ims)
  then show ?case by (auto simp: res_simps Let_def) blast
qed simp

section \<open>Combined results\<close>

text \<open>A result of the pipeline, and the combined text: an object between braces on lines of their own.\<close>

definition json_object :: "string \<Rightarrow> string" where
  "json_object x = ''{'' @ [LF] @ x @ ''}'' @ [LF]"

lemma inner_results_Inl: "inner_results rs = Inl e \<longleftrightarrow> e = Out_of_range \<and> (\<exists>r\<in>set rs. length r < 2)"
  by (induction rs) (auto simp: res_simps substr_def)

lemma combine_json_objects:
  assumes "\<forall>x\<in>set xs. fits (json_object x)"
  shows "combineJsonResults (map json_object xs) = Inr (json_object (concat xs))"
proof -
  have one: "substr (json_object x) 2 (sz_sub (length (json_object x)) 4) = Inr x" if "fits (json_object x)" for x
  proof -
    have "sz_sub (length (json_object x)) 4 = length x"
      using that by (subst sz_sub_le) (simp_all add: fits_def json_object_def)
    then show ?thesis by (simp add: substr_def json_object_def)
  qed
  have "inner_results (map json_object xs) = Inr (concat xs)"
    using assms by (induction xs) (simp_all add: one)
  then show ?thesis by (simp add: combineJsonResults_def json_object_def)
qed

text \<open>
  The results of the images are combined to one object that holds their members one after the
  other (with nothing between them).
\<close>
lemma combine_results:
  assumes "\<forall>x\<in>set xs. fits (json_object x)"
  shows "combineJsonResults (map json_object xs) = Inr (json_object (concat xs))"
  by (rule combine_json_objects [OF assms])

lemma combine_results_witness:
  "combineJsonResults (map json_object [''ab'', ''c'']) = Inr (json_object (concat [''ab'', ''c'']))"
  by (rule combine_results) (simp add: fits_def json_object_def)

text \<open>
  Combining throws exactly when some image has a result of less than two characters, as the empty
  one the pipeline returns for an image without a person or one it cannot decode.
\<close>
theorem combine_throws:
  "combineJsonResults rs = Inl e \<longleftrightarrow> e = Out_of_range \<and> (\<exists>r\<in>set rs. length r < 2)"
  by (simp add: combineJsonResults_def res_simps inner_results_Inl)

section \<open>What \<open>handle_request\<close> promises\<close>

lemma store_result_Inl:
  assumes "redis_hash contents hs hg" and "store_result hs j w = Inl e"
  shows "e = Redis_error"
  using assms by (auto simp: store_result_def save_def res_simps redis_hash_def Let_def split: prod.splits)

lemma getAll_Inl: "redis_hash contents hs hg \<Longrightarrow> getAll hg w = Inl e \<Longrightarrow> e = Redis_error"
  by (auto simp: getAll_def res_simps redis_hash_def Let_def split: prod.splits)

lemma handle_predict_cases:
  "handle_predict sv req rep w = Inr (stock_reply Bad_request, w) \<or>
   (\<exists>boundary images. find_boundary (rq_headers req) '''' = Inr (Some boundary) \<and> boundary \<noteq> [] \<and>
      retrieveImages boundary (jsonData req) = Inr (Some images) \<and>
      handle_predict sv req rep w = predict_images sv images rep w)"
proof -
  obtain bo where bo: "find_boundary (rq_headers req) '''' = Inr bo"
    using find_boundary_defined by (cases "find_boundary (rq_headers req) ''''") auto
  show ?thesis
  proof (cases bo)
    case (Some boundary)
    obtain ro where ro: "retrieveImages boundary (jsonData req) = Inr ro"
      using retrieveImages_defined by (cases "retrieveImages boundary (jsonData req)") auto
    show ?thesis using bo ro Some by (cases ro) (simp_all add: handle_predict_def)
  qed (use bo in \<open>simp add: handle_predict_def\<close>)
qed

lemma decoded_route:
  "url_decode (uri req) = Some ''/predict'' \<Longrightarrow> handle_request sv req rep w = handle_predict sv req rep w"
  "url_decode (uri req) = Some ''/history'' \<Longrightarrow> handle_request sv req rep w = handle_history sv rep w"
proof -
  have "find_sub ''..'' ''/predict'' = None" "find_sub ''..'' ''/history'' = None" by simp_all
  then show "url_decode (uri req) = Some ''/predict'' \<Longrightarrow> handle_request sv req rep w = handle_predict sv req rep w"
    "url_decode (uri req) = Some ''/history'' \<Longrightarrow> handle_request sv req rep w = handle_history sv rep w"
    by (simp_all add: handle_request_def str_find_0)
qed

lemma other_route:
  "url_decode (uri req) \<noteq> Some ''/predict'' \<Longrightarrow> url_decode (uri req) \<noteq> Some ''/history'' \<Longrightarrow>
    handle_request sv req rep w = Inr (stock_reply Bad_request, w)"
  by (auto simp: handle_request_def split: option.split)

text \<open>The images a request brings to the pipeline: those of a prediction whose multipart body could be read.\<close>

definition posted_images :: "request \<Rightarrow> umap option" where
  "posted_images req =
     (if url_decode (uri req) \<noteq> Some ''/predict'' then None
      else case find_boundary (rq_headers req) '''' of
        Inr (Some boundary) \<Rightarrow>
          (if boundary = '''' then None
           else case retrieveImages boundary (jsonData req) of Inr images \<Rightarrow> images | Inl _ \<Rightarrow> None)
      | _ \<Rightarrow> None)"

text \<open>An image the base64 decoder throws on, and what the pipeline makes of one it decodes.\<close>

definition undecodable :: "string \<times> string \<Rightarrow> bool" where
  "undecodable im \<longleftrightarrow> (case base64_decode (snd im) True of Inl _ \<Rightarrow> True | Inr _ \<Rightarrow> False)"

definition image_result :: "'db services \<Rightarrow> string \<times> string \<Rightarrow> string" where
  "image_result sv im = (case base64_decode (snd im) True of Inr b \<Rightarrow> person_run sv b (fst im) | Inl _ \<Rightarrow> [])"

lemma run_images_cases:
  "run_images (person_run sv) ims =
     (if \<exists>im\<in>set ims. undecodable im then Inl (Literal_thrown b64_literal) else Inr (map (image_result sv) ims))"
proof (induction ims)
  case (Cons im ims)
  show ?case
  proof (cases "base64_decode (snd im) True")
    case (Inl e)
    then have "e = Literal_thrown b64_literal" using run_images_Inl [of undefined "[im]" e] by simp
    with Inl show ?thesis by (simp add: undecodable_def)
  qed (use Cons in \<open>auto simp: undecodable_def image_result_def Let_def\<close>)
qed simp

lemma predict_images_Inl:
  "predict_images sv images rep w = Inl e \<longleftrightarrow>
     (if \<exists>im\<in>set (iter sv images). undecodable im then e = Literal_thrown b64_literal
      else if \<exists>im\<in>set (iter sv images). length (image_result sv im) < 2 then e = Out_of_range
      else \<exists>json. combineJsonResults (map (image_result sv) (iter sv images)) = Inr json \<and>
        hset sv (db w) ''history'' (dec (unat (ctr w))) json = Inl e)"
proof -
  have store: "store_result (hset sv) j w = Inl e \<longleftrightarrow>
      hset sv (db w) ''history'' (dec (unat (ctr w))) j = Inl e" for j
    by (cases "inst w")
       (simp_all add: store_result_def save_def generateHandle_def getInstance_def new_impl_def
         impl_generateHandle_def ctr_def
         res_simps Let_def)
  let ?rs = "map (image_result sv) (iter sv images)"
  have "combineJsonResults ?rs = Inl f \<longleftrightarrow> f = Out_of_range \<and> (\<exists>im\<in>set (iter sv images). length (image_result sv im) < 2)" for f
    by (simp add: combineJsonResults_def res_simps inner_results_Inl)
  then show ?thesis
    by (cases "combineJsonResults ?rs")
       (auto simp: predict_images_def run_images_cases store res_simps)
qed

lemma handle_predict_Inl:
  assumes "url_decode (uri req) = Some ''/predict''"
  shows "handle_predict sv req rep w = Inl e \<longleftrightarrow>
    (\<exists>images. posted_images req = Some images \<and> predict_images sv images rep w = Inl e)"
  using assms find_boundary_defined retrieveImages_defined
  by (auto simp: handle_predict_def posted_images_def res_simps split: sum.splits option.splits)

lemma handle_history_Inl: "handle_history sv rep w = Inl e \<longleftrightarrow> hgetall sv (db w) ''history'' = Inl e"
  by (cases "inst w") (auto simp: handle_history_def getAll_def getInstance_def res_simps Let_def)

lemma handle_request_Inl_iff:
  "handle_request sv req rep w = Inl e \<longleftrightarrow>
     url_decode (uri req) = Some ''/history'' \<and> hgetall sv (db w) ''history'' = Inl e \<or>
     (\<exists>images. posted_images req = Some images \<and> predict_images sv images rep w = Inl e)"
proof (cases "url_decode (uri req) = Some ''/predict''")
  case True
  then show ?thesis by (simp add: decoded_route handle_predict_Inl)
next
  case False
  then have "posted_images req = None" by (simp add: posted_images_def)
  with False show ?thesis
    by (cases "url_decode (uri req) = Some ''/history''")
       (simp_all add: decoded_route handle_history_Inl other_route)
qed

text \<open>
  C31: exactly what is thrown out of \<open>handle_request\<close>. A history request throws what reading the records
  throws. A prediction whose images could be read throws the string literal of the base64 decoder when one
  of these images cannot be decoded; otherwise \<open>std::out_of_range\<close> when the pipeline answered one of them
  with less than two characters (as it does for an image without a person); otherwise what storing the
  combined result under the next handle throws. No other request throws.
\<close>
theorem handle_exceptions:
  "handle_request sv req rep w = Inl e \<longleftrightarrow>
     url_decode (uri req) = Some ''/history'' \<and> hgetall sv (db w) ''history'' = Inl e \<or>
     (\<exists>images. posted_images req = Some images \<and>
       (if \<exists>im\<in>set (iter sv images). undecodable im then e = Literal_thrown b64_literal
        else if \<exists>im\<in>set (iter sv images). length (image_result sv im) < 2 then e = Out_of_range
        else \<exists>json. combineJsonResults (map (image_result sv) (iter sv images)) = Inr json \<and>
          hset sv (db w) ''history'' (dec (unat (ctr w))) json = Inl e))"
  unfolding handle_request_Inl_iff predict_images_Inl ..

lemma handle_request_Inl:
  assumes "redis_hash contents (hset sv) (hgetall sv)" and "handle_request sv req rep w = Inl e"
  shows "e = Redis_error \<or> e = Literal_thrown b64_literal \<or> e = Out_of_range"
  using assms by (auto simp: handle_request_Inl_iff predict_images_Inl redis_hash_def split: if_splits)

text \<open>
  A request whose URL does not decode to one of the two routes (so every relative path and every
  path with \<open>..\<close> in it) gets the stock reply 400 and changes nothing.
\<close>
theorem unknown_route:
  assumes "\<forall>path \<in> {''/predict'', ''/history''}. url_decode (uri req) \<noteq> Some path"
  shows "handle_request sv req rep w = Inr (stock_reply Bad_request, w)"
  by (rule other_route) (use assms in simp_all)

theorem unknown_route_witness:
  "handle_request \<lparr>hset = mem_hset, hgetall = mem_hgetall, person_run = (\<lambda>d n. ''''), iter = (\<lambda>m. m)\<rparr>
     \<lparr>req_method = ''GET'', uri = ''/%2e%2e/x'', http_version_major = 1, http_version_minor = 0,
       rq_headers = [], jsonData = ''''\<rparr> \<lparr>status = Ok, rp_headers = [], content = ''''\<rparr> \<lparr>inst = None, db = []\<rparr>
   = Inr (stock_reply Bad_request, \<lparr>inst = None, db = []\<rparr>)"
  by (rule unknown_route) code_simp

text \<open>What a JSON reply of the handler looks like.\<close>

definition json_headers :: "reply \<Rightarrow> bool" where
  "json_headers rep \<longleftrightarrow> status rep = Ok \<and> rp_headers rep =
     [\<lparr>hname = ''Content-Length'', hvalue = dec (length (content rep))\<rparr>,
      \<lparr>hname = ''Content-Type'', hvalue = ''application/json''\<rparr>]"

lemma json_type: "extension_to_type ''json'' = ''application/json''"
  by code_simp

lemma json_reply_headers: "json_headers (json_reply body rep)"
  by (simp add: json_headers_def json_reply_def Let_def json_type)

lemma json_reply_content: "content (json_reply body rep) = content rep @ body"
  by (simp add: json_reply_def Let_def)

lemma handle_request_Inr:
  assumes "redis_hash contents (hset sv) (hgetall sv)" and "content rep = []"
    and "handle_request sv req rep w = Inr (rep', w')"
  shows "rep' = stock_reply Bad_request \<and> w' = w \<or>
    url_decode (uri req) = Some ''/predict'' \<and> json_headers rep' \<and> ctr w' = ctr w + 1 \<and>
      contents (db w') = (contents (db w))
        (''history'' := (contents (db w) ''history'')(dec (unat (ctr w)) \<mapsto> content rep')) \<or>
    url_decode (uri req) = Some ''/history'' \<and> json_headers rep' \<and> ctr w' = ctr w \<and> db w' = db w"
proof (cases "rep' = stock_reply Bad_request \<and> w' = w")
  case False
  then consider "url_decode (uri req) = Some ''/predict''" "handle_predict sv req rep w = Inr (rep', w')"
    | "url_decode (uri req) = Some ''/history''" "handle_history sv rep w = Inr (rep', w')"
    using other_route [of req sv rep w] decoded_route [of req sv rep w] assms(3) by fastforce
  then show ?thesis
  proof cases
    case 1
    then obtain images where "predict_images sv images rep w = Inr (rep', w')"
      using handle_predict_cases [of sv req rep w] False by auto
    then obtain j where j: "store_result (hset sv) j w = Inr w'" and r: "rep' = json_reply j rep"
      by (auto simp: predict_images_def res_simps)
    have c: "content rep' = j" using r assms(2) by (simp add: json_reply_content)
    show ?thesis
      using 1(1) store_result_Inr [OF assms(1) j] json_reply_headers [of j rep] unfolding r [symmetric] c
      by blast
  next
    case 2
    then have "json_headers rep' \<and> ctr w' = ctr w \<and> db w' = db w"
      by (auto simp: handle_history_def getAll_def getInstance_def res_simps json_reply_headers new_impl_def
          ctr_def split: option.splits prod.splits)
    with 2 show ?thesis by blast
  qed
qed simp

text \<open>
  C24: every reply of the handler is the stock reply 400, with nothing changed, or a 200 with the exact
  Content-Length and the JSON type; a prediction has then added its body to the history as one record,
  under the next handle, and a history request has changed neither the records nor the counter.
\<close>
theorem handle_reply:
  assumes "redis_hash contents (hset sv) (hgetall sv)" and "content rep = []"
    and "handle_request sv req rep w = Inr (rep', w')"
  shows "rep' = stock_reply Bad_request \<and> w' = w \<or>
    url_decode (uri req) = Some ''/predict'' \<and> json_headers rep' \<and> ctr w' = ctr w + 1 \<and>
      contents (db w') = (contents (db w))
        (''history'' := (contents (db w) ''history'')(dec (unat (ctr w)) \<mapsto> content rep')) \<or>
    url_decode (uri req) = Some ''/history'' \<and> json_headers rep' \<and> ctr w' = ctr w \<and> db w' = db w"
  by (rule handle_request_Inr [OF assms])

lemma small_history_request:
  "handle_request \<lparr>hset = mem_hset, hgetall = mem_hgetall, person_run = (\<lambda>d n. ''''), iter = (\<lambda>m. m)\<rparr>
     \<lparr>req_method = ''GET'', uri = ''/history'', http_version_major = 1, http_version_minor = 0,
       rq_headers = [], jsonData = ''''\<rparr> \<lparr>status = Ok, rp_headers = [], content = ''''\<rparr>
     \<lparr>inst = None, db = [(''history'', [(''0'', ''a''), (''1'', ''b'')])]\<rparr>
   = Inr (\<lparr>status = Ok, rp_headers = [\<lparr>hname = ''Content-Length'', hvalue = ''2''\<rparr>,
            \<lparr>hname = ''Content-Type'', hvalue = ''application/json''\<rparr>], content = ''ab''\<rparr>,
          \<lparr>inst = Some \<lparr>m_ctr = 0\<rparr>, db = [(''history'', [(''0'', ''a''), (''1'', ''b'')])]\<rparr>)"
  by code_simp

theorem handle_reply_witness:
  "let w = \<lparr>inst = None, db = [(''history'', [(''0'', ''a''), (''1'', ''b'')])]\<rparr>;
       w' = \<lparr>inst = Some \<lparr>m_ctr = 0\<rparr>, db = [(''history'', [(''0'', ''a''), (''1'', ''b'')])]\<rparr>;
       rep' = \<lparr>status = Ok, rp_headers = [\<lparr>hname = ''Content-Length'', hvalue = ''2''\<rparr>,
            \<lparr>hname = ''Content-Type'', hvalue = ''application/json''\<rparr>], content = ''ab''\<rparr>
   in rep' = stock_reply Bad_request \<and> w' = w \<or>
    url_decode ''/history'' = Some ''/predict'' \<and> json_headers rep' \<and> ctr w' = ctr w + 1 \<and>
      mem_contents (db w') = (mem_contents (db w))
        (''history'' := (mem_contents (db w) ''history'')(dec (unat (ctr w)) \<mapsto> content rep')) \<or>
    url_decode ''/history'' = Some ''/history'' \<and> json_headers rep' \<and> ctr w' = ctr w \<and> db w' = db w"
  using handle_reply [OF _ _ small_history_request, of mem_contents] mem_redis_hash by (simp add: Let_def)

lemma permuted_map:
  assumes "distinct (map fst m)" and "mset m' = mset m"
  shows "distinct (map fst m') \<and> map_of m' = map_of m"
proof -
  have "mset (map fst m') = mset (map fst m)" using assms(2) by (simp only: mset_map)
  then have d: "distinct (map fst m')" using assms(1) by (metis mset_eq_imp_distinct_iff)
  have "set m' = set m" using assms(2) by (metis set_mset_mset)
  with map_of_inject_set [OF d assms(1)] d show ?thesis by simp
qed

lemma history_records:
  assumes "redis_hash contents (hset sv) (hgetall sv)" and "\<forall>m. mset (iter sv m) = mset m"
    and "content rep = []" and "url_decode (uri req) = Some ''/history''"
    and "handle_request sv req rep w = Inr (rep', w')"
  shows "\<exists>kvs. distinct (map fst kvs) \<and> map_of kvs = contents (db w) ''history'' \<and>
    content rep' = concat (map snd kvs)"
proof -
  obtain m where m: "getAll (hgetall sv) w = Inr (m, w')" and r: "content rep' = concat (map snd (iter sv m))"
    using assms(3) assms(5) [unfolded decoded_route(2) [OF assms(4)]]
    by (auto simp: handle_history_def res_simps json_reply_content split: prod.splits)
  note facts = getAll_Inr [OF assms(1) m]
  show ?thesis using permuted_map [OF facts(2) assms(2) [rule_format]] r facts(1) by metis
qed

text \<open>
  The body of a history reply is the stored records one after the other, each record once, in the
  order in which the hash map is iterated.
\<close>
theorem history_lists:
  assumes "redis_hash contents (hset sv) (hgetall sv)" and "\<forall>m. mset (iter sv m) = mset m"
    and "content rep = []" and "url_decode (uri req) = Some ''/history''"
    and "handle_request sv req rep w = Inr (rep', w')"
  shows "\<exists>kvs. distinct (map fst kvs) \<and> map_of kvs = contents (db w) ''history'' \<and>
    content rep' = concat (map snd kvs)"
  by (rule history_records [OF assms])

theorem history_lists_witness:
  "\<exists>kvs. distinct (map fst kvs) \<and>
    map_of kvs = mem_contents [(''history'', [(''0'', ''a''), (''1'', ''b'')])] ''history'' \<and>
    ''ab'' = concat (map snd kvs)"
proof -
  have "url_decode ''/history'' = Some ''/history''" by code_simp
  with history_lists [OF _ _ _ _ small_history_request, of mem_contents] mem_redis_hash
  show ?thesis by simp
qed

end
