(* ===== verification/RequestParser.thy ===== *)
theory RequestParser
  imports Http Interfaces
begin

text \<open>
  \<open>request_parser.hpp\<close>/\<open>request_parser.cpp\<close>: the parser that consumes a request one byte at a time.
  Its state is the enumeration of the source; the members \<open>state_\<close>, \<open>contentLength\<close>,
  \<open>expectedContentLength\<close> and \<open>contentCtr\<close> are the record \<open>parser\<close>. The request under construction
  is passed along. \<open>consume\<close> is split by the part of the request it is in; \<open>headers.back()\<close> of an
  empty vector and the exceptions of \<open>std::stoul\<close> are values of the model. The version numbers are
  \<open>int\<close>, whose arithmetic wraps (the build sets \<open>-fwrapv\<close>).
\<close>

section \<open>Character classes\<close>

definition is_char :: "int \<Rightarrow> bool" where
  "is_char c \<longleftrightarrow> 0 \<le> c \<and> c \<le> 127"

definition is_ctl :: "int \<Rightarrow> bool" where
  "is_ctl c \<longleftrightarrow> (0 \<le> c \<and> c \<le> 31) \<or> c = 127"

definition tspecials :: string where
  "tspecials = ''()<>@,;:'' @ [CHR 0x5C, DQ] @ ''/[]?={} '' @ [TAB]"

definition is_tspecial :: "int \<Rightarrow> bool" where
  "is_tspecial c \<longleftrightarrow> c \<in> set (map schar tspecials)"

definition is_digit :: "int \<Rightarrow> bool" where
  "is_digit c \<longleftrightarrow> 48 \<le> c \<and> c \<le> 57"

section \<open>The parser's state\<close>

datatype parse_state =
    Method_start
  | Method
  | Uri
  | Http_version_h
  | Http_version_t_1
  | Http_version_t_2
  | Http_version_p
  | Http_version_slash
  | Http_version_major_start
  | Http_version_major
  | Http_version_minor_start
  | Http_version_minor
  | Expecting_newline_1
  | Header_line_start
  | Header_lws
  | Header_name
  | Space_before_header_value
  | Header_value
  | Expecting_newline_2
  | Expecting_newline_3
  | Body_content_normal
  | Body_content_expect_newline

record parser =
  pstate :: parse_state
  contentLength :: nat
  expectedContentLength :: nat
  contentCtr :: nat

definition request_parser :: parser where
  "request_parser =
     \<lparr>pstate = Method_start, contentLength = 0, expectedContentLength = 0, contentCtr = 0\<rparr>"

definition reset :: "parser \<Rightarrow> parser" where
  "reset p = p\<lparr>pstate := Method_start\<rparr>"

type_synonym consumed = "((request \<times> parser) \<times> tribool) result"

text \<open>\<open>return false\<close>, and \<open>return indeterminate\<close> after a state change.\<close>

definition reject :: "request \<Rightarrow> parser \<Rightarrow> consumed" where
  "reject req p = Inr ((req, p), TFalse)"

definition continue :: "request \<Rightarrow> parser \<Rightarrow> parse_state \<Rightarrow> consumed" where
  "continue req p st = Inr ((req, p\<lparr>pstate := st\<rparr>), Indeterminate)"

text \<open>\<open>v * 10 + input - '0'\<close> in the wrapping \<open>int\<close> arithmetic of the build, from left to right.\<close>

definition digit_in :: "int \<Rightarrow> char \<Rightarrow> int" where
  "digit_in v c = wrap_int (wrap_int (wrap_int (v * 10) + schar c) - 48)"

text \<open>\<open>headers.back()\<close> updated; undefined on an empty vector.\<close>

definition update_back :: "(header \<Rightarrow> header) \<Rightarrow> request \<Rightarrow> request result" where
  "update_back f req =
     (if rq_headers req = [] then Inl Undefined_behaviour
      else Inr (req\<lparr>rq_headers := butlast (rq_headers req) @ [f (last (rq_headers req))]\<rparr>))"

section \<open>The request line\<close>

definition bad_token_char :: "char \<Rightarrow> bool" where
  "bad_token_char c \<longleftrightarrow> \<not> is_char (schar c) \<or> is_ctl (schar c) \<or> is_tspecial (schar c)"

fun consume_request_line :: "parse_state \<Rightarrow> request \<Rightarrow> parser \<Rightarrow> char \<Rightarrow> consumed" where
  "consume_request_line Method_start req p c =
     (if bad_token_char c then reject req p
      else continue (req\<lparr>req_method := req_method req @ [c]\<rparr>) p Method)"
| "consume_request_line Method req p c =
     (if c = CHR '' '' then continue req p Uri
      else if bad_token_char c then reject req p
      else continue (req\<lparr>req_method := req_method req @ [c]\<rparr>) p Method)"
| "consume_request_line Uri req p c =
     (if c = CHR '' '' then continue req p Http_version_h
      else if is_ctl (schar c) then reject req p
      else continue (req\<lparr>uri := uri req @ [c]\<rparr>) p Uri)"
| "consume_request_line Http_version_h req p c =
     (if c = CHR ''H'' then continue req p Http_version_t_1 else reject req p)"
| "consume_request_line Http_version_t_1 req p c =
     (if c = CHR ''T'' then continue req p Http_version_t_2 else reject req p)"
| "consume_request_line Http_version_t_2 req p c =
     (if c = CHR ''T'' then continue req p Http_version_p else reject req p)"
| "consume_request_line Http_version_p req p c =
     (if c = CHR ''P'' then continue req p Http_version_slash else reject req p)"
| "consume_request_line Http_version_slash req p c =
     (if c = CHR ''/''
      then continue (req\<lparr>http_version_major := 0, http_version_minor := 0\<rparr>) p
             Http_version_major_start
      else reject req p)"
| "consume_request_line Http_version_major_start req p c =
     (if is_digit (schar c)
      then continue (req\<lparr>http_version_major := digit_in (http_version_major req) c\<rparr>) p
             Http_version_major
      else reject req p)"
| "consume_request_line Http_version_major req p c =
     (if c = CHR ''.'' then continue req p Http_version_minor_start
      else if is_digit (schar c)
      then continue (req\<lparr>http_version_major := digit_in (http_version_major req) c\<rparr>) p
             Http_version_major
      else reject req p)"
| "consume_request_line Http_version_minor_start req p c =
     (if is_digit (schar c)
      then continue (req\<lparr>http_version_minor := digit_in (http_version_minor req) c\<rparr>) p
             Http_version_minor
      else reject req p)"
| "consume_request_line Http_version_minor req p c =
     (if c = CR then continue req p Expecting_newline_1
      else if is_digit (schar c)
      then continue (req\<lparr>http_version_minor := digit_in (http_version_minor req) c\<rparr>) p
             Http_version_minor
      else reject req p)"
| "consume_request_line Expecting_newline_1 req p c =
     (if c = LF then continue req p Header_line_start else reject req p)"
| "consume_request_line _ req p c = reject req p"

section \<open>The headers\<close>

definition new_header :: "char \<Rightarrow> header" where
  "new_header c = \<lparr>hname = [c], hvalue = ''''\<rparr>"

definition add_name_char :: "char \<Rightarrow> header \<Rightarrow> header" where
  "add_name_char c h = h\<lparr>hname := hname h @ [c]\<rparr>"

definition add_value_char :: "char \<Rightarrow> header \<Rightarrow> header" where
  "add_value_char c h = h\<lparr>hvalue := hvalue h @ [c]\<rparr>"

text \<open>The end of a header value: a Content-Length header sets the expected length.\<close>

definition end_of_value :: "request \<Rightarrow> parser \<Rightarrow> consumed" where
  "end_of_value req p =
     (if rq_headers req = [] then Inl Undefined_behaviour
      else let h = last (rq_headers req) in
        if hname h = ''Content-Length''
        then bind_res (stoul (hvalue h)) (\<lambda>n.
               continue req (p\<lparr>expectedContentLength := n\<rparr>) Expecting_newline_2)
        else continue req p Expecting_newline_2)"

fun consume_header :: "parse_state \<Rightarrow> request \<Rightarrow> parser \<Rightarrow> char \<Rightarrow> consumed" where
  "consume_header Header_line_start req p c =
     (if c = CR then continue req p Expecting_newline_3
      else if rq_headers req \<noteq> [] \<and> (c = CHR '' '' \<or> c = TAB) then continue req p Header_lws
      else if bad_token_char c then reject req p
      else continue (req\<lparr>rq_headers := rq_headers req @ [new_header c]\<rparr>) p Header_name)"
| "consume_header Header_lws req p c =
     (if c = CR then continue req p Expecting_newline_2
      else if c = CHR '' '' \<or> c = TAB then continue req p Header_lws
      else if is_ctl (schar c) then reject req p
      else bind_res (update_back (add_value_char c) req) (\<lambda>req'. continue req' p Header_value))"
| "consume_header Header_name req p c =
     (if c = CHR '':'' then continue req p Space_before_header_value
      else if bad_token_char c then reject req p
      else bind_res (update_back (add_name_char c) req) (\<lambda>req'. continue req' p Header_name))"
| "consume_header Space_before_header_value req p c =
     (if c = CHR '' '' then continue req p Header_value else reject req p)"
| "consume_header Header_value req p c =
     (if c = CR then end_of_value req p
      else if is_ctl (schar c) then reject req p
      else bind_res (update_back (add_value_char c) req) (\<lambda>req'. continue req' p Header_value))"
| "consume_header Expecting_newline_2 req p c =
     (if c = LF then continue req p Header_line_start else reject req p)"
| "consume_header _ req p c = reject req p"

section \<open>The end of the headers and the body\<close>

text \<open>A body byte is appended and counted.\<close>

definition body_byte :: "request \<Rightarrow> char \<Rightarrow> request" where
  "body_byte req c = req\<lparr>jsonData := jsonData req @ [c]\<rparr>"

definition count_byte :: "parser \<Rightarrow> parser" where
  "count_byte p = p\<lparr>contentCtr := sz_add (contentCtr p) 1\<rparr>"

fun consume_body :: "parse_state \<Rightarrow> request \<Rightarrow> parser \<Rightarrow> char \<Rightarrow> consumed" where
  "consume_body Expecting_newline_3 req p c =
     (if c = LF
      then (if expectedContentLength p = 0 then Inr ((req, p), TTrue)
            else continue req p Body_content_normal)
      else reject req p)"
| "consume_body Body_content_normal req p c =
     (if c = CR then continue (body_byte req c) (count_byte p) Body_content_expect_newline
      else if is_ctl (schar c) then reject req p
      else continue (body_byte req c) (count_byte p) Body_content_normal)"
| "consume_body Body_content_expect_newline req p c =
     (if c = LF
      then (let req' = body_byte req c; p' = count_byte p in
            if expectedContentLength p' \<le> contentCtr p' then Inr ((req', p'), TTrue)
            else continue req' p' Body_content_normal)
      else reject req p)"
| "consume_body _ req p c = reject req p"

section \<open>One byte, and a buffer\<close>

definition consume :: "request \<Rightarrow> parser \<Rightarrow> char \<Rightarrow> consumed" where
  "consume req p c =
     (case pstate p of
        Header_line_start \<Rightarrow> consume_header (pstate p) req p c
      | Header_lws \<Rightarrow> consume_header (pstate p) req p c
      | Header_name \<Rightarrow> consume_header (pstate p) req p c
      | Space_before_header_value \<Rightarrow> consume_header (pstate p) req p c
      | Header_value \<Rightarrow> consume_header (pstate p) req p c
      | Expecting_newline_2 \<Rightarrow> consume_header (pstate p) req p c
      | Expecting_newline_3 \<Rightarrow> consume_body (pstate p) req p c
      | Body_content_normal \<Rightarrow> consume_body (pstate p) req p c
      | Body_content_expect_newline \<Rightarrow> consume_body (pstate p) req p c
      | _ \<Rightarrow> consume_request_line (pstate p) req p c)"

text \<open>
  \<open>parse\<close> returns the verdict and the iterator, here the unread rest of the buffer.
\<close>

fun parse :: "request \<times> parser \<Rightarrow> string \<Rightarrow> ((request \<times> parser) \<times> tribool \<times> string) result" where
  "parse (req, p) [] = Inr ((req, p), Indeterminate, [])"
| "parse (req, p) (c # cs) =
     bind_res (consume req p c) (\<lambda>(s, result).
       if result = Indeterminate then parse s cs else Inr (s, result, cs))"

section \<open>The parser as a byte machine\<close>

definition parser_step :: "request \<times> parser \<Rightarrow> char \<Rightarrow> consumed" where
  "parser_step s c = consume (fst s) (snd s) c"

text \<open>
  The invariant: \<open>headers.back()\<close> exists wherever it is used, the counter is the length of the body
  so far, and there is no body before the body states.
\<close>

definition uses_back :: "parse_state \<Rightarrow> bool" where
  "uses_back st \<longleftrightarrow> st \<in> {Header_lws, Header_name, Space_before_header_value, Header_value,
     Expecting_newline_2}"

definition in_body :: "parse_state \<Rightarrow> bool" where
  "in_body st \<longleftrightarrow> st \<in> {Body_content_normal, Body_content_expect_newline}"

definition parser_inv :: "request \<times> parser \<Rightarrow> bool" where
  "parser_inv s \<longleftrightarrow> (case s of (req, p) \<Rightarrow>
     (uses_back (pstate p) \<longrightarrow> rq_headers req \<noteq> []) \<and>
     (\<not> in_body (pstate p) \<longrightarrow> jsonData req = []) \<and>
     contentCtr p = length (jsonData req) mod 2 ^ 64)"

text \<open>A request object and a parser as a connection constructs them; the version fields are not set.\<close>

definition new_request :: "int \<Rightarrow> int \<Rightarrow> request" where
  "new_request mj mn = \<lparr>req_method = '''', uri = '''', http_version_major = mj,
     http_version_minor = mn, rq_headers = [], jsonData = ''''\<rparr>"

lemmas parser_defs = consume_def continue_def reject_def

lemma parser_inv_start: "parser_inv (new_request mj mn, request_parser)"
  by (simp add: parser_inv_def new_request_def request_parser_def uses_back_def)

lemma consume_request_line_inv:
  assumes "consume_request_line (pstate p) req p c = Inr ((req', p'), t)" and "parser_inv (req, p)"
    and "\<not> uses_back (pstate p)" and "\<not> in_body (pstate p)"
  shows "parser_inv (req', p')"
  using assms
  by (cases "pstate p")
     (auto simp: parser_defs parser_inv_def uses_back_def in_body_def res_simps split: if_splits)

lemma consume_header_inv:
  assumes "consume_header (pstate p) req p c = Inr ((req', p'), t)" and "parser_inv (req, p)"
    and "\<not> in_body (pstate p)"
  shows "parser_inv (req', p')"
  using assms
  by (cases "pstate p")
     (auto simp: parser_defs parser_inv_def uses_back_def in_body_def update_back_def end_of_value_def
        Let_def res_simps split: if_splits)

lemma consume_body_inv:
  assumes "consume_body (pstate p) req p c = Inr ((req', p'), t)" and "parser_inv (req, p)"
  shows "parser_inv (req', p')"
  using assms
  by (cases "pstate p")
     (auto simp: parser_defs parser_inv_def uses_back_def in_body_def Let_def count_byte_def body_byte_def
        sz_add_def mod_Suc_eq split: if_splits)

lemma consume_inv:
  assumes "consume req p c = Inr ((req', p'), t)" and "parser_inv (req, p)"
  shows "parser_inv (req', p')"
  using assms consume_request_line_inv [of p req c req' p' t] consume_header_inv [of p req c req' p' t]
    consume_body_inv [of p req c req' p' t]
  by (cases "pstate p") (auto simp: consume_def uses_back_def in_body_def)

lemma consume_defined:
  assumes "parser_inv (req, p)"
  shows "consume req p c \<noteq> Inl Undefined_behaviour"
proof -
  have "stoul v \<noteq> Inl Undefined_behaviour" for v by (simp add: stoul_def Let_def)
  with assms show ?thesis
    by (cases "pstate p")
       (auto simp: parser_defs parser_inv_def uses_back_def update_back_def end_of_value_def digit_in_def
          Let_def res_simps split: if_splits)
qed

interpretation rp: byte_machine parser_step parse parser_inv
proof unfold_locales
  show "parse s [] = Inr (s, Indeterminate, [])" for s
    by (cases s) simp
  show "parse s (c # cs) = bind_res (parser_step s c) (\<lambda>(s', t).
      if t = Indeterminate then parse s' cs else Inr (s', t, cs))" for s c cs
    by (cases s) (simp add: parser_step_def)
  show "parser_inv s' " if "parser_inv s" and "parser_step s c = Inr (s', t)" for s c s' t
    using that consume_inv by (cases s; cases s') (auto simp: parser_step_def)
  show "parser_step s c \<noteq> Inl Undefined_behaviour" if "parser_inv s" for s c
    using that consume_defined by (cases s) (auto simp: parser_step_def)
qed

section \<open>Well-formed requests are accepted, and read as sent\<close>

definition render_header :: "header \<Rightarrow> string" where
  "render_header h = hname h @ '': '' @ hvalue h @ CRLF"

definition render_request :: "string \<Rightarrow> string \<Rightarrow> nat \<Rightarrow> nat \<Rightarrow> header list \<Rightarrow> string \<Rightarrow> string" where
  "render_request m u mj mn hs body =
     m @ '' '' @ u @ '' HTTP/'' @ dec mj @ ''.'' @ dec mn @ CRLF @ concat (map render_header hs) @ CRLF @ body"

text \<open>The value \<open>expectedContentLength\<close> has after the headers: the last Content-Length header's.\<close>

fun length_after :: "header list \<Rightarrow> nat \<Rightarrow> nat result" where
  "length_after [] e = Inr e"
| "length_after (h # hs) e =
     (if hname h = ''Content-Length'' then bind_res (stoul (hvalue h)) (length_after hs)
      else length_after hs e)"

text \<open>
  What the HTTP grammar allows, stated on byte numbers and independently of the code's classifiers: a
  token is made of visible ASCII characters other than the separators, a value holds no control
  character.
\<close>

definition value_char :: "char \<Rightarrow> bool" where
  "value_char c \<longleftrightarrow> 32 \<le> uchar c \<and> uchar c \<noteq> 127"

definition token_char :: "char \<Rightarrow> bool" where
  "token_char c \<longleftrightarrow> 33 \<le> uchar c \<and> uchar c \<le> 126 \<and>
     uchar c \<notin> {34, 40, 41, 44, 47, 58, 59, 60, 61, 62, 63, 64, 91, 92, 93, 123, 125}"

definition token :: "string \<Rightarrow> bool" where
  "token s \<longleftrightarrow> s \<noteq> [] \<and> (\<forall>c\<in>set s. token_char c)"

definition good_header :: "header \<Rightarrow> bool" where
  "good_header h \<longleftrightarrow> token (hname h) \<and> (\<forall>c\<in>set (hvalue h). value_char c)"

text \<open>A body made of lines: CR and LF only as CRLF, no other control character, CRLF at the end.\<close>

fun crlf_lines :: "string \<Rightarrow> bool" where
  "crlf_lines [] = True"
| "crlf_lines (c # cs) =
     (if c = CR then (case cs of [] \<Rightarrow> False | d # ds \<Rightarrow> d = LF \<and> crlf_lines ds)
      else value_char c \<and> cs \<noteq> [] \<and> crlf_lines cs)"

lemma schar_literals [simp]:
  "schar CR = 13" "schar LF = 10" "schar TAB = 9" "schar CHR '' '' = 32" "schar CHR '':'' = 58"
  "schar CHR ''.'' = 46" "schar CHR 0x7F = 127"
  by (simp_all add: schar_def uchar_def)

lemma value_char_eq: "value_char c \<longleftrightarrow> \<not> is_ctl (schar c)"
proof -
  obtain n where n: "uchar c = n" "n < 256" by simp
  then show ?thesis unfolding value_char_def is_ctl_def schar_def n(1) by (simp split: if_split) linarith
qed

lemma schar_eq_iff: "schar c = schar d \<longleftrightarrow> c = d"
proof -
  obtain m n where mn: "uchar c = m" "m < 256" "uchar d = n" "n < 256" by simp
  then have "schar c = schar d \<longleftrightarrow> uchar c = uchar d"
    unfolding schar_def mn(1,3) by (simp split: if_split)
  then show ?thesis by (simp add: uchar_eq_iff)
qed

lemma token_char_eq: "token_char c \<longleftrightarrow> \<not> bad_token_char c"
proof -
  have "schar c \<in> set (map schar tspecials) \<longleftrightarrow> c \<in> set tspecials"
    by (auto simp: schar_eq_iff)
  also have "\<dots> \<longleftrightarrow> uchar c \<in> uchar ` set tspecials"
    by (auto simp: uchar_eq_iff image_iff)
  also have "uchar ` set tspecials =
      {9, 32, 34, 40, 41, 44, 47, 58, 59, 60, 61, 62, 63, 64, 91, 92, 93, 123, 125}"
    by (simp add: tspecials_def uchar_def insert_commute)
  finally have special: "schar c \<in> set (map schar tspecials) \<longleftrightarrow>
      uchar c \<in> {9, 32, 34, 40, 41, 44, 47, 58, 59, 60, 61, 62, 63, 64, 91, 92, 93, 123, 125}" .
  obtain n where n: "uchar c = n" "n < 256" by simp
  have "33 \<le> n \<longleftrightarrow> \<not> n \<le> 31 \<and> n \<noteq> 32" and "n \<le> 126 \<longleftrightarrow> n < 128 \<and> n \<noteq> 127" by linarith+
  with n(2) show ?thesis
    unfolding token_char_def bad_token_char_def is_char_def is_ctl_def is_tspecial_def special
    unfolding schar_def n(1) by auto
qed

lemma token_eq: "token s \<longleftrightarrow> s \<noteq> [] \<and> (\<forall>c\<in>set s. \<not> bad_token_char c)"
  by (simp add: token_def token_char_eq)

lemma value_char_not: "value_char c \<Longrightarrow> c \<noteq> CR \<and> c \<noteq> LF \<and> c \<noteq> TAB"
  by (auto simp: value_char_eq is_ctl_def)

lemma token_char_not:
  "\<not> bad_token_char c \<Longrightarrow> c \<noteq> CR \<and> c \<noteq> CHR '' '' \<and> c \<noteq> TAB \<and> c \<noteq> CHR '':''"
  by (auto simp: bad_token_char_def is_ctl_def is_tspecial_def tspecials_def)

lemma digit_schar: "is_digit_char c \<Longrightarrow> schar c = int (uchar c)"
  by (simp add: is_digit_char_def schar_def)

lemma digit_class: "is_digit_char c \<Longrightarrow> is_digit (schar c) \<and> c \<noteq> CHR ''.'' \<and> c \<noteq> CR"
  by (auto simp: digit_schar is_digit_def) (auto simp: is_digit_char_def uchar_def)

abbreviation mid :: "parse_state \<Rightarrow> nat \<Rightarrow> nat \<Rightarrow> nat \<Rightarrow> parser" where
  "mid st l e k \<equiv> \<lparr>pstate = st, contentLength = l, expectedContentLength = e, contentCtr = k\<rparr>"

lemma parse_method:
  "\<forall>c\<in>set m. \<not> bad_token_char c \<Longrightarrow>
   parse (req, mid Method l e k) (m @ ys)
     = parse (req\<lparr>req_method := req_method req @ m\<rparr>, mid Method l e k) ys"
proof (induction m arbitrary: req)
  case (Cons c m)
  then show ?case using token_char_not [of c] by (simp add: parser_defs)
qed simp

lemma parse_uri:
  "\<forall>c\<in>set u. value_char c \<and> c \<noteq> CHR '' '' \<Longrightarrow>
   parse (req, mid Uri l e k) (u @ ys) = parse (req\<lparr>uri := uri req @ u\<rparr>, mid Uri l e k) ys"
  by (induction u arbitrary: req) (auto simp: parser_defs value_char_eq)

text \<open>The digits of a version number, one after the other.\<close>

primrec digits_in :: "int \<Rightarrow> string \<Rightarrow> int" where
  "digits_in v [] = v"
| "digits_in v (c # cs) = digits_in (digit_in v c) cs"

lemma parse_version_digits:
  "\<forall>c\<in>set ds. is_digit_char c \<Longrightarrow> digits_in (http_version_major req) ds = v \<Longrightarrow>
   parse (req, mid Http_version_major l e k) (ds @ ys) =
     parse (req\<lparr>http_version_major := v\<rparr>, mid Http_version_major l e k) ys"
  "\<forall>c\<in>set ds. is_digit_char c \<Longrightarrow> digits_in (http_version_minor req) ds = v \<Longrightarrow>
   parse (req, mid Http_version_minor l e k) (ds @ ys) =
     parse (req\<lparr>http_version_minor := v\<rparr>, mid Http_version_minor l e k) ys"
  by (induction ds arbitrary: req) (auto simp: parser_defs digit_class res_simps)

text \<open>The version numbers that do not wrap.\<close>

definition small_version :: "nat \<Rightarrow> bool" where
  "small_version n \<longleftrightarrow> n < 2 ^ 31"

lemma foldl_digits_ge: "n \<le> foldl (\<lambda>a c. 10 * a + (uchar c - 48)) n ds"
proof (induction ds arbitrary: n)
  case (Cons c ds)
  have "n \<le> 10 * n + (uchar c - 48)" by simp
  also note Cons [of "10 * n + (uchar c - 48)"]
  finally show ?case by simp
qed simp

lemma digit_in_wrap: "digit_in v c = wrap_int (v * 10 + schar c - 48)"
  by (simp add: digit_in_def wrap_int_def algebra_simps mod_simps)

lemma digits_in_value:
  "\<forall>c\<in>set ds. is_digit_char c \<Longrightarrow> foldl (\<lambda>a c. 10 * a + (uchar c - 48)) n ds < 2 ^ 31 \<Longrightarrow>
   digits_in (int n) ds = int (foldl (\<lambda>a c. 10 * a + (uchar c - 48)) n ds)"
proof (induction ds arbitrary: n)
  case (Cons c ds)
  let ?m = "10 * n + (uchar c - 48)"
  have c: "48 \<le> uchar c" "uchar c \<le> 57" using Cons.prems(1) by (simp_all add: is_digit_char_def)
  have m: "?m < 2 ^ 31" using foldl_digits_ge [of ?m ds] Cons.prems(2) by simp
  have "int n * 10 + schar c - 48 = int ?m" using c by (simp add: schar_def of_nat_diff)
  moreover have "int ?m < int (2 ^ 31)" using m by (simp only: of_nat_less_iff)
  ultimately have "digit_in (int n) c = int ?m" by (simp add: digit_in_wrap del: of_nat_add of_nat_mult of_nat_diff)
  then show ?case using Cons.IH [of ?m] Cons.prems by simp
qed simp

lemma digits_in_dec: "small_version n \<Longrightarrow> digits_in 0 (dec n) = int n"
  using digits_in_value [of "dec n" 0] dec_digits [of _ n] dec_val_dec [of n]
  by (simp add: dec_val_def small_version_def)

lemma parse_version:
  assumes "small_version mj" and "small_version mn"
  shows "parse (req\<lparr>http_version_major := 0, http_version_minor := 0\<rparr>, mid Http_version_major_start l e k)
     (dec mj @ ''.'' @ dec mn @ CRLF @ ys) =
   parse (req\<lparr>http_version_major := int mj, http_version_minor := int mn\<rparr>,
     mid Header_line_start l e k) ys"
proof -
  obtain c cs where c: "dec mj = c # cs" by (cases "dec mj") auto
  obtain d ds where d: "dec mn = d # ds" by (cases "dec mn") auto
  have dc: "is_digit_char c" "\<forall>x\<in>set cs. is_digit_char x"
    using dec_digits [of _ mj] c by auto
  have dd: "is_digit_char d" "\<forall>x\<in>set ds. is_digit_char x"
    using dec_digits [of _ mn] d by auto
  have v: "digits_in (digit_in 0 c) cs = int mj" using digits_in_dec [OF assms(1)] c by simp
  have w: "digits_in (digit_in 0 d) ds = int mn" using digits_in_dec [OF assms(2)] d by simp
  show ?thesis unfolding c d
    using dc dd v w by (simp add: parser_defs digit_class parse_version_digits)
qed

lemma parse_request_line:
  assumes "token m" and "\<forall>c\<in>set u. value_char c \<and> c \<noteq> CHR '' ''"
    and "small_version mj" and "small_version mn"
  shows "parse (new_request x y, request_parser)
       (m @ '' '' @ u @ '' HTTP/'' @ dec mj @ ''.'' @ dec mn @ CRLF @ ys) =
     parse (\<lparr>req_method = m, uri = u, http_version_major = int mj, http_version_minor = int mn,
       rq_headers = [], jsonData = ''''\<rparr>, mid Header_line_start 0 0 0) ys"
proof -
  obtain c cs where m: "m = c # cs" "\<not> bad_token_char c" "\<forall>x\<in>set cs. \<not> bad_token_char x"
    using assms(1) by (cases m) (auto simp: token_eq)
  have "parse (new_request x y, request_parser)
       (m @ '' '' @ u @ '' HTTP/'' @ dec mj @ ''.'' @ dec mn @ CRLF @ ys) =
     parse ((new_request x y)\<lparr>req_method := m, uri := u, http_version_major := 0, http_version_minor := 0\<rparr>,
       mid Http_version_major_start 0 0 0) (dec mj @ ''.'' @ dec mn @ CRLF @ ys)"
    using m parse_method [of cs _ 0 0 0] parse_uri [OF assms(2), of _ 0 0 0]
    by (simp add: request_parser_def parser_defs new_request_def)
  also have "\<dots> = parse ((new_request x y)\<lparr>req_method := m, uri := u,
       http_version_major := int mj, http_version_minor := int mn\<rparr>, mid Header_line_start 0 0 0) ys"
    using parse_version [OF assms(3,4), of "(new_request x y)\<lparr>req_method := m, uri := u\<rparr>" 0 0 0 ys] by simp
  finally show ?thesis by (simp add: new_request_def)
qed

lemma parse_header_name:
  "\<forall>c\<in>set n. \<not> bad_token_char c \<Longrightarrow>
   parse (req\<lparr>rq_headers := hs @ [h]\<rparr>, mid Header_name l e k) (n @ ys) =
     parse (req\<lparr>rq_headers := hs @ [h\<lparr>hname := hname h @ n\<rparr>]\<rparr>, mid Header_name l e k) ys"
proof (induction n arbitrary: h)
  case (Cons c n)
  then show ?case using token_char_not [of c]
    by (simp add: parser_defs update_back_def add_name_char_def)
qed simp

lemma parse_header_value:
  "\<forall>c\<in>set v. value_char c \<Longrightarrow>
   parse (req\<lparr>rq_headers := hs @ [h]\<rparr>, mid Header_value l e k) (v @ ys) =
     parse (req\<lparr>rq_headers := hs @ [h\<lparr>hvalue := hvalue h @ v\<rparr>]\<rparr>, mid Header_value l e k) ys"
proof (induction v arbitrary: h)
  case (Cons c v)
  then show ?case using value_char_not [of c]
    by (simp add: parser_defs update_back_def add_value_char_def value_char_eq)
qed simp

lemma parse_header:
  assumes "good_header h"
  shows "parse (req\<lparr>rq_headers := hs\<rparr>, mid Header_line_start l e k) (render_header h @ ys) =
    bind_res (length_after [h] e) (\<lambda>n.
      parse (req\<lparr>rq_headers := hs @ [h]\<rparr>, mid Header_line_start l n k) ys)"
proof -
  obtain c cs where n: "hname h = c # cs" "\<not> bad_token_char c" "\<forall>x\<in>set cs. \<not> bad_token_char x"
    using assms by (cases "hname h") (auto simp: good_header_def token_eq)
  have h: "\<lparr>hname = hname h, hvalue = hvalue h\<rparr> = h" by (cases h) simp
  have v: "\<forall>x\<in>set (hvalue h). value_char x" using assms by (simp add: good_header_def)
  have "parse (req\<lparr>rq_headers := hs\<rparr>, mid Header_line_start l e k) (render_header h @ ys)
      = parse (req\<lparr>rq_headers := hs @ [new_header c]\<rparr>, mid Header_name l e k)
          (cs @ '': '' @ hvalue h @ CRLF @ ys)"
    using n token_char_not [OF n(2)] by (simp add: render_header_def parser_defs)
  also have "\<dots> = parse (req\<lparr>rq_headers := hs @ [\<lparr>hname = hname h, hvalue = ''''\<rparr>]\<rparr>, mid Header_value l e k)
          (hvalue h @ CRLF @ ys)"
    using n(1) parse_header_name [OF n(3), where req = req and hs = hs and h = "new_header c"]
    by (simp add: new_header_def parser_defs)
  also have "\<dots> = parse (req\<lparr>rq_headers := hs @ [h]\<rparr>, mid Header_value l e k) (CRLF @ ys)"
    using parse_header_value [OF v, where req = req and hs = hs and h = "\<lparr>hname = hname h, hvalue = ''''\<rparr>"] by (simp add: h)
  also have "\<dots> = bind_res (length_after [h] e) (\<lambda>n.
      parse (req\<lparr>rq_headers := hs @ [h]\<rparr>, mid Header_line_start l n k) ys)"
    by (cases "stoul (hvalue h)") (simp_all add: parser_defs end_of_value_def Let_def)
  finally show ?thesis .
qed

lemma parse_headers:
  assumes "\<forall>h\<in>set gs. good_header h"
  shows "parse (req\<lparr>rq_headers := hs\<rparr>, mid Header_line_start l e k) (concat (map render_header gs) @ ys) =
    bind_res (length_after gs e) (\<lambda>n.
      parse (req\<lparr>rq_headers := hs @ gs\<rparr>, mid Header_line_start l n k) ys)"
  using assms
proof (induction gs arbitrary: hs e)
  case (Cons h gs)
  then show ?case
    using parse_header [where h = h and req = req and hs = hs and ys = "concat (map render_header gs) @ ys"]
    by (cases "stoul (hvalue h)") auto
qed simp

lemma parse_body:
  assumes "crlf_lines b" and "b \<noteq> []" and "k + length b = e" and "e < 2 ^ 64"
  shows "parse (req, mid Body_content_normal l e k) (b @ ys) =
    Inr ((req\<lparr>jsonData := jsonData req @ b\<rparr>, mid Body_content_expect_newline l e e), TTrue, ys)"
  using assms
proof (induction b arbitrary: req k rule: crlf_lines.induct)
  case (2 c cs)
  have k: "sz_add k 1 = k + 1" using 2 by (intro sz_add_small) simp
  show ?case
  proof (cases "c = CR")
    case True
    then obtain ds where ds: "cs = LF # ds" "crlf_lines ds" using 2 by (auto split: list.splits)
    have k2: "sz_add (k + 1) 1 = k + 2" using 2 ds by (subst sz_add_small) simp_all
    show ?thesis
    proof (cases "ds = []")
      case True
      with \<open>c = CR\<close> ds 2 show ?thesis
        by (simp add: parser_defs body_byte_def count_byte_def Let_def k k2 [simplified])
    next
      case False
      have "parse (req\<lparr>jsonData := jsonData req @ CRLF\<rparr>, mid Body_content_normal l e (k + 2)) (ds @ ys) =
        Inr ((req\<lparr>jsonData := jsonData req @ CRLF\<rparr>\<lparr>jsonData := (jsonData req @ CRLF) @ ds\<rparr>,
          mid Body_content_expect_newline l e e), TTrue, ys)"
        using "2.IH"(1) [where req = "req\<lparr>jsonData := jsonData req @ CRLF\<rparr>" and k = "k + 2"] True ds False 2 by simp
      moreover have "0 < length ds" using False by simp
      ultimately show ?thesis using True ds 2
        by (auto simp: parser_defs body_byte_def count_byte_def Let_def k [simplified] k2 [simplified])
    qed
  next
    case False
    then have c: "value_char c" "cs \<noteq> []" "crlf_lines cs" using 2 by auto
    have "parse (req\<lparr>jsonData := jsonData req @ [c]\<rparr>, mid Body_content_normal l e (k + 1)) (cs @ ys) =
        Inr ((req\<lparr>jsonData := jsonData req @ [c]\<rparr>\<lparr>jsonData := (jsonData req @ [c]) @ cs\<rparr>,
          mid Body_content_expect_newline l e e), TTrue, ys)"
      using "2.IH"(2) [where req = "req\<lparr>jsonData := jsonData req @ [c]\<rparr>" and k = "k + 1"] False c 2 by simp
    with c False show ?thesis
      by (simp add: parser_defs body_byte_def count_byte_def value_char_eq k [simplified])
  qed
qed simp

text \<open>The request an accepted text describes.\<close>

definition sent_request :: "string \<Rightarrow> string \<Rightarrow> nat \<Rightarrow> nat \<Rightarrow> header list \<Rightarrow> string \<Rightarrow> request" where
  "sent_request m u mj mn hs body =
     \<lparr>req_method = m, uri = u, http_version_major = int mj, http_version_minor = int mn,
      rq_headers = hs, jsonData = body\<rparr>"

lemma stoul_bound: "stoul s = Inr n \<Longrightarrow> n < 2 ^ 64"
  by (auto simp: stoul_def sz_sub_def Let_def split: if_splits)

lemma length_after_bound: "length_after hs e = Inr n \<Longrightarrow> e < 2 ^ 64 \<Longrightarrow> n < 2 ^ 64"
  by (induction hs arbitrary: e) (auto simp: res_simps split: if_splits dest: stoul_bound)

lemma parse_request:
  assumes "token m" and "\<forall>c\<in>set u. value_char c \<and> c \<noteq> CHR '' ''"
    and "\<forall>h\<in>set hs. good_header h" and "length_after hs 0 = Inr (length body)" and "crlf_lines body"
    and "small_version mj" and "small_version mn"
  shows "\<exists>p. parse (new_request x y, request_parser) (render_request m u mj mn hs body @ ys) =
    Inr ((sent_request m u mj mn hs body, p), TTrue, ys)"
proof -
  let ?req = "sent_request m u mj mn hs ''''"
  have "parse (new_request x y, request_parser) (render_request m u mj mn hs body @ ys) =
      parse (?req, mid Header_line_start 0 (length body) 0) (CRLF @ body @ ys)"
    using parse_headers [OF assms(3), where req = ?req and hs = "[]" and ys = "CRLF @ body @ ys" and e = 0 and k = 0 and l = 0]
    unfolding render_request_def append_assoc
    by (subst parse_request_line [OF assms(1,2,6,7)]) (simp add: assms(4) sent_request_def)
  also have "\<dots> = parse (?req, mid Expecting_newline_3 0 (length body) 0) (LF # body @ ys)"
    by (simp add: parser_defs)
  also have "\<exists>p. \<dots> = Inr ((sent_request m u mj mn hs body, p), TTrue, ys)"
  proof (cases "body = []")
    case True
    then show ?thesis by (auto simp: parser_defs)
  next
    case False
    then show ?thesis
      using parse_body [OF assms(5) False, where req = ?req and k = 0 and e = "length body" and l = 0 and ys = ys] length_after_bound [OF assms(4)]
      by (auto simp: parser_defs sent_request_def)
  qed
  finally show ?thesis .
qed

section \<open>What an accepted request looks like\<close>

text \<open>
  The expected length agrees with the headers: exactly between headers, and up to the value being read
  while one is open.
\<close>

definition length_inv :: "parse_state \<Rightarrow> header list \<Rightarrow> nat \<Rightarrow> bool" where
  "length_inv st hs e \<longleftrightarrow>
     (if st \<in> {Header_name, Space_before_header_value} then length_after (butlast hs) 0 = Inr e
      else if st = Header_value
      then (\<exists>e0. length_after (butlast hs) 0 = Inr e0 \<and>
              (hname (last hs) \<noteq> ''Content-Length'' \<longrightarrow> e0 = e))
      else length_after hs 0 = Inr e)"

definition complete_body :: "string \<Rightarrow> nat \<Rightarrow> bool" where
  "complete_body body n \<longleftrightarrow>
     (if n = 0 then body = []
      else \<exists>lines line. body = lines @ line @ CRLF \<and> crlf_lines lines \<and>
             (\<forall>c\<in>set line. value_char c) \<and> length lines < n \<and> n \<le> length body)"

definition body_inv :: "parse_state \<Rightarrow> string \<Rightarrow> nat \<Rightarrow> bool" where
  "body_inv st body n \<longleftrightarrow>
     (if st = Body_content_normal
      then \<exists>lines line. body = lines @ line \<and> crlf_lines lines \<and> (\<forall>c\<in>set line. value_char c) \<and>
             (length body < 2 ^ 64 \<longrightarrow> length lines < n)
      else if st = Body_content_expect_newline
      then \<exists>lines line. body = lines @ line @ [CR] \<and> crlf_lines lines \<and> (\<forall>c\<in>set line. value_char c) \<and>
             (length body < 2 ^ 64 \<longrightarrow> length lines < n)
      else True)"

definition accept_inv :: "request \<times> parser \<Rightarrow> bool" where
  "accept_inv s \<longleftrightarrow> (case s of (req, p) \<Rightarrow>
     (if pstate p = Method_start then req_method req = [] else token (req_method req)) \<and>
     (\<forall>c\<in>set (uri req). value_char c \<and> c \<noteq> CHR '' '') \<and>
     (\<forall>h\<in>set (rq_headers req). good_header h) \<and>
     length_inv (pstate p) (rq_headers req) (expectedContentLength p) \<and>
     body_inv (pstate p) (jsonData req) (expectedContentLength p))"

definition accepted :: "request \<Rightarrow> nat \<Rightarrow> bool" where
  "accepted req n \<longleftrightarrow> token (req_method req) \<and> (\<forall>c\<in>set (uri req). value_char c \<and> c \<noteq> CHR '' '') \<and>
     (\<forall>h\<in>set (rq_headers req). good_header h) \<and> length_after (rq_headers req) 0 = Inr n \<and>
     complete_body (jsonData req) n"

lemma accept_inv_start: "accept_inv (new_request x y, request_parser)"
  by (simp add: accept_inv_def new_request_def request_parser_def length_inv_def body_inv_def)

lemma token_snoc: "token (s @ [c]) \<longleftrightarrow> (\<forall>x\<in>set s. \<not> bad_token_char x) \<and> \<not> bad_token_char c"
  by (auto simp: token_eq)

lemma length_after_append:
  "length_after (hs @ gs) e = bind_res (length_after hs e) (length_after gs)"
proof (induction hs arbitrary: e)
  case (Cons h hs)
  then show ?case by (cases "stoul (hvalue h)") auto
qed simp

lemma length_after_last:
  "hs \<noteq> [] \<Longrightarrow> length_after hs e = bind_res (length_after (butlast hs) e) (length_after [last hs])"
  using length_after_append [of "butlast hs" "[last hs]" e] by simp

lemma good_header_last: "hs \<noteq> [] \<Longrightarrow> \<forall>h\<in>set hs. good_header h \<Longrightarrow>
    good_header (last hs) \<and> (\<forall>h\<in>set (butlast hs). good_header h)"
  by (auto dest: in_set_butlastD)

lemma good_header_add_name:
  "good_header h \<Longrightarrow> \<not> bad_token_char c \<Longrightarrow> good_header (add_name_char c h)"
  by (auto simp: good_header_def add_name_char_def token_eq)

lemma good_header_add_value:
  "good_header h \<Longrightarrow> value_char c \<Longrightarrow> good_header (add_value_char c h)"
  by (auto simp: good_header_def add_value_char_def)

lemma good_header_new: "\<not> bad_token_char c \<Longrightarrow> good_header (new_header c)"
  by (auto simp: good_header_def new_header_def token_eq)

lemma crlf_lines_append: "crlf_lines xs \<Longrightarrow> crlf_lines (xs @ ys) = crlf_lines ys"
proof (induction xs rule: crlf_lines.induct)
  case (2 c cs)
  show ?case
  proof (cases "c = CR")
    case True
    with 2 obtain ds where "cs = LF # ds" "crlf_lines ds" by (cases cs) auto
    with 2 True show ?thesis by simp
  next
    case False
    with 2 show ?thesis by simp
  qed
qed simp

lemma crlf_lines_line: "\<forall>c\<in>set line. value_char c \<Longrightarrow> crlf_lines (line @ CRLF)"
  by (induction line) (auto dest: value_char_not)

lemma request_line_accept_inv:
  assumes "consume_request_line (pstate p) req p c = Inr ((req', p'), Indeterminate)"
    and "accept_inv (req, p)" and "\<not> uses_back (pstate p)" and "\<not> in_body (pstate p)"
    and "pstate p \<notin> {Header_line_start, Expecting_newline_3}"
  shows "accept_inv (req', p')"
  using assms
  by (cases "pstate p"; simp add: parser_defs uses_back_def in_body_def res_simps split: if_splits;
      (elim conjE exE)?; hypsubst?; simp add: accept_inv_def length_inv_def body_inv_def token_eq value_char_eq)

lemma body_inv_normalI:
  "body = ls @ l \<Longrightarrow> crlf_lines ls \<Longrightarrow> \<forall>c\<in>set l. value_char c \<Longrightarrow>
   length body < 2 ^ 64 \<longrightarrow> length ls < n \<Longrightarrow> body_inv Body_content_normal body n"
  unfolding body_inv_def by auto

lemma body_inv_expectI:
  "body = ls @ l @ [CR] \<Longrightarrow> crlf_lines ls \<Longrightarrow> \<forall>c\<in>set l. value_char c \<Longrightarrow>
   length body < 2 ^ 64 \<longrightarrow> length ls < n \<Longrightarrow> body_inv Body_content_expect_newline body n"
  unfolding body_inv_def by auto

lemma complete_bodyI:
  "body = ls @ l @ CRLF \<Longrightarrow> crlf_lines ls \<Longrightarrow> \<forall>c\<in>set l. value_char c \<Longrightarrow>
   length ls < n \<Longrightarrow> n \<le> length body \<Longrightarrow> complete_body body n"
  unfolding complete_body_def by auto

lemma header_accept_inv:
  assumes "consume_header (pstate p) req p c = Inr ((req', p'), Indeterminate)"
    and "accept_inv (req, p)" and "parser_inv (req, p)" and "\<not> in_body (pstate p)"
  shows "accept_inv (req', p')"
proof -
  note defs = accept_inv_def length_inv_def body_inv_def
  have hb: "uses_back (pstate p) \<Longrightarrow> rq_headers req \<noteq> []"
    using assms(3) by (simp add: parser_inv_def)
  have good: "rq_headers req \<noteq> [] \<Longrightarrow>
      good_header (last (rq_headers req)) \<and> (\<forall>h\<in>set (butlast (rq_headers req)). good_header h)"
    using assms(2) good_header_last by (simp add: accept_inv_def)
  have upto: "rq_headers req \<noteq> [] \<Longrightarrow> length_after (rq_headers req) 0 =
      bind_res (length_after (butlast (rq_headers req)) 0) (length_after [last (rq_headers req)])"
    by (rule length_after_last)
  show ?thesis
  proof (cases "pstate p")
    case Header_line_start
    with assms show ?thesis
      by (simp add: parser_defs split: if_splits; elim conjE; hypsubst?; simp add: defs good_header_new)
  next
    case Header_lws
    note b = hb [unfolded Header_lws uses_back_def, simplified]
    from Header_lws b assms upto [OF b] good [OF b] show ?thesis
      by (simp add: parser_defs update_back_def split: if_splits; elim conjE; hypsubst?;
          auto simp: defs value_char_eq good_header_add_value add_value_char_def good_header_def res_simps)
  next
    case Header_name
    note b = hb [unfolded Header_name uses_back_def, simplified]
    from Header_name b assms good [OF b] show ?thesis
      by (simp add: parser_defs update_back_def split: if_splits; elim conjE; hypsubst?;
          auto simp: defs good_header_add_name)
  next
    case Space_before_header_value
    with assms show ?thesis
      by (simp add: parser_defs split: if_splits; elim conjE; hypsubst?; simp add: defs)
  next
    case Header_value
    note b = hb [unfolded Header_value uses_back_def, simplified]
    from Header_value b assms upto [OF b] good [OF b] show ?thesis
      by (cases "stoul (hvalue (last (rq_headers req)))";
          simp add: parser_defs update_back_def end_of_value_def Let_def split: if_splits; elim conjE; hypsubst?;
          auto simp: defs value_char_eq good_header_add_value add_value_char_def good_header_def)
  next
    case Expecting_newline_2
    with assms show ?thesis
      by (simp add: parser_defs split: if_splits; elim conjE; hypsubst?; simp add: defs)
  qed (use assms in \<open>auto simp: parser_defs\<close>)
qed

lemma body_accept_inv:
  assumes "consume_body (pstate p) req p c = Inr ((req', p'), Indeterminate)"
    and "accept_inv (req, p)" and "parser_inv (req, p)"
    and "in_body (pstate p) \<or> pstate p = Expecting_newline_3"
  shows "accept_inv (req', p')"
proof -
  have ctr: "contentCtr p = length (jsonData req) mod 2 ^ 64"
    using assms(3) by (simp add: parser_inv_def)
  show ?thesis
  proof (cases "pstate p")
    case Expecting_newline_3
    with assms have "req' = req" "p' = p\<lparr>pstate := Body_content_normal\<rparr>" "jsonData req = []"
      "0 < expectedContentLength p"
      by (auto simp: parser_defs parser_inv_def in_body_def split: if_splits)
    with Expecting_newline_3 assms(2) show ?thesis
      by (auto simp: accept_inv_def length_inv_def body_inv_def)
  next
    case Body_content_normal
    then obtain ls l where b: "jsonData req = ls @ l" "crlf_lines ls" "\<forall>c\<in>set l. value_char c"
      "length (jsonData req) < 2 ^ 64 \<longrightarrow> length ls < expectedContentLength p"
      using assms(2) by (auto simp: accept_inv_def body_inv_def)
    show ?thesis
    proof (cases "c = CR")
      case True
      with Body_content_normal assms(1) have r: "req' = body_byte req c"
        "p' = (count_byte p)\<lparr>pstate := Body_content_expect_newline\<rparr>"
        by (auto simp: parser_defs)
      have "body_inv Body_content_expect_newline (jsonData req') (expectedContentLength p')"
        using b True by (intro body_inv_expectI [of _ ls l]) (auto simp: r body_byte_def count_byte_def)
      then show ?thesis using assms(2) Body_content_normal
        by (simp add: accept_inv_def length_inv_def r body_byte_def count_byte_def)
    next
      case False
      with Body_content_normal assms(1) have r: "req' = body_byte req c"
        "p' = (count_byte p)\<lparr>pstate := Body_content_normal\<rparr>" and v: "value_char c"
        by (auto simp: parser_defs value_char_eq split: if_splits)
      have "body_inv Body_content_normal (jsonData req') (expectedContentLength p')"
        using b v by (intro body_inv_normalI [of _ ls "l @ [c]"]) (auto simp: r body_byte_def count_byte_def)
      then show ?thesis using assms(2) Body_content_normal
        by (simp add: accept_inv_def length_inv_def r body_byte_def count_byte_def)
    qed
  next
    case Body_content_expect_newline
    then obtain ls l where b: "jsonData req = ls @ l @ [CR]" "crlf_lines ls" "\<forall>c\<in>set l. value_char c"
      using assms(2) by (auto simp: accept_inv_def body_inv_def)
    from Body_content_expect_newline assms(1) have r: "c = LF" "req' = body_byte req c"
        "p' = (count_byte p)\<lparr>pstate := Body_content_normal\<rparr>"
        and less: "contentCtr (count_byte p) < expectedContentLength p"
      by (auto simp: parser_defs Let_def count_byte_def split: if_splits)
    have body: "jsonData req' = ls @ l @ CRLF" by (simp add: r body_byte_def b)
    have "contentCtr (count_byte p) = length (jsonData req') mod 2 ^ 64"
      by (simp add: count_byte_def ctr body b sz_add_def mod_Suc_eq)
    then have "length (jsonData req') < 2 ^ 64 \<longrightarrow> length (jsonData req') < expectedContentLength p'"
      using less by (auto simp: r count_byte_def)
    moreover have "crlf_lines (jsonData req')"
      using crlf_lines_append [OF b(2)] crlf_lines_line [OF b(3)] by (simp add: body)
    ultimately have "body_inv Body_content_normal (jsonData req') (expectedContentLength p')"
      by (intro body_inv_normalI [of _ "jsonData req'" "[]"]) auto
    then show ?thesis using assms(2) Body_content_expect_newline
      by (simp add: accept_inv_def length_inv_def r body_byte_def count_byte_def)
  qed (use assms in \<open>auto simp: in_body_def\<close>)
qed

lemma step_accept_inv:
  assumes "consume req p c = Inr ((req', p'), Indeterminate)"
    and "accept_inv (req, p)" and "parser_inv (req, p)"
  shows "accept_inv (req', p')"
  using assms request_line_accept_inv [of p req c req' p'] header_accept_inv [of p req c req' p']
    body_accept_inv [of p req c req' p']
  by (cases "pstate p") (auto simp: consume_def uses_back_def in_body_def)

lemma consume_TTrue_states:
  "consume req p c = Inr ((req', p'), TTrue) \<Longrightarrow>
   pstate p = Expecting_newline_3 \<or> pstate p = Body_content_expect_newline"
  by (cases "pstate p")
     (auto simp: parser_defs update_back_def end_of_value_def Let_def res_simps split: if_splits)

lemma step_accepted:
  assumes "consume req p c = Inr ((req', p'), TTrue)"
    and "accept_inv (req, p)" and "parser_inv (req, p)" and "length (jsonData req') < 2 ^ 64"
  shows "accepted req' (expectedContentLength p')"
  using consume_TTrue_states [OF assms(1)]
proof
  assume st: "pstate p = Expecting_newline_3"
  with assms(1,3) have "req' = req" "p' = p" "expectedContentLength p = 0" "jsonData req = []"
    by (auto simp: parser_defs parser_inv_def in_body_def split: if_splits)
  with assms(2) st show ?thesis
    by (simp add: accepted_def accept_inv_def length_inv_def complete_body_def)
next
  assume st: "pstate p = Body_content_expect_newline"
  with assms(1) have r: "c = LF" "req' = body_byte req c" "p' = count_byte p"
      and le: "expectedContentLength p \<le> contentCtr (count_byte p)"
    by (auto simp: parser_defs Let_def count_byte_def split: if_splits)
  have len: "length (jsonData req) < 2 ^ 64" using assms(4) by (simp add: r body_byte_def)
  with st obtain ls l where b: "jsonData req = ls @ l @ [CR]" "crlf_lines ls"
      "\<forall>c\<in>set l. value_char c" "length ls < expectedContentLength p"
    using assms(2) by (auto simp: accept_inv_def body_inv_def)
  have body: "jsonData req' = ls @ l @ CRLF" by (simp add: r body_byte_def b)
  have "contentCtr (count_byte p) = length (jsonData req')"
    using assms(3,4) by (simp add: parser_inv_def count_byte_def sz_add_def mod_Suc_eq body b)
  then have "complete_body (jsonData req') (expectedContentLength p')"
    using b le body by (intro complete_bodyI [of _ ls l]) (auto simp: r count_byte_def)
  then show ?thesis using assms(2) st
    by (simp add: accepted_def accept_inv_def length_inv_def r body_byte_def count_byte_def)
qed

lemma parse_accepted:
  assumes "parse s buf = Inr ((req, p), TTrue, rest)" and "accept_inv s" and "parser_inv s"
    and "length (jsonData req) < 2 ^ 64"
  shows "accepted req (expectedContentLength p)"
  using assms
proof (induction s buf rule: parse.induct)
  case (2 req0 p0 c cs)
  show ?case
  proof (cases "consume req0 p0 c")
    case (Inr r)
    obtain req1 p1 t where r: "consume req0 p0 c = Inr ((req1, p1), t)" using Inr by (cases r) auto
    note inv = consume_inv [OF r "2.prems"(3)]
    show ?thesis
    proof (cases "t = Indeterminate")
      case True
      have "accept_inv (req1, p1)" using step_accept_inv r "2.prems" True by blast
      with 2 r True inv show ?thesis by simp
    next
      case False
      with 2 r have "t = TTrue" "req1 = req" "p1 = p" by auto
      with 2 r step_accepted show ?thesis by blast
    qed
  qed (use 2 in simp)
qed simp

section \<open>What the component promises\<close>

lemma stoul_Inl: "stoul s = Inl e \<Longrightarrow> e = Invalid_argument \<or> e = Out_of_range"
  by (auto simp: stoul_def Let_def split: if_splits)

lemma update_back_Inl: "update_back f req = Inl e \<Longrightarrow> e = Undefined_behaviour"
  by (simp add: update_back_def split: if_splits)

lemma stoul_neq_UB: "stoul s \<noteq> Inl Undefined_behaviour"
  by (auto dest: stoul_Inl)

text \<open>The only byte on which a parser throws: the end of the value of a Content-Length header.\<close>

definition length_refused :: "request \<times> parser \<Rightarrow> exn \<Rightarrow> bool" where
  "length_refused s e \<longleftrightarrow>
     (case s of (req, p) \<Rightarrow> pstate p = Header_value \<and> rq_headers req \<noteq> [] \<and>
        hname (last (rq_headers req)) = ''Content-Length'' \<and> stoul (hvalue (last (rq_headers req))) = Inl e)"

lemma consume_Inl_iff:
  assumes "parser_inv (req, p)"
  shows "consume req p c = Inl e \<longleftrightarrow> c = CR \<and> length_refused (req, p) e"
  using assms
  by (cases "pstate p")
     (auto simp: parser_defs parser_inv_def uses_back_def update_back_def end_of_value_def length_refused_def
        Let_def res_simps split: if_splits)

lemma parse_Inl_iff:
  assumes "parser_inv s"
  shows "parse s buf = Inl e \<longleftrightarrow>
    (\<exists>pre post s'. buf = pre @ CR # post \<and> parse s pre = Inr (s', Indeterminate, []) \<and> length_refused s' e)"
proof -
  have "parser_step s' c = Inl e \<longleftrightarrow> c = CR \<and> length_refused s' e"
    if "parse s pre = Inr (s', Indeterminate, [])" for pre s' c
    using consume_Inl_iff [of "fst s'" "snd s'"] rp.run_invar [OF assms that] by (simp add: parser_step_def)
  then have "parse s pre = Inr (s', Indeterminate, []) \<and> parser_step s' c = Inl e \<longleftrightarrow>
      c = CR \<and> parse s pre = Inr (s', Indeterminate, []) \<and> length_refused s' e" for pre s' c
    by blast
  then show ?thesis unfolding rp.run_Inl_iff by metis
qed

lemma length_refused_exn: "length_refused s e \<Longrightarrow> e = Invalid_argument \<or> e = Out_of_range"
  by (auto simp: length_refused_def dest: stoul_Inl)

lemma parse_Inl:
  assumes "parser_inv s" and "parse s buf = Inl e"
  shows "e = Invalid_argument \<or> e = Out_of_range"
  using assms by (auto simp: parse_Inl_iff dest: length_refused_exn)

text \<open>
  C32: the parser throws on exactly these bytes: a prefix that leaves it undecided inside the value of a
  header, the name of that header being Content-Length and its value one that \<open>std::stoul\<close> refuses,
  followed by a carriage return. What it throws is what \<open>std::stoul\<close> throws. Neither a value of another
  header, nor a version number, however long, nor a \<open>headers.back()\<close> of an empty vector ever stops it.
\<close>
theorem parser_exceptions:
  "parse (new_request mj mn, request_parser) buf = Inl e \<longleftrightarrow>
    (\<exists>pre post req p. buf = pre @ CR # post \<and>
      parse (new_request mj mn, request_parser) pre = Inr ((req, p), Indeterminate, []) \<and>
      pstate p = Header_value \<and> rq_headers req \<noteq> [] \<and>
      hname (last (rq_headers req)) = ''Content-Length'' \<and> stoul (hvalue (last (rq_headers req))) = Inl e)"
  unfolding parse_Inl_iff [OF parser_inv_start] by (simp add: length_refused_def)

lemma malformed_length:
  "parse (new_request 0 0, request_parser) (''GET / HTTP/1.0'' @ CRLF @ ''Content-Length: x'' @ CRLF)
     = Inl Invalid_argument"
  by code_simp

text \<open>A version number wraps: this request is read as one of version 1.0.\<close>

lemma version_wraps:
  "parse (new_request 0 0, request_parser) (''GET / HTTP/4294967297.0'' @ CRLF @ CRLF) =
    Inr ((\<lparr>req_method = ''GET'', uri = ''/'', http_version_major = 1, http_version_minor = 0,
       rq_headers = [], jsonData = ''''\<rparr>, mid Expecting_newline_3 0 0 0), TTrue, '''')"
  by code_simp

text \<open>
  C10: a well-formed request, with a body of CRLF-terminated lines as long as its last Content-Length
  header says (and none when that is absent or zero), is accepted exactly at its last byte and read as
  it was sent; what follows it is left in the buffer.
\<close>
theorem parse_well_formed:
  assumes "token m" and "\<forall>c\<in>set u. value_char c \<and> c \<noteq> CHR '' ''"
    and "\<forall>h\<in>set hs. good_header h" and "length_after hs 0 = Inr (length body)" and "crlf_lines body"
    and "small_version mj" and "small_version mn"
  shows "\<exists>p. parse (new_request x y, request_parser) (render_request m u mj mn hs body @ ys) =
    Inr ((sent_request m u mj mn hs body, p), TTrue, ys)"
  by (rule parse_request [OF assms])

lemma small_request_facts:
  "token ''GET''" "\<forall>c\<in>set ''/history''. value_char c \<and> c \<noteq> CHR '' ''"
  "good_header \<lparr>hname = ''Content-Length'', hvalue = ''4''\<rparr>" "crlf_lines (''ab'' @ CRLF)"
  by code_simp+

lemma small_request_length:
  "length_after [\<lparr>hname = ''Content-Length'', hvalue = ''4''\<rparr>] 0 = Inr (length (''ab'' @ CRLF))"
proof -
  have "dec 4 = ''4''" by code_simp
  then have "stoul ''4'' = Inr 4" using stoul_dec [of 4] by simp
  then show ?thesis by (simp add: res_simps)
qed

theorem parse_well_formed_witness:
  "\<exists>p. parse (new_request 7 7, request_parser)
     (render_request ''GET'' ''/history'' 1 0 [\<lparr>hname = ''Content-Length'', hvalue = ''4''\<rparr>] (''ab'' @ CRLF) @ ''xyz'')
   = Inr ((sent_request ''GET'' ''/history'' 1 0 [\<lparr>hname = ''Content-Length'', hvalue = ''4''\<rparr>] (''ab'' @ CRLF), p),
       TTrue, ''xyz'')"
  by (rule parse_well_formed)
     (use small_request_facts small_request_length in \<open>simp_all add: small_version_def\<close>)

text \<open>
  C11: conversely, an accepted request has a method token, a URI without blanks and control characters,
  well-formed headers, and the body its headers announce: none for length zero, otherwise CRLF lines
  that reach the announced length and would not reach it without the last line.
\<close>
theorem parse_accepts_only:
  assumes "parse (new_request x y, request_parser) buf = Inr ((req, p), TTrue, rest)"
    and "fits (jsonData req)"
  shows "accepted req (expectedContentLength p)"
  using parse_accepted [OF assms(1) accept_inv_start parser_inv_start] assms(2) by (simp add: fits_def)

lemma small_request_run:
  "parse (new_request 0 0, request_parser) (''GET /a HTTP/1.0'' @ CRLF @ ''A: b'' @ CRLF @ CRLF) =
    Inr ((\<lparr>req_method = ''GET'', uri = ''/a'', http_version_major = 1, http_version_minor = 0,
       rq_headers = [\<lparr>hname = ''A'', hvalue = ''b''\<rparr>], jsonData = ''''\<rparr>,
     mid Expecting_newline_3 0 0 0), TTrue, '''')"
  by code_simp

theorem parse_accepts_only_witness:
  "accepted \<lparr>req_method = ''GET'', uri = ''/a'', http_version_major = 1, http_version_minor = 0,
       rq_headers = [\<lparr>hname = ''A'', hvalue = ''b''\<rparr>], jsonData = ''''\<rparr> 0"
  using parse_accepts_only [OF small_request_run] by (simp add: fits_def)

text \<open>
  \<open>reset\<close> gives back the initial state only when the length counters were never used: it leaves
  \<open>expectedContentLength\<close> and \<open>contentCtr\<close> as they are.
\<close>
theorem reset_restores:
  "reset p = request_parser \<longleftrightarrow>
     contentLength p = 0 \<and> expectedContentLength p = 0 \<and> contentCtr p = 0"
  by (cases p) (auto simp: reset_def request_parser_def)

end
