(* ===== verification/Multipart.thy ===== *)
theory Multipart
  imports RequestHandler RequestParser
begin

text \<open>
  The multipart message as a client writes it, and the proof that \<open>retrieveImages\<close> of
  \<open>request_handler.cpp\<close> reads every part of it back.
\<close>

section \<open>Parts\<close>

text \<open>A part as the client writes it, and a whole multipart message with a given boundary.\<close>

definition part_head :: "string \<Rightarrow> string" where
  "part_head name =
     ''Content-Disposition: form-data; name='' @ [DQ] @ ''datafile'' @ [DQ] @ ''; filename='' @ [DQ] @ name @ [DQ]"

definition part_type :: string where
  "part_type = ''Content-Type: image/jpeg''"

definition part_text :: "string \<Rightarrow> string \<Rightarrow> string" where
  "part_text name payload = part_head name @ CRLF @ part_type @ CRLF @ CRLF @ payload @ CRLF"

primrec multipart :: "string \<Rightarrow> umap \<Rightarrow> string" where
  "multipart b [] = boundary_end_rn b"
| "multipart b (p # ps) = boundary_rn b @ part_text (fst p) (snd p) @ multipart b ps"

definition good_boundary :: "string \<Rightarrow> bool" where
  "good_boundary b \<longleftrightarrow> b \<noteq> [] \<and> CR \<notin> set b \<and> LF \<notin> set b \<and> last b \<noteq> DQ \<and> last b \<noteq> CHR ''-''"

definition good_name :: "string \<Rightarrow> bool" where
  "good_name n \<longleftrightarrow> (\<forall>c\<in>set n. value_char c \<and> c \<noteq> DQ)"

definition good_part :: "string \<times> string \<Rightarrow> bool" where
  "good_part p \<longleftrightarrow> good_name (fst p) \<and> (\<forall>c\<in>set (snd p). payload_char c)"

lemma good_name_chars:
  assumes "good_name n"
  shows "CR \<notin> set n" and "LF \<notin> set n" and "DQ \<notin> set n"
proof -
  have "\<not> value_char CR" "\<not> value_char LF" by code_simp+
  with assms show "CR \<notin> set n" "LF \<notin> set n" "DQ \<notin> set n" by (auto simp: good_name_def)
qed

lemma payload_chars:
  assumes "\<forall>c\<in>set p. payload_char c"
  shows "CR \<notin> set p" and "LF \<notin> set p" and "CHR ''-'' \<notin> set p"
proof -
  have "\<not> payload_char CR" "\<not> payload_char LF" "\<not> payload_char CHR ''-''" by code_simp+
  with assms show "CR \<notin> set p" "LF \<notin> set p" "CHR ''-'' \<notin> set p" by auto
qed

lemma part_line_chars:
  assumes "good_name n"
  shows "CR \<notin> set (part_head n)" and "CR \<notin> set part_type"
  using good_name_chars(1) [OF assms] by (simp_all add: part_head_def part_type_def)

lemma between:
  assumes "fits (pre @ start @ x @ stop @ rest)"
    and "find_sub stop (x @ stop @ rest) = Some (length x)"
  shows "str_find (pre @ start @ x @ stop @ rest) stop (length pre + length start) =
      Some (length pre + length start + length x)"
    and "substr (pre @ start @ x @ stop @ rest) (length pre + length start)
      (sz_sub (length pre + length start + length x) (length pre + length start)) = Inr x"
proof -
  let ?s = "pre @ start @ x @ stop @ rest" and ?n = "length pre + length start"
  have d: "drop ?n ?s = x @ stop @ rest" by simp
  have n: "?n \<le> length ?s" by simp
  show "str_find ?s stop ?n = Some (?n + length x)"
    unfolding str_find_def d using n assms(2) by simp
  have "?n + length x < 2 ^ 63" using assms(1) by (simp add: fits_def)
  then have z: "sz_sub (?n + length x) ?n = length x" by (rule sz_window(1))
  show "substr ?s ?n (sz_sub (?n + length x) ?n) = Inr x"
    unfolding substr_def d z using n by (simp del: length_append)
qed

lemma fits_append: "fits (xs @ ys) \<Longrightarrow> fits xs \<and> fits ys"
  by (simp add: fits_def)

definition head_start :: string where
  "head_start = ''Content-Disposition: form-data; name='' @ [DQ] @ ''datafile'' @ [DQ] @ ''; ''"

lemma part_head_eq: "part_head n = head_start @ (''filename='' @ [DQ]) @ n @ [DQ]"
  by (simp add: part_head_def head_start_def)

lemma find_filename: "find_sub (''filename='' @ [DQ]) (head_start @ (''filename='' @ [DQ]) @ xs) = Some (length head_start)"
  by (simp add: head_start_def)

lemma filename_of_part:
  assumes "fits (part_text n p @ rest)" and "good_name n"
  shows "retrieveFilenameFromMultiPartMessage (part_text n p @ rest) = Inr (Some n)"
proof -
  let ?start = "''filename='' @ [DQ]"
  obtain ys where s: "part_text n p @ rest = head_start @ ?start @ n @ [DQ] @ ys"
    by (simp add: part_text_def part_head_eq)
  have "DQ \<notin> set n" using assms(2) by (auto simp: good_name_def)
  then have "find_sub [DQ] (n @ [DQ] @ ys) = Some (length n)" by (simp add: find_sub_char)
  note b = between [OF assms(1) [unfolded s] this]
  have ten: "length ?start = 10" by simp
  show ?thesis
    unfolding s retrieveFilenameFromMultiPartMessage_def str_find_0 find_filename option.case Let_def
    using b unfolding ten by simp
qed

lemma image_of_part:
  assumes "fits (part_text n p @ rest)" and "good_name n" and "\<forall>c\<in>set p. payload_char c"
  shows "retrieveImageFromMultiPartMessage (part_text n p @ rest) = Inr (Some p)"
proof -
  let ?pre = "part_head n @ CRLF @ part_type"
  have s: "part_text n p @ rest = ?pre @ (CRLF @ CRLF) @ p @ CRLF @ rest"
    by (simp add: part_text_def)
  note cr = part_line_chars [OF assms(2)] payload_chars(1) [OF assms(3)]
  have "find_sub (CRLF @ CRLF) (?pre @ (CRLF @ CRLF) @ p @ CRLF @ rest) = Some (length ?pre)"
    using find_blank_line_skip [OF cr(1), of "CHR ''C''" "tl part_type @ CRLF @ CRLF @ p @ CRLF @ rest"]
      find_blank_line_here [OF cr(2), of "p @ CRLF @ rest"]
    by (simp add: part_type_def)
  moreover have "find_sub CRLF (p @ CRLF @ rest) = Some (length p)" using cr(3) by (rule find_sub_crlf)
  note b = between [OF assms(1) [unfolded s] this]
  have four: "length (CRLF @ CRLF) = 4" by simp
  ultimately show ?thesis
    unfolding s retrieveImageFromMultiPartMessage_def str_find_0
    using b unfolding four by simp
qed

section \<open>The separators\<close>

lemma not_suffix_last: "p \<noteq> [] \<Longrightarrow> l = [] \<or> last p \<noteq> last l \<Longrightarrow> \<not> suffix p l"
  by (auto simp: suffix_def)

lemma not_suffix_member: "c \<in> set p \<Longrightarrow> c \<notin> set l \<Longrightarrow> \<not> suffix p l"
  by (auto simp: suffix_def)

lemma dashes_part_type: "\<not> suffix (''--'' @ q) part_type"
proof
  assume "suffix (''--'' @ q) part_type"
  then have "sublist ''--'' part_type" by (auto simp: suffix_def sublist_def)
  moreover have "find_sub ''--'' part_type = None" by (simp add: part_type_def)
  ultimately show False by (simp add: find_sub_None_iff)
qed

text \<open>A line that starts with two dashes and ends neither in a quote is not found inside a part.\<close>

lemma find_skips_part:
  assumes part: "good_part (n, p)" and q: "CR \<notin> set q" "LF \<notin> set q" "q \<noteq> []" "last q \<noteq> DQ"
  shows "find_sub ((''--'' @ q) @ CRLF) (part_text n p @ rest) =
    map_option ((+) (length (part_text n p))) (find_sub ((''--'' @ q) @ CRLF) rest)"
proof -
  let ?l = "''--'' @ q"
  have n: "good_name n" and p: "\<forall>c\<in>set p. payload_char c" using part by (auto simp: good_part_def)
  have l: "CR \<notin> set ?l" "LF \<notin> set ?l" using q by auto
  have "last ?l = last q" and "last (part_head n) = DQ" using q(3) by (simp_all add: part_head_eq)
  then have sub: "\<not> suffix ?l (part_head n)" "\<not> suffix ?l []" "\<not> suffix ?l p"
    using q(4) not_suffix_last [of ?l "part_head n"] not_suffix_member [of "CHR ''-''" ?l p]
      payload_chars(3) [OF p] by simp_all
  let ?x3 = "p @ CRLF @ rest" and ?F = "find_sub (?l @ CRLF)"
  have 1: "?F (part_head n @ CRLF @ part_type @ CRLF @ CRLF @ ?x3) =
      map_option ((+) (length (part_head n) + 2)) (?F (part_type @ CRLF @ CRLF @ ?x3))"
    by (rule find_line_skip [OF part_line_chars(1) [OF n] l sub(1)])
  have 2: "?F (part_type @ CRLF @ CRLF @ ?x3) = map_option ((+) (length part_type + 2)) (?F (CRLF @ ?x3))"
    by (rule find_line_skip [OF part_line_chars(2) [OF n] l dashes_part_type])
  have 3: "?F (CRLF @ ?x3) = map_option ((+) 2) (?F ?x3)"
    using find_line_skip [of "[]" ?l ?x3, OF _ l sub(2)]
    unfolding append_Nil list.size add_0 by simp
  have 4: "?F ?x3 = map_option ((+) (length p + 2)) (?F rest)"
    by (rule find_line_skip [OF payload_chars(1) [OF p] l sub(3)])
  have len: "length (part_text n p) = (length (part_head n) + 2) + ((length part_type + 2) + (2 + (length p + 2)))"
    by (simp add: part_text_def)
  show ?thesis
    unfolding len unfolding part_text_def append_assoc 1 [unfolded append_assoc] 2 [unfolded append_assoc]
      3 [unfolded append_assoc] 4 [unfolded append_assoc]
    by (cases "find_sub (?l @ CRLF) rest") (simp_all add: ac_simps)
qed

section \<open>The loop\<close>

lemma boundary_line: "boundary_rn b = (''--'' @ b) @ CRLF" "boundary_end_rn b = (''--'' @ b @ ''--'') @ CRLF"
  by (simp_all add: boundary_rn_def boundary_end_rn_def)

lemma find_boundary_line:
  assumes "good_boundary b" and "good_part (n, p)"
  shows "find_sub (boundary_rn b) (part_text n p @ boundary_rn b @ rest) = Some (length (part_text n p))"
    and "find_sub (boundary_rn b) (part_text n p @ boundary_end_rn b) = None"
    and "find_sub (boundary_end_rn b) (part_text n p @ boundary_end_rn b) = Some (length (part_text n p))"
proof -
  have b: "CR \<notin> set b" "LF \<notin> set b" "b \<noteq> []" "last b \<noteq> DQ" "last b \<noteq> CHR ''-''"
    using assms(1) by (simp_all add: good_boundary_def)
  note skip = find_skips_part [OF assms(2) b(1-4)]
  show "find_sub (boundary_rn b) (part_text n p @ boundary_rn b @ rest) = Some (length (part_text n p))"
    unfolding boundary_line(1) skip find_sub_here by simp
  have "\<not> suffix (''--'' @ b) (''--'' @ b @ ''--'')"
    using b by (intro not_suffix_last) simp_all
  then have "find_sub (boundary_rn b) (boundary_end_rn b) = None"
    using find_line_skip [of "''--'' @ b @ ''--''" "''--'' @ b" "[]"] b
    by (simp add: boundary_line)
  then show "find_sub (boundary_rn b) (part_text n p @ boundary_end_rn b) = None"
    unfolding boundary_line(1) skip by simp
  have "find_sub (boundary_end_rn b) (boundary_end_rn b) = Some 0"
    using find_sub_here [of "boundary_end_rn b" "[]"] by simp
  moreover have "find_sub (boundary_end_rn b) (part_text n p @ rest) =
      map_option ((+) (length (part_text n p))) (find_sub (boundary_end_rn b) rest)" for rest
    unfolding boundary_line(2) by (rule find_skips_part [OF assms(2)]) (use b in simp_all)
  ultimately show "find_sub (boundary_end_rn b) (part_text n p @ boundary_end_rn b) = Some (length (part_text n p))"
    by simp
qed

text \<open>Each part that the loop cuts out carries one character of what follows it.\<close>

lemma part_window:
  assumes "fits (xs @ t @ rest)"
  shows "substr (xs @ t @ rest) (length xs) (sz_add (sz_sub (length xs + length t) (length xs)) 1) =
    Inr (t @ take 1 rest)"
proof -
  have "length xs + length t < 2 ^ 63" using assms by (simp add: fits_def)
  from sz_window(2) [OF this] show ?thesis by (simp add: substr_def)
qed

lemma add_part_text:
  assumes "fits (part_text n p @ rest)" and "good_part (n, p)"
  shows "add_part (part_text n p @ rest) out = Inr (Some (umap_assign n p out))"
  using filename_of_part [OF assms(1)] image_of_part [OF assms(1)] assms(2)
  by (simp add: add_part_def good_part_def)

lemma fits_cut: "fits (xs @ t @ rest) \<Longrightarrow> fits (t @ take 1 rest)"
  by (simp add: fits_def)

lemma images_loop_multipart:
  assumes "good_boundary b" and "\<forall>q\<in>set ((n, p) # parts). good_part q"
    and "fits (xs @ part_text n p @ multipart b parts)"
  shows "images_loop b (xs @ part_text n p @ multipart b parts) (length xs) out =
    Inr (Some (fold (\<lambda>q. umap_assign (fst q) (snd q)) ((n, p) # parts) out))"
  using assms(2,3)
proof (induction parts arbitrary: xs n p out)
  case Nil
  then have good: "good_part (n, p)" by simp
  let ?s = "xs @ part_text n p @ boundary_end_rn b"
  have fit: "fits ?s" using Nil by simp
  note sep = find_boundary_line(2,3) [OF assms(1) good]
  have "images_loop b ?s (length xs) out = add_part (part_text n p @ take 1 (boundary_end_rn b)) out"
    by (subst images_loop.simps) (simp add: str_find_append sep part_window [OF fit] del: One_nat_def)
  then show ?case using add_part_text [OF fits_cut [OF fit] good] by simp
next
  case (Cons q parts)
  obtain n' p' where q: "q = (n', p')" by (cases q)
  have good: "good_part (n, p)" using Cons by simp
  let ?r = "part_text n' p' @ multipart b parts"
  let ?s = "xs @ part_text n p @ boundary_rn b @ ?r" and ?xs' = "xs @ part_text n p @ boundary_rn b"
  have fit: "fits ?s" using Cons q by simp
  note sep = find_boundary_line(1) [OF assms(1) good, of ?r]
  have s: "?s = ?xs' @ ?r" and l: "length xs + length (part_text n p) + length (boundary_rn b) = length ?xs'"
    by simp_all
  have fit': "fits (?xs' @ ?r)" using fit unfolding s .
  have "images_loop b ?s (length xs) out =
      bind_res (add_part (part_text n p @ take 1 (boundary_rn b @ ?r)) out) (\<lambda>r. case r of
        None \<Rightarrow> Inr None | Some out' \<Rightarrow> images_loop b ?s (length ?xs') out')"
    by (subst images_loop.simps)
       (simp only: str_find_append sep option.map option.case part_window [OF fit] bind_res.simps l)
  also have "\<dots> = images_loop b ?s (length ?xs') (umap_assign n p out)"
    by (simp only: add_part_text [OF fits_cut [OF fit] good] bind_res.simps option.case)
  also have "\<dots> = images_loop b (?xs' @ ?r) (length ?xs') (umap_assign n p out)"
    by (simp only: s)
  also have "\<dots> = Inr (Some (fold (\<lambda>q. umap_assign (fst q) (snd q)) ((n', p') # parts) (umap_assign n p out)))"
    using Cons.prems(1) q by (intro Cons.IH [OF _ fit']) simp
  finally show ?case by (simp add: q)
qed

lemma retrieve_images_multipart:
  assumes "good_boundary b" and "\<forall>q\<in>set parts. good_part q" and "parts \<noteq> []"
    and "fits (multipart b parts)"
  shows "\<exists>m. retrieveImages b (multipart b parts) = Inr (Some m) \<and>
    distinct (map fst m) \<and> map_of m = map_of (rev parts)"
proof -
  obtain n p ps where parts: "parts = (n, p) # ps" using assms(3) by (cases parts) auto
  let ?m = "fold (\<lambda>q. umap_assign (fst q) (snd q)) parts []"
  have "find_sub (boundary_rn b) (boundary_rn b @ part_text n p @ multipart b ps) = Some 0"
    by (rule find_sub_here)
  then have "retrieveImages b (multipart b parts) = Inr (Some ?m)"
    using images_loop_multipart [of b n p ps "boundary_rn b" "[]"] assms
    by (simp add: retrieveImages_def parts str_find_0)
  moreover have "distinct (map fst (fold (\<lambda>q. umap_assign (fst q) (snd q)) ps m)) \<and>
      map_of (fold (\<lambda>q. umap_assign (fst q) (snd q)) ps m) = map_of m ++ map_of (rev ps)"
    if "distinct (map fst m)" for ps m
    using that
    by (induction ps arbitrary: m) (auto simp: distinct_umap_assign map_of_umap_assign)
  from this [of "[]" parts] have "distinct (map fst ?m) \<and> map_of ?m = map_of (rev parts)" by simp
  ultimately show ?thesis by blast
qed

text \<open>
  C25: from a message with at least one part, \<open>retrieveImages\<close> returns every name with its payload;
  of several parts with one name the last one is kept.
\<close>
theorem retrieve_images:
  assumes "good_boundary b" and "\<forall>q\<in>set parts. good_part q" and "parts \<noteq> []"
    and "fits (multipart b parts)"
  shows "\<exists>m. retrieveImages b (multipart b parts) = Inr (Some m) \<and>
    distinct (map fst m) \<and> map_of m = map_of (rev parts)"
  by (rule retrieve_images_multipart [OF assms])

theorem retrieve_images_witness:
  "\<exists>m. retrieveImages ''7e2'' (multipart ''7e2'' [(''a.jpg'', ''TWFu''), (''b.jpg'', ''TWE='')]) = Inr (Some m) \<and>
    distinct (map fst m) \<and> map_of m = map_of (rev [(''a.jpg'', ''TWFu''), (''b.jpg'', ''TWE='')])"
proof (rule retrieve_images)
  show "good_boundary ''7e2''" by (simp add: good_boundary_def)
  show "\<forall>q\<in>set [(''a.jpg'', ''TWFu''), (''b.jpg'', ''TWE='')]. good_part q" by code_simp
  show "fits (multipart ''7e2'' [(''a.jpg'', ''TWFu''), (''b.jpg'', ''TWE='')])"
    by (simp add: fits_def part_text_def part_head_def part_type_def boundary_rn_def boundary_end_rn_def)
qed simp

end
