(* ===== verification/Upload.thy ===== *)
theory Upload
  imports Client Multipart
begin

text \<open>
  The client and the server together: the message \<open>sendRequest\<close> writes is accepted by the request
  parser however the network cuts it, and the request handler hands the pipeline the bytes of the files.
\<close>

section \<open>The message as a request\<close>

definition client_headers :: "nat \<Rightarrow> header list" where
  "client_headers n =
     [\<lparr>hname = ''Accept'', hvalue = ''*/*''\<rparr>,
      \<lparr>hname = ''Content-Length'', hvalue = dec n\<rparr>,
      \<lparr>hname = ''Content-Type'', hvalue = ''multipart/form-data; boundary='' @ client_boundary\<rparr>,
      \<lparr>hname = ''Connection'', hvalue = ''close''\<rparr>]"

lemma predict_message_render:
  "predict_message body = render_request ''POST'' ''/predict'' 1 0 (client_headers (length body)) body"
proof -
  have "dec 1 = ''1''" "dec 0 = ''0''" by code_simp+
  then show ?thesis
    by (simp add: predict_message_def render_request_def render_header_def client_headers_def client_boundary_def)
qed

lemma history_message_render:
  "history_message = render_request ''GET'' ''/history'' 1 0
     [\<lparr>hname = ''Accept'', hvalue = ''*/*''\<rparr>, \<lparr>hname = ''Connection'', hvalue = ''close''\<rparr>] ''''"
proof -
  have "dec 1 = ''1''" "dec 0 = ''0''" by code_simp+
  then show ?thesis
    by (simp add: history_message_def render_request_def render_header_def)
qed

lemma digit_value_char: "is_digit_char c \<Longrightarrow> value_char c"
  by (auto simp: is_digit_char_def value_char_def)

lemmas literal_chars = token_def token_char_def value_char_def uchar_def

lemma client_headers_good: "\<forall>h\<in>set (client_headers n). good_header h"
proof -
  have "token ''Accept''" "token ''Content-Length''" "token ''Content-Type''" "token ''Connection''"
    "\<forall>c\<in>set ''*/*''. value_char c" "\<forall>c\<in>set ''close''. value_char c"
    "\<forall>c\<in>set (''multipart/form-data; boundary='' @ client_boundary). value_char c"
    by (simp_all add: client_boundary_def literal_chars)
  moreover have "\<forall>c\<in>set (dec n). value_char c" using dec_digits digit_value_char by blast
  ultimately show ?thesis by (simp add: client_headers_def good_header_def)
qed

lemma client_length: "n < 2 ^ 64 \<Longrightarrow> length_after (client_headers n) 0 = Inr n"
  by (simp add: client_headers_def stoul_dec)

lemma client_boundary_found: "find_boundary (client_headers n) '''' = Inr (Some client_boundary)"
proof -
  have "retrieveMultipartBoundary (''multipart/form-data; boundary='' @ client_boundary) = Inr (Some client_boundary)"
    by (simp add: client_boundary_def retrieveMultipartBoundary_def str_find_0 find_first_of_def Let_def substr_def)
  then show ?thesis by (simp add: client_headers_def)
qed

section \<open>The body\<close>

text \<open>What is uploaded: for each path the name that is sent and the bytes of the file.\<close>

primrec uploads :: "filesystem \<Rightarrow> string list \<Rightarrow> umap" where
  "uploads fs [] = []"
| "uploads fs (f # fs') =
     (case fs_read fs f of Contents bytes \<Rightarrow> (fs_filename fs f, bytes) # uploads fs fs' | _ \<Rightarrow> [])"

text \<open>The same with the encoded bytes.\<close>

definition encoded :: "umap \<Rightarrow> umap" where
  "encoded us = map (\<lambda>u. (fst u, the (base64_encode (snd u) False))) us"

lemma file_part_text: "file_part n e = boundary_rn client_boundary @ part_text n e"
  by (simp add: file_part_def boundary_rn_def client_boundary_def part_text_def part_head_def part_type_def)

lemma file_parts_multipart:
  "file_parts fs files = Returned parts \<Longrightarrow>
    parts @ boundary_end_rn client_boundary = multipart client_boundary (encoded (uploads fs files)) \<and>
    length (uploads fs files) = length files \<and>
    (\<forall>u\<in>set (uploads fs files). base64_encode (snd u) False \<noteq> None)"
proof (induction files arbitrary: parts)
  case Nil
  then show ?case by (simp add: encoded_def)
next
  case (Cons f files)
  then obtain bytes e rest where f: "fs_read fs f = Contents bytes" "base64_encode bytes False = Some e"
      "file_parts fs files = Returned rest" "parts = file_part (fs_filename fs f) e @ rest"
    by (cases "file_parts fs files") (auto split: option.splits file_read.splits)
  show ?case using Cons.IH [OF f(3)] f
    by (simp add: encoded_def file_part_text)
qed

lemma predict_body_multipart:
  assumes "predict_body fs files = Returned body"
  shows "body = multipart client_boundary (encoded (uploads fs files))"
    and "length (uploads fs files) = length files"
    and "\<forall>u\<in>set (uploads fs files). base64_encode (snd u) False \<noteq> None"
proof -
  obtain parts where p: "file_parts fs files = Returned parts"
    and b: "body = parts @ ''--77580b83-390b-4c34-8393-4eac360c7b42--'' @ CRLF"
    using assms by (cases "file_parts fs files") (auto simp: predict_body_def)
  have "''--77580b83-390b-4c34-8393-4eac360c7b42--'' @ CRLF = boundary_end_rn client_boundary"
    by (simp add: boundary_end_rn_def client_boundary_def)
  with file_parts_multipart [OF p] b
  show "body = multipart client_boundary (encoded (uploads fs files))"
    and "length (uploads fs files) = length files"
    and "\<forall>u\<in>set (uploads fs files). base64_encode (snd u) False \<noteq> None"
    by simp_all
qed

lemma crlf_lines_skip: "\<forall>c\<in>set l. value_char c \<Longrightarrow> crlf_lines (l @ CRLF @ rest) \<longleftrightarrow> crlf_lines rest"
proof (induction l)
  case (Cons c l)
  have "\<not> value_char CR" by code_simp
  with Cons have "c \<noteq> CR" by auto
  with Cons show ?case by simp
qed simp

lemma payload_value_char: "payload_char c \<Longrightarrow> value_char c"
  by (auto simp: payload_char_def value_char_def)

lemma crlf_lines_part: "good_part (n, p) \<Longrightarrow> crlf_lines (part_text n p @ rest) \<longleftrightarrow> crlf_lines rest"
proof -
  assume g: "good_part (n, p)"
  have "\<forall>c\<in>set (''Content-Disposition: form-data; name='' @ [DQ] @ ''datafile'' @ [DQ] @ ''; filename='' @ [DQ]). value_char c"
    by (simp add: literal_chars)
  then have "\<forall>c\<in>set (part_head n). value_char c"
    using g by (auto simp: part_head_def good_part_def good_name_def)
  moreover have "\<forall>c\<in>set part_type. value_char c" by (simp add: part_type_def literal_chars)
  moreover have "\<forall>c\<in>set p. value_char c" using g payload_value_char by (auto simp: good_part_def)
  ultimately show ?thesis
    unfolding part_text_def append_assoc
    using crlf_lines_skip [of "[]" "p @ CRLF @ rest"] by (simp only: crlf_lines_skip append_Nil) simp
qed

lemma crlf_lines_multipart:
  "\<forall>c\<in>set b. value_char c \<Longrightarrow> \<forall>q\<in>set parts. good_part q \<Longrightarrow> crlf_lines (multipart b parts)"
proof (induction parts)
  case Nil
  have "value_char CHR ''-''" by code_simp
  with Nil crlf_lines_skip [of "''--'' @ b @ ''--''" "[]"] show ?case
    by (simp add: boundary_end_rn_def)
next
  case (Cons q parts)
  have "value_char CHR ''-''" by code_simp
  with Cons crlf_lines_skip [of "''--'' @ b" "part_text (fst q) (snd q) @ multipart b parts"]
    crlf_lines_part [of "fst q" "snd q" "multipart b parts"]
  show ?case by (simp add: boundary_rn_def)
qed

section \<open>From the files to the pipeline\<close>

lemma uploads_names: "n \<in> fst ` set (uploads fs files) \<Longrightarrow> n \<in> fs_filename fs ` set files"
  by (induction files) (auto split: option.splits)

lemma encoded_good:
  assumes "predict_body fs files = Returned body" and "\<forall>f\<in>set files. good_name (fs_filename fs f)"
  shows "\<forall>q\<in>set (encoded (uploads fs files)). good_part q"
proof
  fix q
  assume "q \<in> set (encoded (uploads fs files))"
  then obtain u where u: "u \<in> set (uploads fs files)" and q: "q = (fst u, the (base64_encode (snd u) False))"
    by (auto simp: encoded_def)
  then obtain e where e: "base64_encode (snd u) False = Some e"
    using predict_body_multipart(3) [OF assms(1)] by auto
  have "good_name (fst u)" using assms(2) uploads_names [of "fst u" fs files] u by auto
  then show "good_part q" using b64.encode_payload [OF e] by (simp add: good_part_def q e)
qed

lemma map_of_snd: "map_of (map (\<lambda>q. (fst q, f (snd q))) ps) n = map_option f (map_of ps n)"
  by (induction ps) auto

lemma decode_upload:
  assumes "predict_body fs files = Returned body" and "map_of (rev (uploads fs files)) n = Some bytes"
  shows "base64_decode (the (base64_encode bytes False)) True = Inr bytes"
proof -
  have "(n, bytes) \<in> set (uploads fs files)" using map_of_SomeD [OF assms(2)] by simp
  then obtain e where e: "base64_encode bytes False = Some e"
    using predict_body_multipart(3) [OF assms(1)] by auto
  then show ?thesis using b64.decode_encode [OF e] by simp
qed

definition decoded :: "umap \<Rightarrow> (string \<times> string result) list" where
  "decoded m = map (\<lambda>q. (fst q, base64_decode (snd q) True)) m"

text \<open>
  The request the server builds from the client's bytes, and the images its handler finds in it.
\<close>

definition client_request_of :: "string \<Rightarrow> request" where
  "client_request_of body = sent_request ''POST'' ''/predict'' 1 0 (client_headers (length body)) body"

lemma client_message_complete:
  assumes "fits body" and "crlf_lines body"
  shows "\<exists>p. parse (new_request mj mn, request_parser) (predict_message body) =
    Inr ((client_request_of body, p), TTrue, [])"
proof -
  have n: "length body < 2 ^ 64" using assms(1) by (simp add: fits_def)
  have version: "small_version 1" "small_version 0" by (simp_all add: small_version_def)
  have post: "token ''POST''" and path: "\<forall>c\<in>set ''/predict''. value_char c \<and> c \<noteq> CHR '' ''"
    by (simp_all add: literal_chars)
  show ?thesis
    using parse_request [OF post path client_headers_good client_length [OF n] assms(2) version, where ys = "[]"]
    unfolding predict_message_render client_request_of_def by simp
qed

lemma client_message_parsed:
  assumes "fits body" and "crlf_lines body" and "concat chunks = predict_message body"
  shows "\<exists>p. feed_chunks parse (new_request mj mn, request_parser) chunks =
    Inr ((client_request_of body, p), TTrue)"
  using client_message_complete [OF assms(1,2), of mj mn] by (auto simp: rp.feed_concat assms(3))

lemma client_images:
  assumes "predict_body fs files = Returned body" and "files \<noteq> []" and "fits body"
    and "\<forall>f\<in>set files. good_name (fs_filename fs f)"
  shows "\<exists>m. retrieveImages client_boundary body = Inr (Some m) \<and> distinct (map fst m) \<and>
    map_of m = map_of (rev (encoded (uploads fs files)))"
proof -
  note body = predict_body_multipart [OF assms(1)]
  have b: "good_boundary client_boundary" by (simp add: good_boundary_def client_boundary_def)
  have ne: "encoded (uploads fs files) \<noteq> []" using body(2) assms(2) by (auto simp: encoded_def)
  show ?thesis
    using retrieve_images_multipart [OF b encoded_good [OF assms(1,4)] ne] assms(3) unfolding body(1) by blast
qed

lemma client_body_lines:
  assumes "predict_body fs files = Returned body" and "\<forall>f\<in>set files. good_name (fs_filename fs f)"
  shows "crlf_lines body"
proof -
  have "\<forall>c\<in>set client_boundary. value_char c" by (simp add: client_boundary_def literal_chars)
  then show ?thesis
    unfolding predict_body_multipart(1) [OF assms(1)]
    by (rule crlf_lines_multipart [OF _ encoded_good [OF assms]])
qed

lemma client_request_handled:
  assumes "retrieveImages client_boundary body = Inr (Some m)"
  shows "handle_request sv (client_request_of body) rep w = predict_images sv m rep w"
proof -
  have "url_decode ''/predict'' = Some ''/predict''" by simp
  moreover have "client_boundary \<noteq> []" by (simp add: client_boundary_def)
  ultimately show ?thesis
    using assms client_boundary_found
    by (simp add: decoded_route(1) client_request_of_def sent_request_def handle_predict_def)
qed

text \<open>
  C1: for files with plain names, the message of the client is accepted by the parser however it is cut
  into reads, and the handler runs the pipeline on images whose decoded bytes are exactly those of the
  files, one per name (of several files with one name only the last is analysed).
\<close>
theorem client_to_pipeline:
  assumes "predict_body fs files = Returned body" and "files \<noteq> []" and "fits body"
    and "\<forall>f\<in>set files. good_name (fs_filename fs f)"
    and "concat chunks = predict_message body"
  shows "\<exists>req p m. feed_chunks parse (new_request mj mn, request_parser) chunks = Inr ((req, p), TTrue) \<and>
    (\<forall>sv rep (w :: 'db world). handle_request sv req rep w = predict_images sv m rep w) \<and>
    distinct (map fst m) \<and>
    map_of (decoded m) = map_of (map (\<lambda>u. (fst u, Inr (snd u))) (rev (uploads fs files)))"
proof -
  obtain m where m: "retrieveImages client_boundary body = Inr (Some m)" "distinct (map fst m)"
    and map: "map_of m = map_of (rev (encoded (uploads fs files)))"
    using client_images [OF assms(1-4)] by blast
  have "map_of (decoded m) = map_of (map (\<lambda>u. (fst u, Inr (snd u))) (rev (uploads fs files)))"
  proof
    fix n
    have "map_of (decoded m) n = map_option (\<lambda>e. base64_decode e True) (map_of m n)"
      unfolding decoded_def by (rule map_of_snd)
    also have "map_of m n = map_option (\<lambda>d. the (base64_encode d False)) (map_of (rev (uploads fs files)) n)"
      unfolding map encoded_def rev_map by (rule map_of_snd)
    finally show "map_of (decoded m) n = map_of (map (\<lambda>u. (fst u, Inr (snd u))) (rev (uploads fs files))) n"
      unfolding map_of_snd using decode_upload [OF assms(1), of n]
      by (cases "map_of (rev (uploads fs files)) n") simp_all
  qed
  with m client_message_parsed [OF assms(3) client_body_lines [OF assms(1,4)] assms(5)]
    client_request_handled [OF m(1)] show ?thesis by blast
qed

text \<open>One file, small enough to evaluate.\<close>

definition demo_fs :: filesystem where
  "demo_fs = \<lparr>fs_exists = (\<lambda>_. Some True), fs_regular = (\<lambda>_. Some True), fs_filename = (\<lambda>f. f),
     fs_read = (\<lambda>_. Contents ''Man'')\<rparr>"

definition demo_body :: string where
  "demo_body = file_part ''a.jpg'' ''TWFu'' @ ''--77580b83-390b-4c34-8393-4eac360c7b42--'' @ CRLF"

lemma demo_facts:
  "predict_body demo_fs [''a.jpg''] = Returned demo_body" "fits demo_body"
  "\<forall>f\<in>set [''a.jpg'']. good_name (fs_filename demo_fs f)"
  "uploads demo_fs [''a.jpg''] = [(''a.jpg'', ''Man'')]"
  by (simp_all add: predict_body_def demo_fs_def demo_body_def encode_Man fits_def file_part_def
      good_name_def literal_chars)

theorem client_to_pipeline_witness:
  "\<exists>req p m. feed_chunks parse (new_request 0 0, request_parser)
      [take 10 (predict_message demo_body), drop 10 (predict_message demo_body)] = Inr ((req, p), TTrue) \<and>
    (\<forall>sv rep (w :: mem_db world). handle_request sv req rep w = predict_images sv m rep w) \<and>
    distinct (map fst m) \<and>
    map_of (decoded m) = map_of (map (\<lambda>u. (fst u, Inr (snd u))) (rev (uploads demo_fs [''a.jpg''])))"
  by (rule client_to_pipeline [OF demo_facts(1) _ demo_facts(2,3)]) simp_all

section \<open>The reply to an upload\<close>

lemma run_images_decoded:
  "\<forall>q\<in>set ims. base64_decode (snd q) True = Inr (dc (snd q)) \<Longrightarrow>
    run_images person ims = Inr (map (\<lambda>q. person (dc (snd q)) (fst q)) ims)"
  by (induction ims) simp_all

lemma store_result_total:
  "(\<And>d k f v. \<exists>d'. hs d k f v = Inr d') \<Longrightarrow> \<exists>w'. store_result hs j w = Inr w'"
proof -
  assume total: "\<And>d k f v. \<exists>d'. hs d k f v = Inr d'"
  obtain d' where "hs (db w) ''history'' (dec (unat (ctr w))) j = Inr d'" using total by blast
  then show ?thesis by (simp add: store_result_def generateHandle_eq save_def getInstance_def)
qed

lemma decode_found:
  assumes "predict_body fs files = Returned body" and "map_of m = map_of (rev (encoded (uploads fs files)))"
    and "map_of m n = Some e"
  shows "base64_decode e True = Inr (case base64_decode e True of Inr b \<Rightarrow> b | Inl _ \<Rightarrow> [])"
proof -
  have "map_option (\<lambda>d. the (base64_encode d False)) (map_of (rev (uploads fs files)) n) = Some e"
    using assms(3) map_of_snd [of "\<lambda>d. the (base64_encode d False)" "rev (uploads fs files)" n]
    unfolding assms(2) encoded_def rev_map by simp
  then show ?thesis using decode_upload [OF assms(1), of n] by auto
qed

text \<open>The images of an upload, in the order they are iterated, and what the pipeline returns for them.\<close>

lemma upload_images:
  assumes "predict_body fs files = Returned body" and "files \<noteq> []" and "fits body"
    and "\<forall>f\<in>set files. good_name (fs_filename fs f)" and "\<forall>m. mset (order m) = mset m"
  obtains m us where "retrieveImages client_boundary body = Inr (Some m)" and "us \<noteq> []"
    and "distinct (map fst us)" and "map_of us = map_of (rev (uploads fs files))"
    and "\<forall>person. run_images person (order m) = Inr (map (\<lambda>u. person (snd u) (fst u)) us)"
proof -
  obtain m where m: "retrieveImages client_boundary body = Inr (Some m)" "distinct (map fst m)"
    and map: "map_of m = map_of (rev (encoded (uploads fs files)))"
    using client_images [OF assms(1-4)] by blast
  define dc where "dc e = (case base64_decode e True of Inr b \<Rightarrow> b | Inl _ \<Rightarrow> [])" for e
  define us where "us = map (\<lambda>q. (fst q, dc (snd q))) (order m)"
  note perm = permuted_map [OF m(2) assms(5) [rule_format]]
  have dc: "base64_decode e True = Inr (dc e)" if "(n, e) \<in> set (order m)" for n e
    using that perm decode_found [OF assms(1) map] unfolding dc_def by (metis map_of_is_SomeI)
  have run: "run_images person (order m) = Inr (map (\<lambda>u. person (snd u) (fst u)) us)" for person
  proof -
    have "run_images person (order m) = Inr (map (\<lambda>q. person (dc (snd q)) (fst q)) (order m))"
      by (rule run_images_decoded) (use dc in auto)
    then show ?thesis by (simp add: us_def comp_def)
  qed
  have us: "map_of us n = map_of (rev (uploads fs files)) n" for n
  proof -
    have "map_of us n = map_option dc (map_of m n)" unfolding us_def map_of_snd perm [THEN conjunct2] ..
    also have "map_of m n = map_option (\<lambda>d. the (base64_encode d False)) (map_of (rev (uploads fs files)) n)"
      unfolding map encoded_def rev_map by (rule map_of_snd)
    finally show ?thesis
      using decode_upload [OF assms(1), of n]
      by (cases "map_of (rev (uploads fs files)) n") (simp_all add: dc_def)
  qed
  have "uploads fs files \<noteq> []" using predict_body_multipart(2) [OF assms(1)] assms(2) by auto
  then have "us \<noteq> []" using us by (metis map_of_eq_empty_iff rev_is_Nil_conv ext)
  moreover have "distinct (map fst us)" using perm by (simp add: us_def comp_def)
  ultimately show thesis using that [of m us] m(1) us run by blast
qed

lemma upload_answered:
  assumes "predict_body fs files = Returned body" and "files \<noteq> []" and "fits body"
    and "\<forall>f\<in>set files. good_name (fs_filename fs f)"
    and "concat chunks = predict_message body"
    and "\<forall>u\<in>set (uploads fs files). person_run sv (snd u) (fst u) = json_object (members (snd u) (fst u))"
    and "\<forall>u\<in>set (uploads fs files). fits (json_object (members (snd u) (fst u)))"
    and "\<forall>m. mset (iter sv m) = mset m" and "\<forall>d k f v. \<exists>d'. hset sv d k f v = Inr d'"
  shows "\<exists>p us w'. feed_chunks parse (new_request mj mn, request_parser) chunks =
      Inr ((client_request_of body, p), TTrue) \<and>
    distinct (map fst us) \<and> map_of us = map_of (rev (uploads fs files)) \<and>
    handle_request sv (client_request_of body) rep w =
      Inr (json_reply (json_object (concat (map (\<lambda>u. members (snd u) (fst u)) us))) rep, w')"
proof -
  obtain m us where m: "retrieveImages client_boundary body = Inr (Some m)"
    and us: "distinct (map fst us)" "map_of us = map_of (rev (uploads fs files))"
    and run: "run_images (person_run sv) (iter sv m) = Inr (map (\<lambda>u. person_run sv (snd u) (fst u)) us)"
    using upload_images [OF assms(1-4,8)] by blast
  have uploaded: "set us \<subseteq> set (uploads fs files)"
    using us by (metis map_of_is_SomeI map_of_SomeD prod.collapse set_rev subsetI)
  have objects: "map (\<lambda>u. person_run sv (snd u) (fst u)) us = map json_object (map (\<lambda>u. members (snd u) (fst u)) us)"
    using uploaded assms(6) by auto
  have comb: "combineJsonResults (map json_object (map (\<lambda>u. members (snd u) (fst u)) us)) =
      Inr (json_object (concat (map (\<lambda>u. members (snd u) (fst u)) us)))"
    using assms(7) uploaded by (intro combine_json_objects) auto
  obtain w' where "store_result (hset sv) (json_object (concat (map (\<lambda>u. members (snd u) (fst u)) us))) w = Inr w'"
    using store_result_total assms(9) by blast
  then have "predict_images sv m rep w =
      Inr (json_reply (json_object (concat (map (\<lambda>u. members (snd u) (fst u)) us))) rep, w')"
    by (simp only: predict_images_def run objects comb bind_res.simps)
  moreover obtain p where
    "feed_chunks parse (new_request mj mn, request_parser) chunks = Inr ((client_request_of body, p), TTrue)"
    using client_message_parsed [OF assms(3) client_body_lines [OF assms(1,4)] assms(5)] by blast
  moreover note client_request_handled [OF m, of sv rep w]
  ultimately show ?thesis using us by (intro exI conjI) (assumption | simp only:)+
qed

text \<open>
  C4: when the database answers and the result of the pipeline for each file is a JSON object, the request of a
  client gets the reply 200 whose body is one object with the members found for each uploaded file, each
  file name analysed exactly once.
\<close>
theorem upload_reply:
  assumes "predict_body fs files = Returned body" and "files \<noteq> []" and "fits body"
    and "\<forall>f\<in>set files. good_name (fs_filename fs f)"
    and "concat chunks = predict_message body"
    and "\<forall>u\<in>set (uploads fs files). person_run sv (snd u) (fst u) = json_object (members (snd u) (fst u))"
    and "\<forall>u\<in>set (uploads fs files). fits (json_object (members (snd u) (fst u)))"
    and "\<forall>m. mset (iter sv m) = mset m" and "\<forall>d k f v. \<exists>d'. hset sv d k f v = Inr d'"
  shows "\<exists>req p us w'. feed_chunks parse (new_request mj mn, request_parser) chunks = Inr ((req, p), TTrue) \<and>
    distinct (map fst us) \<and> map_of us = map_of (rev (uploads fs files)) \<and>
    handle_request sv req rep w =
      Inr (json_reply (json_object (concat (map (\<lambda>u. members (snd u) (fst u)) us))) rep, w')"
  using upload_answered [OF assms] by blast

theorem upload_reply_witness:
  "\<exists>req p us w'. feed_chunks parse (new_request 0 0, request_parser) [predict_message demo_body] =
      Inr ((req, p), TTrue) \<and>
    distinct (map fst us) \<and> map_of us = map_of (rev (uploads demo_fs [''a.jpg''])) \<and>
    handle_request \<lparr>hset = mem_hset, hgetall = mem_hgetall,
        person_run = (\<lambda>d n. json_object (take 9 d)), iter = (\<lambda>m. m)\<rparr> req
        \<lparr>status = Ok, rp_headers = [], content = ''''\<rparr> \<lparr>inst = None, db = []\<rparr> =
      Inr (json_reply (json_object (concat (map (\<lambda>u. take 9 (snd u)) us)))
        \<lparr>status = Ok, rp_headers = [], content = ''''\<rparr>, w')"
  by (rule upload_reply [OF demo_facts(1) _ demo_facts(2,3), where members = "\<lambda>d n. take 9 d"])
     (simp_all add: mem_hset_def fits_def json_object_def min_less_iff_disj)

text \<open>
  An upload in which the pipeline finds nothing (it then returns the empty string) is answered by no
  reply: combining the results throws \<open>std::out_of_range\<close> out of the handler.
\<close>
lemma upload_without_result:
  assumes "predict_body fs files = Returned body" and "files \<noteq> []" and "fits body"
    and "\<forall>f\<in>set files. good_name (fs_filename fs f)"
    and "concat chunks = predict_message body"
    and "person_run sv = (\<lambda>d n. [])" and "\<forall>m. mset (iter sv m) = mset m"
  shows "\<exists>req p. feed_chunks parse (new_request mj mn, request_parser) chunks = Inr ((req, p), TTrue) \<and>
    handle_request sv req rep w = Inl Out_of_range"
proof -
  obtain m us where m: "retrieveImages client_boundary body = Inr (Some m)" and us: "us \<noteq> []"
    and run: "run_images (person_run sv) (iter sv m) = Inr (map (\<lambda>u. person_run sv (snd u) (fst u)) us)"
    using upload_images [OF assms(1-4,7)] by blast
  have "combineJsonResults (map (\<lambda>u. person_run sv (snd u) (fst u)) us) = Inl Out_of_range"
    using us by (cases us) (simp_all add: combineJsonResults_def substr_def assms(6))
  then have "predict_images sv m rep w = Inl Out_of_range" by (simp add: predict_images_def run)
  then show ?thesis
    using client_request_handled [OF m, of sv rep w]
      client_message_parsed [OF assms(3) client_body_lines [OF assms(1,4)] assms(5), of mj mn] by metis
qed

lemma upload_without_result_witness:
  "\<exists>req p. feed_chunks parse (new_request 0 0, request_parser) [predict_message demo_body] = Inr ((req, p), TTrue) \<and>
    handle_request \<lparr>hset = mem_hset, hgetall = mem_hgetall, person_run = (\<lambda>d n. []), iter = (\<lambda>m. m)\<rparr> req
      \<lparr>status = Ok, rp_headers = [], content = []\<rparr> \<lparr>inst = None, db = []\<rparr> = Inl Out_of_range"
  by (rule upload_without_result [OF demo_facts(1) _ demo_facts(2,3)]) simp_all

end
