(* ===== verification/PipelineService.thy ===== *)
theory PipelineService
  imports PipelineRefinement Upload
begin

text \<open>
  The pipeline inside the request handler. A request for a prediction makes a new pipeline, initialises it
  without looking at the outcome, and runs it on one image after the other; \<open>RequestHandler\<close> treats what it
  returns for an image as a function of the image. Here that is justified, and the uploads of a client are
  followed through the actual pipeline.
\<close>

section \<open>The handler's loop, with the state of the pipeline\<close>

primrec run_images_on :: "('e, 'r) platform \<Rightarrow> umap \<Rightarrow> (('e, 'r) pipeline, string list) prog" where
  "run_images_on P [] = ret []"
| "run_images_on P (im # ims) =
     bind_prog (lift_res (base64_decode (snd im) True)) (\<lambda>decoded.
     bind_prog (run P decoded (fst im)) (\<lambda>r. bind_prog (run_images_on P ims) (\<lambda>rs. ret (r # rs))))"

definition person_results :: "('e, 'r) platform \<Rightarrow> umap \<Rightarrow> string list result" where
  "person_results P ims =
     fst (bind_prog (init P) (\<lambda>_. run_images_on P ims) new_pipeline)"

text \<open>What a run returns for an image, as the function the handler uses.\<close>

definition person_text :: "('e, 'r) platform \<Rightarrow> ('e, 'r) semantics \<Rightarrow> 'e nets \<Rightarrow> string \<Rightarrow> string \<Rightarrow> string" where
  "person_text P S N d n = (case caught (image_json P S N d n) of Inr s \<Rightarrow> s | Inl _ \<Rightarrow> [])"

text \<open>
  The images on which the networks do not drive the pipeline into undefined behaviour, as a coordinate that is
  no \<open>int\<close> would; and the images of a request that are so as far as they can be decoded.
\<close>

definition defined_result :: "('e, 'r) platform \<Rightarrow> ('e, 'r) semantics \<Rightarrow> 'e nets \<Rightarrow> string \<times> string \<Rightarrow> bool" where
  "defined_result P S N u \<longleftrightarrow> caught (image_json P S N (snd u) (fst u)) \<noteq> Inl Undefined_behaviour"

definition defined_images :: "('e, 'r) platform \<Rightarrow> ('e, 'r) semantics \<Rightarrow> 'e nets \<Rightarrow> umap \<Rightarrow> bool" where
  "defined_images P S N ims \<longleftrightarrow>
     (\<forall>im\<in>set ims. case base64_decode (snd im) True of Inl _ \<Rightarrow> True | Inr d \<Rightarrow> defined_result P S N (fst im, d))"

lemma caught_Inl: "caught r = Inl e \<Longrightarrow> e = Undefined_behaviour"
  by (cases e) (auto simp: caught_def split: sum.splits if_splits)

lemma defined_text: "defined_result P S N (n, d) \<Longrightarrow> caught (image_json P S N d n) = Inr (person_text P S N d n)"
  using caught_Inl [of "image_json P S N d n"]
  by (cases "caught (image_json P S N d n)") (auto simp: defined_result_def person_text_def)

lemma run_images_ready:
  assumes "engine_laws P S N" and "outputs_fit S N" and "ready S N pl" and "defined_images P S N ims"
  shows "fst (run_images_on P ims pl) = run_images (person_text P S N) ims"
  using assms(3,4)
proof (induction ims arbitrary: pl)
  case Nil
  then show ?case by (simp add: ret_def)
next
  case (Cons im ims)
  show ?case
  proof (cases "base64_decode (snd im) True")
    case (Inr d)
    have defined: "defined_result P S N (fst im, d)" "defined_images P S N ims"
      using Cons.prems(2) Inr by (simp_all add: defined_images_def)
    have "fst (run P d (fst im) pl) = Inr (person_text P S N d (fst im))"
      using run_ready(1) [OF assms(1,2) Cons.prems(1)] defined_text [OF defined(1)] by simp
    then obtain pl' where run: "run P d (fst im) pl = (Inr (person_text P S N d (fst im)), pl')"
      by (metis prod.collapse)
    have "ready S N pl'" using run_ready(2) [OF assms(1,2) Cons.prems(1), of d "fst im"] run by simp
    from Cons.IH [OF this defined(2)] show ?thesis
      by (cases "run_images_on P ims pl'"; cases "run_images (person_text P S N) ims")
         (simp_all add: Inr bind_prog_def run lift_res_def ret_def)
  qed (simp add: lift_res_def)
qed

text \<open>The networks of a pipeline after its initialisation.\<close>

definition nets_of :: "('e, 'r) pipeline \<Rightarrow> 'e nets" where
  "nets_of pl = \<lparr>det_exec = the (net (personDetection pl)),
     det_in = inputName (personDetection pl), det_out = outputName (personDetection pl),
     proposals = nat (maxProposalCount (personDetection pl)), attr_exec = the (net (personAttribs pl)),
     attr_in = inputName (personAttribs pl), attr_out = outputNameForAttributes (personAttribs pl), top_out = outputNameForTopColorPoint (personAttribs pl),
     bottom_out = outputNameForBottomColorPoint (personAttribs pl)\<rparr>"

lemma init_then_ready:
  assumes "init P new_pipeline = (Inr True, pl)" and "0 \<le> maxProposalCount (personDetection pl)"
  shows "ready S (nets_of pl) pl"
proof -
  have "\<exists>n e. fits_detection n (personDetection pl) \<and> net (personDetection pl) = Some e \<and>
      switched_on (personDetection pl) \<and> request_obj (personDetection pl) = None"
    "\<exists>e. net (personAttribs pl) = Some e \<and> switched_on (personAttribs pl) \<and> request_obj (personAttribs pl) = None"
    using init_loads [OF assms(1)] by blast+
  then show ?thesis using assms(2) by (auto simp: ready_def base_ready_def nets_of_def fits_detection_def)
qed

lemma results_of_images:
  assumes "init P new_pipeline = (Inr True, pl)" and "0 \<le> maxProposalCount (personDetection pl)"
    and "engine_laws P S (nets_of pl)" and "outputs_fit S (nets_of pl)" and "defined_images P S (nets_of pl) ims"
  shows "person_results P ims = run_images (person_text P S (nets_of pl)) ims"
  using run_images_ready [OF assms(3,4) init_then_ready [OF assms(1,2)] assms(5)] assms(1)
  by (simp add: person_results_def bind_prog_def)

section \<open>Images the pipeline finds nothing in\<close>

text \<open>What does not decode to a colour image, for instance a file of another kind.\<close>

definition not_an_image :: "('e, 'r) platform \<Rightarrow> string \<Rightarrow> bool" where
  "not_an_image P bytes \<longleftrightarrow>
     (case imdecode P (int_of_size (length bytes)) bytes of Inl e \<Rightarrow> catchable e | Inr m \<Rightarrow> channels m \<noteq> 3)"

lemma not_an_image_text: "not_an_image P bytes \<Longrightarrow> person_text P S N bytes n = []"
  by (auto simp: not_an_image_def person_text_def image_json_def regions_def persons_in_def prepared_def caught_def
      split: sum.split_asm)

lemma image_without_persons:
  assumes "imdecode P (int_of_size (length bytes)) bytes = Inr m" and "persons_in P S N m = Inr rs"
    and "\<forall>r\<in>set rs. dlabel r \<noteq> 1"
  shows "person_text P S N bytes n = []"
  using assms by (simp add: person_text_def image_json_def regions_def caught_def filter_False)

section \<open>Uploads\<close>

text \<open>One image without a result among the uploaded files is enough to lose the whole request.\<close>

lemma upload_loses:
  assumes "predict_body fs files = Returned body" and "files \<noteq> []" and "fits body"
    and "\<forall>f\<in>set files. good_name (fs_filename fs f)"
    and "concat chunks = predict_message body" and "\<forall>m. mset (iter sv m) = mset m"
    and "map_of (rev (uploads fs files)) n = Some bytes" and "person_run sv bytes n = []"
  shows "\<exists>req p. feed_chunks parse (new_request mj mn, request_parser) chunks = Inr ((req, p), TTrue) \<and>
    handle_request sv req rep w = Inl Out_of_range"
proof -
  obtain m us where m: "retrieveImages client_boundary body = Inr (Some m)"
    and us: "map_of us = map_of (rev (uploads fs files))"
    and run: "run_images (person_run sv) (iter sv m) = Inr (map (\<lambda>u. person_run sv (snd u) (fst u)) us)"
    using upload_images [OF assms(1-4,6)] by blast
  have "(n, bytes) \<in> set us" using us assms(7) map_of_SomeD by metis
  then have "[] \<in> set (map (\<lambda>u. person_run sv (snd u) (fst u)) us)" using assms(8) by force
  then have "\<exists>r\<in>set (map (\<lambda>u. person_run sv (snd u) (fst u)) us). length r < 2" by force
  then have "inner_results (map (\<lambda>u. person_run sv (snd u) (fst u)) us) = Inl Out_of_range"
    by (simp only: inner_results_Inl)
  then have "predict_images sv m rep w = Inl Out_of_range"
    by (simp add: predict_images_def run combineJsonResults_def)
  then show ?thesis
    using client_request_handled [OF m, of sv rep w]
      client_message_parsed [OF assms(3) client_body_lines [OF assms(1,4)] assms(5), of mj mn] by metis
qed

text \<open>
  C6: with the networks loaded, the loop of the handler computes one function of each image, on all images
  that do not make the pipeline undefined; and an upload of such files that contains one which is not a
  colour image, besides any number of good ones, is answered by no reply: \<open>std::out_of_range\<close> leaves the
  handler. The engine is assumed to create, start and finish its requests, and the blob of an input to exist.
\<close>
theorem upload_not_an_image:
  assumes "init P new_pipeline = (Inr True, pl)" and "0 \<le> maxProposalCount (personDetection pl)"
    and "engine_laws P S (nets_of pl)" and "outputs_fit S (nets_of pl)"
    and "\<forall>u\<in>set (uploads fs files). defined_result P S (nets_of pl) u"
    and "predict_body fs files = Returned body" and "files \<noteq> []" and "fits body"
    and "\<forall>f\<in>set files. good_name (fs_filename fs f)"
    and "concat chunks = predict_message body" and "\<forall>m. mset (iter sv m) = mset m"
    and "person_run sv = person_text P S (nets_of pl)"
    and "map_of (rev (uploads fs files)) n = Some bytes" and "not_an_image P bytes"
  shows "(\<forall>ims. defined_images P S (nets_of pl) ims \<longrightarrow> person_results P ims = run_images (person_run sv) ims) \<and>
    (\<exists>req p. feed_chunks parse (new_request mj mn, request_parser) chunks = Inr ((req, p), TTrue) \<and>
      handle_request sv req rep w = Inl Out_of_range)"
  using results_of_images [OF assms(1-4)]
    upload_loses [OF assms(6-11,13)] not_an_image_text [OF assms(14)] assms(12) by simp

lemma demo_service_nets:
  "nets_of demo_pipeline = demo_nets" "0 \<le> maxProposalCount (personDetection demo_pipeline)"
  by (simp_all add: nets_of_def demo_pipeline_def init_eval person_model_def attribs_model_def demo_platform_def
      demo_table_def demo_nets_def)

lemma demo_defined: "\<forall>u\<in>set us. defined_result (demo_platform demo_table) (demo_semantics demo_table) demo_nets u"
  by (simp add: defined_result_def caught_def demo_json)

lemma demo_defined_images: "defined_images (demo_platform demo_table) (demo_semantics demo_table) demo_nets ims"
proof -
  have "defined_result (demo_platform demo_table) (demo_semantics demo_table) demo_nets u" for u
    using demo_defined [of "[u]"] by simp
  then show ?thesis by (simp add: defined_images_def split: sum.split)
qed

lemmas demo_service = demo_service_nets demo_defined

theorem upload_not_an_image_witness:
  "(\<forall>ims. person_results (demo_platform demo_table) ims =
        run_images (person_text (demo_platform demo_table) (demo_semantics demo_table) demo_nets) ims) \<and>
   (\<exists>req p. feed_chunks parse (new_request 0 0, request_parser) [predict_message demo_body] = Inr ((req, p), TTrue) \<and>
    handle_request \<lparr>hset = mem_hset, hgetall = mem_hgetall,
        person_run = person_text (demo_platform demo_table) (demo_semantics demo_table) demo_nets, iter = (\<lambda>m. m)\<rparr> req
      \<lparr>status = Ok, rp_headers = [], content = []\<rparr> \<lparr>inst = None, db = []\<rparr> = Inl Out_of_range)"
proof -
  let ?sv = "\<lparr>hset = mem_hset, hgetall = mem_hgetall,
        person_run = person_text (demo_platform demo_table) (demo_semantics demo_table) demo_nets, iter = (\<lambda>m. m)\<rparr>"
  have "map_of (rev (uploads demo_fs [''a.jpg''])) ''a.jpg'' = Some ''Man''"
    "not_an_image (demo_platform demo_table) ''Man''"
    unfolding demo_facts(4) by (simp_all add: not_an_image_def demo_platform_def)
  from upload_not_an_image [where sv = ?sv and chunks = "[predict_message demo_body]", OF demo_init demo_service(2) demo_laws [folded demo_service(1)]
      demo_outputs [folded demo_service(1)] demo_service(3) [folded demo_service(1)] demo_facts(1) _ demo_facts(2,3)
      _ _ _ this]
  show ?thesis by (simp add: demo_service(1) demo_defined_images del: feed_chunks.simps)
qed

end
