(* ===== verification/Connection.thy ===== *)
theory Connection
  imports RequestHandler RequestParser
begin

text \<open>
  \<open>connection.hpp\<close>/\<open>connection.cpp\<close> and \<open>connection_manager.hpp\<close>/\<open>connection_manager.cpp\<close>: the
  state a server keeps for its clients, and the handlers that Asio calls. Asio is outside: it is the
  multiset of operations that have been initiated and not completed, and the completions it may choose.
  \<open>socket_.close()\<close> is the overload that throws, so what closes a connection is a result, which depends on
  the sockets whose close fails (\<open>closes\<close>).
\<close>

section \<open>State\<close>

text \<open>
  A completion's \<open>error_code\<close>: none, \<open>operation_aborted\<close>, or any other (end of file included).
\<close>

datatype error_code = No_error | Operation_aborted | Other_error

text \<open>
  An operation that has been initiated; for a read or write, on which connection and whether its socket
  was open then.
\<close>

datatype operation = Read_op nat bool | Write_op nat bool | Accept_op nat | Signal_op

record conn =
  socket_open :: bool
  socket_shut :: bool
  the_request :: request
  the_parser :: parser
  the_reply :: reply

text \<open>
  A new connection. The members without an initialiser (the HTTP version and the status) are assigned
  before they are read; zero and \<open>Ok\<close> stand for what they hold until then.
\<close>

definition new_connection :: conn where
  "new_connection =
     \<lparr>socket_open = False, socket_shut = False, the_request = new_request 0 0,
      the_parser = request_parser, the_reply = \<lparr>status = Ok, rp_headers = [], content = []\<rparr>\<rparr>"

text \<open>
  The server process: its connections by number, the manager's set, the acceptor, the connection that
  waits to be accepted, the outstanding operations and what the handlers of requests see. \<open>received\<close> and
  \<open>sent\<close> log what the sockets delivered and took, per connection; no handler reads them.
\<close>

record 'db server =
  conns :: "nat \<Rightarrow> conn"
  managed :: "nat set"
  acceptor_open :: bool
  next_connection :: nat
  next_id :: nat
  pending :: "operation multiset"
  history_world :: "'db world"
  received :: "nat \<Rightarrow> string list"
  sent :: "nat \<Rightarrow> string list"

definition update_conn :: "nat \<Rightarrow> (conn \<Rightarrow> conn) \<Rightarrow> 'db server \<Rightarrow> 'db server" where
  "update_conn c f st = st\<lparr>conns := (conns st)(c := f (conns st c))\<rparr>"

definition initiate :: "operation \<Rightarrow> 'db server \<Rightarrow> 'db server" where
  "initiate op st = st\<lparr>pending := add_mset op (pending st)\<rparr>"

text \<open>
  \<open>close()\<close> without an \<open>error_code\<close> argument throws when it fails. Which closes fail during one handler, and
  what the exception says, is chosen by the platform; the exception is a \<open>system_error\<close>, a
  \<open>std::runtime_error\<close>.
\<close>

record closes =
  socket_fails :: "nat \<Rightarrow> bool"
  acceptor_fails :: bool
  close_text :: string

definition close_error :: "closes \<Rightarrow> exn" where
  "close_error cl = Runtime_error (close_text cl)"

section \<open>\<open>connection\<close>\<close>

definition async_read_some :: "nat \<Rightarrow> 'db server \<Rightarrow> 'db server" where
  "async_read_some c st = initiate (Read_op c (socket_open (conns st c))) st"

definition async_write :: "nat \<Rightarrow> 'db server \<Rightarrow> 'db server" where
  "async_write c st = initiate (Write_op c (socket_open (conns st c))) st"

definition connection_start :: "nat \<Rightarrow> 'db server \<Rightarrow> 'db server" where
  "connection_start c st = async_read_some c st"

definition connection_stop :: "closes \<Rightarrow> nat \<Rightarrow> 'db server \<Rightarrow> 'db server result" where
  "connection_stop cl c st =
     (if socket_fails cl c then Inl (close_error cl) else Inr (update_conn c (\<lambda>k. k\<lparr>socket_open := False\<rparr>) st))"

section \<open>\<open>connection_manager\<close>\<close>

definition manager_start :: "nat \<Rightarrow> 'db server \<Rightarrow> 'db server" where
  "manager_start c st = connection_start c (st\<lparr>managed := insert c (managed st)\<rparr>)"

definition manager_stop :: "closes \<Rightarrow> nat \<Rightarrow> 'db server \<Rightarrow> 'db server result" where
  "manager_stop cl c st = connection_stop cl c (st\<lparr>managed := managed st - {c}\<rparr>)"

text \<open>
  \<open>stop\<close> on every member, then \<open>clear\<close>. The order does not matter: each closes its own socket, and the first
  one that throws ends the loop, the handler and the event loop.
\<close>

definition manager_stop_all :: "closes \<Rightarrow> 'db server \<Rightarrow> 'db server result" where
  "manager_stop_all cl st =
     (if \<exists>c\<in>managed st. socket_fails cl c then Inl (close_error cl)
      else Inr (st\<lparr>conns := (\<lambda>c. if c \<in> managed st then (conns st c)\<lparr>socket_open := False\<rparr> else conns st c),
        managed := {}\<rparr>))"

section \<open>The handlers of a connection\<close>

definition set_parsed :: "nat \<Rightarrow> request \<times> parser \<Rightarrow> 'db server \<Rightarrow> 'db server" where
  "set_parsed c rp st =
     update_conn c (\<lambda>k. k\<lparr>the_request := fst rp, the_parser := snd rp\<rparr>) st"

definition set_reply :: "nat \<Rightarrow> reply \<Rightarrow> 'db server \<Rightarrow> 'db server" where
  "set_reply c rep st = update_conn c (\<lambda>k. k\<lparr>the_reply := rep\<rparr>) st"

definition handle_read ::
  "'db services \<Rightarrow> closes \<Rightarrow> nat \<Rightarrow> error_code \<Rightarrow> string \<Rightarrow> 'db server \<Rightarrow> 'db server result"
where
  "handle_read sv cl c e buffer st =
     (if e = No_error then
        bind_res (parse (the_request (conns st c), the_parser (conns st c)) buffer)
          (\<lambda>(rp, result, _).
             let st1 = set_parsed c rp st
             in case result of
                  TTrue \<Rightarrow>
                    bind_res (handle_request sv (the_request (conns st1 c)) (the_reply (conns st1 c)) (history_world st1))
                      (\<lambda>(rep, w). Inr (async_write c (set_reply c rep (st1\<lparr>history_world := w\<rparr>))))
                | TFalse \<Rightarrow> Inr (async_write c (set_reply c (stock_reply Bad_request) st1))
                | Indeterminate \<Rightarrow> Inr (async_read_some c st1))
      else if e \<noteq> Operation_aborted then manager_stop cl c st
      else Inr st)"

definition shutdown_both :: "nat \<Rightarrow> 'db server \<Rightarrow> 'db server" where
  "shutdown_both c st = update_conn c (\<lambda>k. k\<lparr>socket_shut := True\<rparr>) st"

definition handle_write :: "closes \<Rightarrow> nat \<Rightarrow> error_code \<Rightarrow> 'db server \<Rightarrow> 'db server result" where
  "handle_write cl c e st =
     (let st1 = (if e = No_error then shutdown_both c st else st)
      in if e \<noteq> Operation_aborted then manager_stop cl c st1 else Inr st1)"

section \<open>The handlers when no close fails\<close>

text \<open>Handlers return in the state they return in when no close fails, or throw.\<close>

definition smooth :: closes where
  "smooth = \<lparr>socket_fails = (\<lambda>_. False), acceptor_fails = False, close_text = []\<rparr>"

definition conn_stopped :: "nat \<Rightarrow> 'db server \<Rightarrow> 'db server" where
  "conn_stopped c st = update_conn c (\<lambda>k. k\<lparr>socket_open := False\<rparr>) (st\<lparr>managed := managed st - {c}\<rparr>)"

definition all_stopped :: "'db server \<Rightarrow> 'db server" where
  "all_stopped st =
     st\<lparr>conns := (\<lambda>c. if c \<in> managed st then (conns st c)\<lparr>socket_open := False\<rparr> else conns st c),
        managed := {}\<rparr>"

definition read_done ::
  "'db services \<Rightarrow> nat \<Rightarrow> error_code \<Rightarrow> string \<Rightarrow> 'db server \<Rightarrow> 'db server result" where
  "read_done sv c e d st = handle_read sv smooth c e d st"

definition write_done :: "nat \<Rightarrow> error_code \<Rightarrow> 'db server \<Rightarrow> 'db server" where
  "write_done c e st =
     (let st1 = (if e = No_error then shutdown_both c st else st)
      in if e \<noteq> Operation_aborted then conn_stopped c st1 else st1)"

lemma manager_stop_cases:
  "manager_stop cl c st = (if socket_fails cl c then Inl (close_error cl) else Inr (conn_stopped c st))"
  by (simp add: manager_stop_def connection_stop_def conn_stopped_def)

lemma manager_stop_all_cases:
  "manager_stop_all cl st = (if \<exists>c\<in>managed st. socket_fails cl c then Inl (close_error cl) else Inr (all_stopped st))"
  by (simp add: manager_stop_all_def all_stopped_def)

lemma smooth_simps [simp]: "socket_fails smooth c = False" "acceptor_fails smooth = False"
  by (simp_all add: smooth_def)

lemma handle_write_cases:
  "handle_write cl c e st =
     (if e \<noteq> Operation_aborted \<and> socket_fails cl c then Inl (close_error cl) else Inr (write_done c e st))"
  by (simp add: handle_write_def write_done_def manager_stop_cases Let_def)

lemma handle_read_closes:
  "handle_read sv cl c e d st =
     (if e = Other_error \<and> socket_fails cl c then Inl (close_error cl) else read_done sv c e d st)"
  by (cases e) (simp_all add: handle_read_def read_done_def manager_stop_cases)

lemmas read_done_eq = read_done_def [unfolded handle_read_def manager_stop_cases, simplified]

end
