(* ===== verification/Server.thy ===== *)
theory Server
  imports Connection
begin

text \<open>
  \<open>server.hpp\<close>/\<open>server.cpp\<close> and \<open>source/server/main.cpp\<close>: construction, the accept loop, the stop
  signal, and the event loop as a step relation over the completions Asio may deliver. A handler that
  throws makes no step; it ends \<open>run\<close> (\<open>run_throws\<close>).
\<close>

section \<open>The server's handlers\<close>

definition start_accept :: "'db server \<Rightarrow> 'db server" where
  "start_accept st =
     (let c = next_id st
      in initiate (Accept_op c)
           (st\<lparr>conns := (conns st)(c := new_connection), next_connection := c, next_id := Suc c\<rparr>))"

definition handle_accept :: "error_code \<Rightarrow> 'db server \<Rightarrow> 'db server" where
  "handle_accept e st =
     (if \<not> acceptor_open st then st
      else start_accept (if e = No_error then manager_start (next_connection st) st else st))"

definition handle_stop :: "closes \<Rightarrow> 'db server \<Rightarrow> 'db server result" where
  "handle_stop cl st =
     (if acceptor_fails cl then Inl (close_error cl)
      else manager_stop_all cl (st\<lparr>acceptor_open := False\<rparr>))"

text \<open>The constructor: wait for a signal, open the acceptor, start to accept.\<close>

definition server_new :: "'db world \<Rightarrow> 'db server" where
  "server_new w =
     start_accept
       (initiate Signal_op
          \<lparr>conns = (\<lambda>_. new_connection), managed = {}, acceptor_open = True, next_connection = 0,
           next_id = 0, pending = {#}, history_world = w, received = (\<lambda>_. []), sent = (\<lambda>_. [])\<rparr>)"

section \<open>The event loop\<close>

text \<open>
  What Asio promises about a completion: an operation initiated on a closed socket fails, one is aborted
  only after its socket or acceptor has been closed, and a read delivers at most the buffer's size.
\<close>

definition buffer_size :: nat where "buffer_size = 1048576"

fun completes :: "'db server \<Rightarrow> operation \<Rightarrow> error_code \<Rightarrow> string \<Rightarrow> bool" where
  "completes st (Read_op c b) e d \<longleftrightarrow>
     (b \<or> e = Other_error) \<and> (e = Operation_aborted \<longrightarrow> \<not> socket_open (conns st c)) \<and> length d \<le> buffer_size"
| "completes st (Write_op c b) e d \<longleftrightarrow>
     (b \<or> e = Other_error) \<and> (e = Operation_aborted \<longrightarrow> \<not> socket_open (conns st c))"
| "completes st (Accept_op c) e d \<longleftrightarrow> (e = Operation_aborted \<longrightarrow> \<not> acceptor_open st)"
| "completes st Signal_op e d \<longleftrightarrow> True"

text \<open>
  What a completion does before its handler runs: the bytes delivered or taken are logged, an accepted
  socket is open.
\<close>

fun log_completion :: "operation \<Rightarrow> error_code \<Rightarrow> string \<Rightarrow> 'db server \<Rightarrow> 'db server" where
  "log_completion (Read_op c b) e d st =
     (if e = No_error then st\<lparr>received := (received st)(c := received st c @ [d])\<rparr> else st)"
| "log_completion (Write_op c b) e d st =
     (if e = No_error then st\<lparr>sent := (sent st)(c := sent st c @ [wire (the_reply (conns st c))])\<rparr> else st)"
| "log_completion (Accept_op c) e d st =
     (if e = No_error then update_conn c (\<lambda>k. k\<lparr>socket_open := True\<rparr>) st else st)"
| "log_completion Signal_op e d st = st"

fun run_handler ::
  "'db services \<Rightarrow> closes \<Rightarrow> operation \<Rightarrow> error_code \<Rightarrow> string \<Rightarrow> 'db server \<Rightarrow> 'db server result" where
  "run_handler sv cl (Read_op c b) e d st = handle_read sv cl c e d st"
| "run_handler sv cl (Write_op c b) e d st = handle_write cl c e st"
| "run_handler sv cl (Accept_op c) e d st = Inr (handle_accept e st)"
| "run_handler sv cl Signal_op e d st = handle_stop cl st"

definition deliver ::
  "'db services \<Rightarrow> closes \<Rightarrow> operation \<Rightarrow> error_code \<Rightarrow> string \<Rightarrow> 'db server \<Rightarrow> 'db server result" where
  "deliver sv cl op e d st =
     run_handler sv cl op e d (log_completion op e d (st\<lparr>pending := pending st - {#op#}\<rparr>))"

inductive step :: "'db services \<Rightarrow> 'db server \<Rightarrow> 'db server \<Rightarrow> bool" for sv where
  step: "op \<in># pending st \<Longrightarrow> completes st op e d \<Longrightarrow> deliver sv cl op e d st = Inr st' \<Longrightarrow> step sv st st'"

text \<open>An exception that leaves a handler leaves \<open>io_context::run\<close> with it.\<close>

inductive run_throws :: "'db services \<Rightarrow> 'db server \<Rightarrow> exn \<Rightarrow> bool" for sv where
  throws: "op \<in># pending st \<Longrightarrow> completes st op e d \<Longrightarrow> deliver sv cl op e d st = Inl x \<Longrightarrow> run_throws sv st x"

inductive reachable :: "'db services \<Rightarrow> 'db world \<Rightarrow> 'db server \<Rightarrow> bool" for sv w where
  start: "reachable sv w (server_new w)"
| next_step: "reachable sv w st \<Longrightarrow> step sv st st' \<Longrightarrow> reachable sv w st'"

inductive_cases step_deliver: "step sv st st'"
inductive_cases run_throwsE: "run_throws sv st x"

text \<open>Which closes fail decides between going on and throwing, not the state the loop goes on in.\<close>

definition stop_done :: "'db server \<Rightarrow> 'db server" where
  "stop_done st = all_stopped (st\<lparr>acceptor_open := False\<rparr>)"

fun run_done :: "'db services \<Rightarrow> operation \<Rightarrow> error_code \<Rightarrow> string \<Rightarrow> 'db server \<Rightarrow> 'db server result" where
  "run_done sv (Read_op c b) e d st = read_done sv c e d st"
| "run_done sv (Write_op c b) e d st = Inr (write_done c e st)"
| "run_done sv (Accept_op c) e d st = Inr (handle_accept e st)"
| "run_done sv Signal_op e d st = Inr (stop_done st)"

definition delivered :: "'db services \<Rightarrow> operation \<Rightarrow> error_code \<Rightarrow> string \<Rightarrow> 'db server \<Rightarrow> 'db server result" where
  "delivered sv op e d st = run_done sv op e d (log_completion op e d (st\<lparr>pending := pending st - {#op#}\<rparr>))"

lemma run_handler_closes: "run_handler sv cl op e d st = Inl (close_error cl) \<or> run_handler sv cl op e d st = run_done sv op e d st"
  by (cases op) (simp_all add: handle_read_closes handle_write_cases handle_stop_def manager_stop_all_cases stop_done_def)

lemma run_handler_smooth: "run_handler sv smooth op e d st = run_done sv op e d st"
  by (cases op) (simp_all add: handle_read_closes handle_write_cases handle_stop_def manager_stop_all_cases stop_done_def)

lemma deliver_Inr: "deliver sv cl op e d st = Inr st' \<Longrightarrow> delivered sv op e d st = Inr st'"
  using run_handler_closes [of sv cl op e d] by (metis deliver_def delivered_def sum.distinct(1))

lemma deliver_Inl: "deliver sv cl op e d st = Inl x \<Longrightarrow> x = close_error cl \<or> delivered sv op e d st = Inl x"
  using run_handler_closes [of sv cl op e d] by (metis deliver_def delivered_def sum.inject(1))

lemma deliver_smooth: "deliver sv smooth op e d st = delivered sv op e d st"
  by (simp add: deliver_def delivered_def run_handler_smooth)

lemma stepE:
  assumes "step sv st st'"
  obtains op e d where "op \<in># pending st" and "completes st op e d" and "delivered sv op e d st = Inr st'"
  using assms by (rule step_deliver) (auto dest: deliver_Inr)

lemma step_delivered:
  "op \<in># pending st \<Longrightarrow> completes st op e d \<Longrightarrow> delivered sv op e d st = Inr st' \<Longrightarrow> step sv st st'"
  using step.intros [where cl = smooth] by (simp add: deliver_smooth)

lemma throws_delivered:
  "op \<in># pending st \<Longrightarrow> completes st op e d \<Longrightarrow> delivered sv op e d st = Inl x \<Longrightarrow> run_throws sv st x"
  using run_throws.intros [where cl = smooth] by (simp add: deliver_smooth)

section \<open>Operations by connection\<close>

fun op_conn :: "operation \<Rightarrow> nat option" where
  "op_conn (Read_op c b) = Some c"
| "op_conn (Write_op c b) = Some c"
| "op_conn (Accept_op c) = None"
| "op_conn Signal_op = None"

fun is_accept :: "operation \<Rightarrow> bool" where
  "is_accept (Accept_op c) = True"
| "is_accept _ = False"

definition ops :: "'db server \<Rightarrow> nat \<Rightarrow> operation multiset" where
  "ops st c = filter_mset (\<lambda>op. op_conn op = Some c) (pending st)"

definition accepts :: "'db server \<Rightarrow> operation multiset" where
  "accepts st = filter_mset is_accept (pending st)"

lemma ops_initiate [simp]:
  "ops (initiate op st) c = (if op_conn op = Some c then add_mset op (ops st c) else ops st c)"
  "accepts (initiate op st) = (if is_accept op then add_mset op (accepts st) else accepts st)"
  by (simp_all add: ops_def accepts_def initiate_def)

lemma ops_removed:
  "ops (st\<lparr>pending := pending st - {#op#}\<rparr>) c = (if op_conn op = Some c then ops st c - {#op#} else ops st c)"
  "accepts (st\<lparr>pending := pending st - {#op#}\<rparr>) = (if is_accept op then accepts st - {#op#} else accepts st)"
  by (auto simp: ops_def accepts_def intro!: multiset_eqI)

text \<open>What the pieces of the handlers change.\<close>

lemma pending_simps [simp]:
  "pending (update_conn c f st) = pending st"
  "pending (initiate op st) = add_mset op (pending st)"
  by (simp_all add: update_conn_def initiate_def)

lemma conns_simps [simp]:
  "conns (update_conn c f st) = (conns st)(c := f (conns st c))"
  "conns (initiate op st) = conns st"
  by (simp_all add: update_conn_def initiate_def)

lemma frame_simps [simp]:
  "managed (update_conn c f st) = managed st" "managed (initiate op st) = managed st"
  "acceptor_open (update_conn c f st) = acceptor_open st" "acceptor_open (initiate op st) = acceptor_open st"
  "next_connection (update_conn c f st) = next_connection st" "next_connection (initiate op st) = next_connection st"
  "next_id (update_conn c f st) = next_id st" "next_id (initiate op st) = next_id st"
  "received (update_conn c f st) = received st" "received (initiate op st) = received st"
  "sent (update_conn c f st) = sent st" "sent (initiate op st) = sent st"
  "history_world (update_conn c f st) = history_world st" "history_world (initiate op st) = history_world st"
  by (simp_all add: update_conn_def initiate_def)

lemma ops_frame [simp]:
  "ops (update_conn c f st) d = ops st d" "accepts (update_conn c f st) = accepts st"
  "ops (st\<lparr>conns := k\<rparr>) d = ops st d" "accepts (st\<lparr>conns := k\<rparr>) = accepts st"
  "ops (st\<lparr>managed := m\<rparr>) d = ops st d" "accepts (st\<lparr>managed := m\<rparr>) = accepts st"
  "ops (st\<lparr>acceptor_open := b\<rparr>) d = ops st d" "accepts (st\<lparr>acceptor_open := b\<rparr>) = accepts st"
  "ops (st\<lparr>next_connection := n\<rparr>) d = ops st d" "accepts (st\<lparr>next_connection := n\<rparr>) = accepts st"
  "ops (st\<lparr>next_id := n\<rparr>) d = ops st d" "accepts (st\<lparr>next_id := n\<rparr>) = accepts st"
  "ops (st\<lparr>history_world := w\<rparr>) d = ops st d" "accepts (st\<lparr>history_world := w\<rparr>) = accepts st"
  "ops (st\<lparr>received := r\<rparr>) d = ops st d" "accepts (st\<lparr>received := r\<rparr>) = accepts st"
  "ops (st\<lparr>sent := r\<rparr>) d = ops st d" "accepts (st\<lparr>sent := r\<rparr>) = accepts st"
  by (simp_all add: ops_def accepts_def)

lemmas handler_defs = async_read_some_def async_write_def connection_start_def
  manager_start_def conn_stopped_def all_stopped_def set_parsed_def set_reply_def shutdown_both_def

section \<open>The shape of the state\<close>

text \<open>
  A managed connection has an open socket and exactly one outstanding operation, initiated on it; any
  other connection that still has one has a closed socket.
\<close>

definition conn_inv :: "'db server \<Rightarrow> nat \<Rightarrow> bool" where
  "conn_inv st c \<longleftrightarrow>
     (if c \<in> managed st
      then socket_open (conns st c) \<and> (ops st c = {#Read_op c True#} \<or> ops st c = {#Write_op c True#})
      else ops st c = {#} \<or> \<not> socket_open (conns st c) \<and> (\<exists>op. ops st c = {#op#}))"

text \<open>A connection that no operation and no member of the manager's set refers to.\<close>

definition idle :: "'db server \<Rightarrow> nat \<Rightarrow> bool" where
  "idle st c \<longleftrightarrow> c \<notin> managed st \<and> ops st c = {#}"

definition acceptor_inv :: "'db server \<Rightarrow> bool" where
  "acceptor_inv st \<longleftrightarrow>
     (accepts st = {#} \<or> accepts st = {#Accept_op (next_connection st)#} \<and> idle st (next_connection st)) \<and>
     (if acceptor_open st then accepts st \<noteq> {#} else managed st = {}) \<and>
     next_connection st < next_id st \<and> (\<forall>c\<ge>next_id st. idle st c)"

definition server_inv :: "'db server \<Rightarrow> bool" where
  "server_inv st \<longleftrightarrow> (\<forall>c. conn_inv st c) \<and> acceptor_inv st"

lemma server_inv_start: "server_inv (server_new w)"
  by (simp add: server_inv_def conn_inv_def acceptor_inv_def idle_def server_new_def start_accept_def Let_def
      ops_def accepts_def initiate_def)

text \<open>A handler of connection \<open>c\<close> leaves all the rest as it is.\<close>

definition elsewhere :: "nat \<Rightarrow> 'db server \<Rightarrow> 'db server \<Rightarrow> bool" where
  "elsewhere c st st' \<longleftrightarrow>
     (\<forall>d. d \<noteq> c \<longrightarrow> conns st' d = conns st d \<and> ops st' d = ops st d \<and> (d \<in> managed st' \<longleftrightarrow> d \<in> managed st) \<and>
        received st' d = received st d \<and> sent st' d = sent st d) \<and>
     (c \<in> managed st' \<longrightarrow> c \<in> managed st) \<and>
     accepts st' = accepts st \<and> acceptor_open st' = acceptor_open st \<and>
     next_connection st' = next_connection st \<and> next_id st' = next_id st"

lemma server_inv_elsewhere:
  assumes "server_inv st" and "\<not> idle st c" and "elsewhere c st st'" and "conn_inv st' c"
  shows "server_inv st'"
proof -
  have "conn_inv st' d" for d
    using assms by (cases "d = c") (simp_all add: server_inv_def conn_inv_def elsewhere_def)
  moreover have idle: "idle st d \<Longrightarrow> idle st' d" for d
    using assms(2,3) by (cases "d = c") (simp_all add: idle_def elsewhere_def)
  have "managed st = {} \<Longrightarrow> managed st' = {}"
    using assms(3) by (auto simp: elsewhere_def)
  then have "acceptor_inv st'"
    using assms(1,3) idle by (auto simp: server_inv_def acceptor_inv_def elsewhere_def)
  ultimately show ?thesis by (simp add: server_inv_def)
qed

lemma conn_op_single:
  assumes "server_inv st" and "op \<in># pending st" and "op_conn op = Some c"
  shows "ops st c = {#op#}" and "\<not> idle st c"
proof -
  have "op \<in># ops st c" using assms(2,3) by (simp add: ops_def)
  moreover have "conn_inv st c" using assms(1) by (simp add: server_inv_def)
  ultimately show "ops st c = {#op#}" by (auto simp: conn_inv_def split: if_splits)
  with \<open>op \<in># ops st c\<close> show "\<not> idle st c" by (auto simp: idle_def)
qed

text \<open>The handlers of a connection, once the completed operation has been taken out.\<close>

lemma handle_write_effect:
  assumes "ops st c = {#}" and "e = Operation_aborted \<Longrightarrow> c \<notin> managed st"
  shows "elsewhere c st (write_done c e st)" and "conn_inv (write_done c e st) c"
  using assms by (auto simp: write_done_def handler_defs elsewhere_def conn_inv_def Let_def)

lemma handle_read_cases:
  assumes "read_done sv c e d st = Inr st'"
  obtains (aborted) "e = Operation_aborted" "st' = st"
    | (failed) "e = Other_error" "st' = conn_stopped c st"
    | (undecided) req p rest where "e = No_error"
        "parse (the_request (conns st c), the_parser (conns st c)) d = Inr ((req, p), Indeterminate, rest)"
        "st' = async_read_some c (set_parsed c (req, p) st)"
    | (rejected) req p rest where "e = No_error"
        "parse (the_request (conns st c), the_parser (conns st c)) d = Inr ((req, p), TFalse, rest)"
        "st' = async_write c (set_reply c (stock_reply Bad_request) (set_parsed c (req, p) st))"
    | (handled) req p rest rep w where "e = No_error"
        "parse (the_request (conns st c), the_parser (conns st c)) d = Inr ((req, p), TTrue, rest)"
        "handle_request sv req (the_reply (conns st c)) (history_world st) = Inr (rep, w)"
        "st' = async_write c (set_reply c rep ((set_parsed c (req, p) st)\<lparr>history_world := w\<rparr>))"
proof (cases e)
  case No_error
  with assms obtain req p t rest where
    parse: "parse (the_request (conns st c), the_parser (conns st c)) d = Inr ((req, p), t, rest)"
    by (cases "parse (the_request (conns st c), the_parser (conns st c)) d") (auto simp: read_done_eq)
  show thesis
  proof (cases t)
    case TTrue
    have k: "the_request (conns (set_parsed c (req, p) st) c) = req"
      "the_reply (conns (set_parsed c (req, p) st) c) = the_reply (conns st c)"
      "history_world (set_parsed c (req, p) st) = history_world st"
      by (simp_all add: set_parsed_def)
    show thesis
      using assms parse No_error TTrue handled
      by (cases "handle_request sv req (the_reply (conns st c)) (history_world st)")
         (auto simp: read_done_eq Let_def k)
  qed (use assms parse No_error undecided rejected in \<open>auto simp: read_done_eq Let_def\<close>)
qed (use assms aborted failed in \<open>auto simp: read_done_eq\<close>)

lemma handle_read_effect:
  assumes "ops st c = {#}" and "e = Operation_aborted \<Longrightarrow> c \<notin> managed st"
    and "socket_open (conns st c) \<longleftrightarrow> c \<in> managed st" and "read_done sv c e d st = Inr st'"
  shows "elsewhere c st st' \<and> conn_inv st' c"
  using assms(4)
proof (cases rule: handle_read_cases)
  case handled
  then show ?thesis using assms(1-3) by (simp add: handler_defs elsewhere_def conn_inv_def)
qed (use assms(1-3) in \<open>simp_all add: handler_defs elsewhere_def conn_inv_def\<close>)

lemma conn_op_open:
  assumes "server_inv st" and "op \<in># pending st" and "op_conn op = Some c"
  shows "socket_open (conns st c) \<longleftrightarrow> c \<in> managed st"
  using assms conn_op_single(1) [OF assms] by (auto simp: server_inv_def conn_inv_def split: if_splits)

text \<open>The state in which the handler of a completed operation starts.\<close>

definition before :: "operation \<Rightarrow> error_code \<Rightarrow> string \<Rightarrow> 'db server \<Rightarrow> 'db server" where
  "before op e d st = log_completion op e d (st\<lparr>pending := pending st - {#op#}\<rparr>)"

lemma before_frame:
  "managed (before op e d st) = managed st" "acceptor_open (before op e d st) = acceptor_open st"
  "next_connection (before op e d st) = next_connection st" "next_id (before op e d st) = next_id st"
  "history_world (before op e d st) = history_world st"
  "ops (before op e d st) c = (if op_conn op = Some c then ops st c - {#op#} else ops st c)"
  "accepts (before op e d st) = (if is_accept op then accepts st - {#op#} else accepts st)"
  by (cases op; simp add: before_def ops_removed)+

lemma before_conns: "\<not> is_accept op \<Longrightarrow> conns (before op e d st) = conns st"
  by (cases op) (simp_all add: before_def)

lemma before_logs:
  "op_conn op = Some c \<Longrightarrow> c' \<noteq> c \<Longrightarrow>
    received (before op e d st) c' = received st c' \<and> sent (before op e d st) c' = sent st c'"
  by (cases op) (simp_all add: before_def)

lemma server_inv_conn_op:
  assumes "server_inv st" and "op \<in># pending st" and "completes st op e d" and "op_conn op = Some c"
    and "delivered sv op e d st = Inr st'"
  shows "server_inv st'" and "elsewhere c st st'"
proof -
  let ?st = "before op e d st"
  note op = conn_op_single [OF assms(1,2,4)] conn_op_open [OF assms(1,2,4)]
  have na: "\<not> is_accept op" using assms(4) by (cases op) simp_all
  have empty: "ops ?st c = {#}" using op(1) assms(4) by (simp add: before_frame)
  have ab: "e = Operation_aborted \<Longrightarrow> c \<notin> managed ?st"
    using assms(3,4) op(3) by (cases op) (auto simp: before_frame)
  have op3: "socket_open (conns ?st c) \<longleftrightarrow> c \<in> managed ?st"
    using op(3) by (simp add: before_frame before_conns [OF na])
  have "elsewhere c ?st st' \<and> conn_inv st' c"
  proof (cases op)
    case (Read_op c' b)
    then have "read_done sv c e d ?st = Inr st'"
      using assms(4,5) by (simp add: delivered_def before_def)
    then show ?thesis using handle_read_effect [OF empty ab op3] by blast
  next
    case (Write_op c' b)
    then have "st' = write_done c e ?st"
      using assms(4,5) by (simp add: delivered_def before_def)
    then show ?thesis using handle_write_effect [OF empty ab] by blast
  qed (use assms(4) in simp_all)
  moreover have "elsewhere c st ?st"
    using assms(4) na
    by (simp add: elsewhere_def before_frame before_conns before_logs [OF assms(4)])
  ultimately show e: "elsewhere c st st'" and "server_inv st'"
    using server_inv_elsewhere [OF assms(1) op(2)] by (simp_all add: elsewhere_def)
qed

lemma accept_op_next:
  assumes "server_inv st" and "Accept_op c \<in># pending st"
  shows "c = next_connection st" and "accepts st = {#Accept_op c#}" and "idle st c"
proof -
  have "Accept_op c \<in># accepts st" using assms(2) by (simp add: accepts_def)
  then show "c = next_connection st" "accepts st = {#Accept_op c#}" "idle st c"
    using assms(1) by (auto simp: server_inv_def acceptor_inv_def)
qed

lemma conn_inv_idle: "idle st c \<Longrightarrow> conn_inv st c"
  by (simp add: idle_def conn_inv_def)

lemma server_inv_start_accept:
  assumes "\<forall>c. conn_inv st c" and "accepts st = {#}" and "acceptor_open st" and "\<forall>c\<ge>next_id st. idle st c"
  shows "server_inv (start_accept st)"
proof -
  have idle: "idle (start_accept st) c \<longleftrightarrow> idle st c" for c
    by (simp add: start_accept_def idle_def Let_def)
  have "conn_inv (start_accept st) c" for c
  proof (cases "c = next_id st")
    case True
    then have "idle (start_accept st) c" using assms(4) by (simp add: idle)
    then show ?thesis by (rule conn_inv_idle)
  next
    case False
    then show ?thesis using assms(1) by (simp add: conn_inv_def start_accept_def Let_def)
  qed
  moreover have "acceptor_inv (start_accept st)"
    unfolding acceptor_inv_def idle using assms by (simp add: start_accept_def Let_def)
  ultimately show ?thesis by (simp add: server_inv_def)
qed

lemma server_inv_accept:
  assumes "server_inv st" and "Accept_op c \<in># pending st"
  shows "server_inv (handle_accept e (before (Accept_op c) e d st))"
proof -
  let ?st = "before (Accept_op c) e d st"
  note a = accept_op_next [OF assms]
  have conns: "conns ?st = (if e = No_error then (conns st)(c := (conns st c)\<lparr>socket_open := True\<rparr>) else conns st)"
    by (simp add: before_def)
  have idle: "idle ?st d \<longleftrightarrow> idle st d" for d by (simp add: idle_def before_frame)
  have inv: "conn_inv ?st d" for d
  proof (cases "d = c")
    case True
    then show ?thesis using conn_inv_idle [of ?st c] a(3) idle by simp
  next
    case False
    then show ?thesis using assms(1) by (simp add: server_inv_def conn_inv_def before_frame conns)
  qed
  have acc: "accepts ?st = {#}" using a(2) by (simp add: before_frame)
  have fresh: "\<forall>d\<ge>next_id ?st. idle ?st d" and nc: "next_connection st < next_id st"
    using assms(1) by (simp_all add: idle server_inv_def acceptor_inv_def before_frame)
  show ?thesis
  proof (cases "acceptor_open st")
    case False
    then have "acceptor_inv ?st" using assms(1) acc fresh nc
      by (simp add: server_inv_def acceptor_inv_def before_frame)
    with False inv show ?thesis by (simp add: handle_accept_def server_inv_def before_frame)
  next
    case open_acceptor: True
    show ?thesis
    proof (cases "e = No_error")
      case False
      with open_acceptor show ?thesis
        using server_inv_start_accept [OF _ acc _ fresh] inv by (simp add: handle_accept_def before_frame)
    next
      case True
      let ?st1 = "manager_start c ?st"
      have eq: "handle_accept e ?st = start_accept ?st1"
        using True open_acceptor a(1) by (simp add: handle_accept_def before_frame)
      have "conn_inv ?st1 d" for d
      proof (cases "d = c")
        case True
        moreover have "socket_open (conns ?st c)" unfolding conns if_P [OF \<open>e = No_error\<close>] by simp
        ultimately show ?thesis using a(3)
          by (simp add: conn_inv_def handler_defs before_frame idle_def)
      next
        case False
        then show ?thesis using inv [of d] by (simp add: conn_inv_def handler_defs)
      qed
      moreover have "\<forall>d\<ge>next_id ?st1. idle ?st1 d"
        using fresh nc a(1) by (auto simp: handler_defs idle_def before_frame)
      moreover have "accepts ?st1 = {#}" "acceptor_open ?st1"
        using acc open_acceptor by (simp_all add: handler_defs before_frame)
      ultimately show ?thesis unfolding eq by (intro server_inv_start_accept) simp_all
    qed
  qed
qed

lemma server_inv_stop:
  assumes "server_inv st" and "Signal_op \<in># pending st"
  shows "server_inv (stop_done (before Signal_op e d st))"
proof -
  let ?st = "stop_done (before Signal_op e d st)"
  have idle: "idle st d \<Longrightarrow> idle ?st d" for d
    by (simp add: idle_def stop_done_def handler_defs before_frame)
  have "conn_inv ?st d" for d
    using assms(1) by (auto simp: server_inv_def conn_inv_def stop_done_def handler_defs before_frame
        before_conns split: if_splits)
  moreover have "acceptor_inv ?st"
    using assms(1) idle by (auto simp: server_inv_def acceptor_inv_def stop_done_def handler_defs before_frame)
  ultimately show ?thesis by (simp add: server_inv_def)
qed

lemma server_inv_step:
  assumes "server_inv st" and "op \<in># pending st" and "completes st op e d" and "delivered sv op e d st = Inr st'"
  shows "server_inv st'"
proof (cases op)
  case (Accept_op c)
  then show ?thesis using server_inv_accept [OF assms(1)] assms(2,4) by (auto simp: delivered_def before_def)
next
  case Signal_op
  then show ?thesis using server_inv_stop [OF assms(1)] assms(2,4) by (auto simp: delivered_def before_def)
qed (use server_inv_conn_op(1) [OF assms(1-3) _ assms(4)] in simp_all)

lemma server_inv_reachable: "reachable sv w st \<Longrightarrow> server_inv st"
  by (induction rule: reachable.induct) (auto simp: server_inv_start elim!: stepE dest: server_inv_step)

section \<open>The story of a connection\<close>

lemma feed_snoc:
  "feed_chunks run s (chs @ [d]) = bind_res (feed_chunks run s chs) (\<lambda>(s', t).
     if t = Indeterminate then bind_res (run s' d) (\<lambda>(s'', t', rest). Inr (s'', t')) else Inr (s', t))"
proof (induction chs arbitrary: s)
  case Nil
  then show ?case by (cases "run s d") auto
next
  case (Cons ch chs)
  then show ?case by (cases "run s ch") (auto split: prod.splits)
qed

abbreviation initial_reply :: reply where "initial_reply \<equiv> the_reply new_connection"

text \<open>The replies that answer a verdict of the parser.\<close>

definition reply_to :: "'db services \<Rightarrow> request \<Rightarrow> tribool \<Rightarrow> reply \<Rightarrow> bool" where
  "reply_to sv req t rep \<longleftrightarrow>
     t = TFalse \<and> rep = stock_reply Bad_request \<or>
     t = TTrue \<and> (\<exists>w w'. handle_request sv req initial_reply w = Inr (rep, w'))"

text \<open>
  What a connection has received, its parser has read. Until the verdict nothing is sent; then no read is
  outstanding, the reply is the one to that verdict, and it is sent at most once.
\<close>

definition answered :: "'db services \<Rightarrow> nat \<Rightarrow> tribool \<Rightarrow> request \<Rightarrow> reply \<Rightarrow> string list \<Rightarrow> operation multiset \<Rightarrow> bool" where
  "answered sv c t req rep out os \<longleftrightarrow>
     (if t = Indeterminate
      then out = [] \<and> rep = initial_reply \<and> (\<forall>b. Write_op c b \<notin># os)
      else reply_to sv req t rep \<and> (\<forall>b. Read_op c b \<notin># os) \<and> (out = [] \<or> out = [wire rep] \<and> os = {#}))"

definition story :: "'db services \<Rightarrow> 'db server \<Rightarrow> nat \<Rightarrow> bool" where
  "story sv st c \<longleftrightarrow>
     (\<exists>t. feed_chunks parse (new_request 0 0, request_parser) (received st c) =
         Inr ((the_request (conns st c), the_parser (conns st c)), t) \<and>
       answered sv c t (the_request (conns st c)) (the_reply (conns st c)) (sent st c) (ops st c))"

text \<open>A connection that has not been started.\<close>

definition untouched :: "'db server \<Rightarrow> nat \<Rightarrow> bool" where
  "untouched st c \<longleftrightarrow> received st c = [] \<and> sent st c = [] \<and> the_request (conns st c) = new_request 0 0 \<and>
     the_parser (conns st c) = request_parser \<and> the_reply (conns st c) = initial_reply"

definition fresh_inv :: "'db server \<Rightarrow> bool" where
  "fresh_inv st \<longleftrightarrow> (\<forall>c. next_id st \<le> c \<or> Accept_op c \<in># accepts st \<longrightarrow> untouched st c)"

lemma answered_mono: "answered sv c t req rep out os \<Longrightarrow> os' \<subseteq># os \<Longrightarrow> answered sv c t req rep out os'"
  by (auto simp: answered_def dest: mset_subset_eqD split: if_splits)

lemma story_mono:
  assumes "story sv st c" and "received st' c = received st c" and "sent st' c = sent st c"
    and "the_request (conns st' c) = the_request (conns st c)" and "the_parser (conns st' c) = the_parser (conns st c)"
    and "the_reply (conns st' c) = the_reply (conns st c)" and "ops st' c \<subseteq># ops st c"
  shows "story sv st' c"
  using assms answered_mono unfolding story_def by metis

lemma story_untouched: "untouched st c \<Longrightarrow> (\<And>b. Write_op c b \<notin># ops st c) \<Longrightarrow> story sv st c"
  by (simp add: story_def answered_def untouched_def)

lemma story_write:
  assumes "story sv st c" and "ops st c = {#Write_op c b#}" and "delivered sv (Write_op c b) e d st = Inr st'"
  shows "story sv st' c"
proof -
  obtain t where t: "feed_chunks parse (new_request 0 0, request_parser) (received st c) =
        Inr ((the_request (conns st c), the_parser (conns st c)), t)" "t \<noteq> Indeterminate"
      "reply_to sv (the_request (conns st c)) t (the_reply (conns st c))" and s: "sent st c = []"
    using assms(1,2) unfolding story_def answered_def by (auto split: if_splits)
  have st': "st' = write_done c e (before (Write_op c b) e d st)"
    using assms(3) by (simp add: delivered_def before_def)
  have "ops st' c = {#}" "the_request (conns st' c) = the_request (conns st c)"
    "the_parser (conns st' c) = the_parser (conns st c)" "the_reply (conns st' c) = the_reply (conns st c)"
    "received st' c = received st c" "sent st' c = (if e = No_error then [wire (the_reply (conns st c))] else [])"
    using s assms(2) unfolding st'
    by (auto simp: write_done_def handler_defs Let_def before_def ops_removed)
  then show ?thesis using t unfolding story_def answered_def by (intro exI [of _ t]) simp
qed

lemma story_read:
  assumes "story sv st c" and "ops st c = {#Read_op c b#}" and "delivered sv (Read_op c b) e d st = Inr st'"
  shows "story sv st' c"
proof -
  let ?k = "conns st c" and ?s0 = "(new_request 0 0, request_parser)"
  have fed: "feed_chunks parse ?s0 (received st c) = Inr ((the_request ?k, the_parser ?k), Indeterminate)"
    and out: "sent st c = []" "the_reply ?k = initial_reply"
    using assms(1,2) unfolding story_def answered_def by (auto split: if_splits)
  let ?st = "before (Read_op c b) e d st"
  have read: "read_done sv c e d ?st = Inr st'" using assms(3) by (simp add: delivered_def before_def)
  have b: "conns ?st = conns st" "sent ?st = sent st" "ops ?st c = {#}"
    "received ?st c = (if e = No_error then received st c @ [d] else received st c)"
    using assms(2) by (simp_all add: before_def ops_removed)
  from read show ?thesis
  proof (cases rule: handle_read_cases)
    case aborted
    then show ?thesis using story_mono [OF assms(1), of st'] b by simp
  next
    case failed
    then show ?thesis using story_mono [OF assms(1), of st'] b by (simp add: handler_defs)
  next
    case (undecided req p rest)
    have "feed_chunks parse ?s0 (received st c @ [d]) = Inr ((req, p), Indeterminate)"
      using undecided(2) fed b(1) by (simp add: feed_snoc)
    then show ?thesis using undecided(1) b out unfolding undecided(3)
      by (auto simp: story_def answered_def handler_defs)
  next
    case (rejected req p rest)
    have "feed_chunks parse ?s0 (received st c @ [d]) = Inr ((req, p), TFalse)"
      using rejected(2) fed b(1) by (simp add: feed_snoc)
    then show ?thesis using rejected(1) b out unfolding rejected(3)
      by (auto simp: story_def answered_def handler_defs reply_to_def)
  next
    case (handled req p rest rep w)
    have "feed_chunks parse ?s0 (received st c @ [d]) = Inr ((req, p), TTrue)"
      using handled(2) fed b(1) by (simp add: feed_snoc)
    moreover have "reply_to sv req TTrue rep"
      using handled(3) b(1) out(2) by (auto simp: reply_to_def)
    ultimately show ?thesis using handled(1) b out unfolding handled(4)
      by (auto simp: story_def answered_def handler_defs)
  qed
qed

lemma story_conn_op:
  assumes "server_inv st" and "\<forall>c. story sv st c" and "op \<in># pending st" and "completes st op e d"
    and "op_conn op = Some c" and "delivered sv op e d st = Inr st'"
  shows "story sv st' c'"
proof (cases "c' = c")
  case True
  note single = conn_op_single(1) [OF assms(1,3,5)]
  show ?thesis
  proof (cases op)
    case (Read_op c1 b)
    then show ?thesis using story_read [of sv st c b e d st'] single assms(2,5,6) True by simp
  next
    case (Write_op c1 b)
    then show ?thesis using story_write [of sv st c b e d st'] single assms(2,5,6) True by simp
  qed (use assms(5) in simp_all)
next
  case False
  then show ?thesis
    using story_mono [OF assms(2) [rule_format], of st' c'] server_inv_conn_op(2) [OF assms(1,3-6)]
    by (simp add: elsewhere_def)
qed


lemma fresh_conn_op:
  assumes "server_inv st" and "fresh_inv st" and "op \<in># pending st" and "completes st op e d"
    and "op_conn op = Some c" and "delivered sv op e d st = Inr st'"
  shows "fresh_inv st'"
proof -
  note e = server_inv_conn_op(2) [OF assms(1,3-6)]
  have c: "\<not> idle st c" using conn_op_single(2) [OF assms(1,3,5)] .
  have "untouched st' x" if "next_id st' \<le> x \<or> Accept_op x \<in># accepts st'" for x
  proof -
    have x: "next_id st \<le> x \<or> Accept_op x \<in># accepts st" using that e by (simp add: elsewhere_def)
    then have "idle st x" using assms(1) by (auto simp: server_inv_def acceptor_inv_def)
    with c have "x \<noteq> c" by auto
    moreover have "untouched st x" using assms(2) x unfolding fresh_inv_def by blast
    ultimately show ?thesis using e by (simp add: elsewhere_def untouched_def)
  qed
  then show ?thesis by (simp add: fresh_inv_def)
qed

lemma start_accept_facts:
  "untouched (start_accept st) c \<longleftrightarrow>
     (if c = next_id st then received st c = [] \<and> sent st c = [] else untouched st c)"
  "ops (start_accept st) c = ops st c"
  "next_id (start_accept st) = Suc (next_id st)"
  "accepts (start_accept st) = add_mset (Accept_op (next_id st)) (accepts st)"
  by (simp_all add: start_accept_def Let_def untouched_def new_connection_def)

lemma story_start_accept:
  assumes "\<forall>c. story sv st c" and "fresh_inv st" and "accepts st = {#}" and "\<forall>c\<ge>next_id st. idle st c"
  shows "story sv (start_accept st) c" and "fresh_inv (start_accept st)"
proof -
  have u: "untouched st x" if "next_id st \<le> x" for x using assms(2) that by (simp add: fresh_inv_def)
  show "story sv (start_accept st) c"
  proof (cases "c = next_id st")
    case True
    then have "untouched (start_accept st) c" using u [of c] by (simp add: start_accept_facts(1)) (simp add: untouched_def)
    moreover have "ops (start_accept st) c = {#}" using True assms(4) by (simp add: start_accept_facts(2) idle_def)
    ultimately show ?thesis by (intro story_untouched) simp_all
  next
    case False
    then show ?thesis
      by (intro story_mono [OF assms(1) [rule_format]]) (simp_all add: start_accept_def Let_def)
  qed
  show "fresh_inv (start_accept st)"
    using u assms(3) by (auto simp: fresh_inv_def start_accept_facts) (simp_all add: untouched_def)
qed

lemma story_accept:
  assumes "server_inv st" and "\<forall>c. story sv st c" and "fresh_inv st" and "Accept_op a \<in># pending st"
  shows "story sv (handle_accept e (before (Accept_op a) e d st)) c \<and>
    fresh_inv (handle_accept e (before (Accept_op a) e d st))"
proof -
  let ?st = "before (Accept_op a) e d st" and ?st1 = "manager_start a (before (Accept_op a) e d st)"
  note acc = accept_op_next [OF assms(1,4)]
  have a: "untouched st a" using assms(3) acc(2) by (simp add: fresh_inv_def)
  have unt: "untouched ?st x = untouched st x" for x
    by (simp add: before_def untouched_def)
  have idle: "idle ?st x \<longleftrightarrow> idle st x" for x by (simp add: idle_def before_frame)
  have st: "story sv ?st x" for x
    by (intro story_mono [OF assms(2) [rule_format]]) (simp_all add: before_def ops_removed)
  have fr: "fresh_inv ?st" using assms(3) by (simp add: fresh_inv_def unt before_frame acc(2))
  have ac: "accepts ?st = {#}" by (simp add: before_frame acc(2))
  have id: "\<forall>x\<ge>next_id ?st. idle ?st x" and lt: "a < next_id ?st"
    using assms(1) unfolding acc(1) by (simp_all add: idle [unfolded acc(1)] server_inv_def acceptor_inv_def before_frame)
  have st1: "story sv ?st1 x" for x
  proof (cases "x = a")
    case True
    have "untouched ?st1 a" using a unt [of a] by (simp add: untouched_def handler_defs)
    moreover have "ops ?st a = {#}" using acc(3) by (simp add: idle_def before_frame)
    ultimately show ?thesis unfolding True by (intro story_untouched) (simp_all add: handler_defs)
  next
    case False
    then show ?thesis by (intro story_mono [OF st]) (simp_all add: handler_defs)
  qed
  have unt1: "untouched ?st1 x = untouched ?st x" for x by (simp add: untouched_def handler_defs)
  have fr1: "fresh_inv ?st1" using fr by (simp add: fresh_inv_def unt1) (simp add: handler_defs)
  have ac1: "accepts ?st1 = {#}" using ac by (simp add: handler_defs)
  have id1: "\<forall>x\<ge>next_id ?st1. idle ?st1 x" using id lt by (auto simp: idle_def handler_defs)
  have "next_connection ?st = a" using acc(1) by (simp add: before_frame)
  then show ?thesis
    using story_start_accept [OF allI [OF st] fr ac id] story_start_accept [OF allI [OF st1] fr1 ac1 id1] st fr
    by (cases "e = No_error") (simp_all add: handle_accept_def)
qed

lemma story_stop:
  assumes "\<forall>c. story sv st c" and "fresh_inv st"
  shows "story sv (stop_done (before Signal_op e d st)) c \<and> fresh_inv (stop_done (before Signal_op e d st))"
proof -
  let ?st = "stop_done (before Signal_op e d st)"
  have "story sv ?st c"
    by (intro story_mono [OF assms(1) [rule_format]]) (simp_all add: stop_done_def handler_defs before_def ops_removed)
  moreover have "untouched ?st x = untouched st x" for x
    by (simp add: untouched_def stop_done_def handler_defs before_def)
  then have "fresh_inv ?st" using assms(2)
    by (simp add: fresh_inv_def) (simp add: stop_done_def handler_defs before_def ops_removed)
  ultimately show ?thesis by simp
qed

lemma story_reachable: "reachable sv w st \<Longrightarrow> (\<forall>c. story sv st c) \<and> fresh_inv st"
proof (induction rule: reachable.induct)
  case start
  have "untouched (server_new w) c" "ops (server_new w) c = {#}" for c
    by (simp_all add: server_new_def start_accept_facts)
       (simp_all add: untouched_def new_connection_def ops_def initiate_def)
  then show ?case by (simp add: fresh_inv_def story_untouched)
next
  case (next_step st st')
  note inv = server_inv_reachable [OF next_step(1)]
  obtain op e d where step: "op \<in># pending st" "completes st op e d" "delivered sv op e d st = Inr st'"
    using next_step(2) by (rule stepE)
  show ?case
  proof (cases op)
    case (Accept_op c)
    then show ?thesis using step story_accept [OF inv] next_step.IH by (auto simp: delivered_def before_def)
  next
    case Signal_op
    then show ?thesis using step story_stop next_step.IH by (auto simp: delivered_def before_def)
  qed (use step story_conn_op [OF inv] fresh_conn_op [OF inv] next_step.IH in auto)
qed

section \<open>A short run\<close>

text \<open>The server after its first accept, and after that connection was sent a byte no method starts with.\<close>

definition accepted_first :: "'db world \<Rightarrow> 'db server" where
  "accepted_first w = handle_accept No_error (before (Accept_op 0) No_error [] (server_new w))"

lemmas server_defs = server_new_def start_accept_def handle_accept_def before_def handler_defs Let_def

lemma reachable_deliver:
  "reachable sv w st \<Longrightarrow> op \<in># pending st \<Longrightarrow> completes st op e d \<Longrightarrow> delivered sv op e d st = Inr st' \<Longrightarrow>
    reachable sv w st'"
  using reachable.next_step step_delivered by blast

lemma accepted_first_facts:
  "pending (accepted_first w) = {#Accept_op 1, Read_op 0 True, Signal_op#}"
  "conns (accepted_first w) 0 = new_connection\<lparr>socket_open := True\<rparr>"
  "received (accepted_first w) = (\<lambda>_. [])" "sent (accepted_first w) = (\<lambda>_. [])"
  by (simp_all add: accepted_first_def server_defs initiate_def update_conn_def)

lemma accepted_first_reachable: "reachable sv w (accepted_first w)"
proof (rule reachable_deliver [OF reachable.start])
  show "Accept_op 0 \<in># pending (server_new w)" "completes (server_new w) (Accept_op 0) No_error []"
    by (simp_all add: server_defs initiate_def)
  show "delivered sv (Accept_op 0) No_error [] (server_new w) = Inr (accepted_first w)"
    by (simp add: delivered_def accepted_first_def before_def)
qed

lemma parse_refused:
  "parse (new_request 0 0, request_parser) ''('' = Inr ((new_request 0 0, request_parser), TFalse, [])"
  by code_simp

lemma refused_run: "\<exists>st. reachable sv w st \<and> sent st 0 = [wire (stock_reply Bad_request)]"
proof -
  let ?st = "accepted_first w"
  define st1 where "st1 = async_write 0 (set_reply 0 (stock_reply Bad_request)
    (set_parsed 0 (new_request 0 0, request_parser) (before (Read_op 0 True) No_error ''('' ?st)))"
  have b: "conns (before (Read_op 0 True) No_error ''('' ?st) 0 = new_connection\<lparr>socket_open := True\<rparr>"
    by (simp add: before_conns accepted_first_facts)
  have "read_done sv 0 No_error ''('' (before (Read_op 0 True) No_error ''('' ?st) = Inr st1"
    using parse_refused by (simp add: read_done_eq b st1_def Let_def) (simp add: new_connection_def)
  then have d: "delivered sv (Read_op 0 True) No_error ''('' ?st = Inr st1" by (simp add: delivered_def before_def)
  have co: "completes ?st (Read_op 0 True) No_error ''(''" by (simp add: buffer_size_def)
  have "Read_op 0 True \<in># pending ?st" by (simp add: accepted_first_facts)
  note 1 = reachable_deliver [OF accepted_first_reachable this co d]
  have st1: "Write_op 0 True \<in># pending st1" "the_reply (conns st1 0) = stock_reply Bad_request" "sent st1 0 = []"
    "socket_open (conns st1 0)"
    using b by (simp_all add: st1_def handler_defs) (simp add: before_def accepted_first_facts)
  have "reachable sv w (write_done 0 No_error (before (Write_op 0 True) No_error [] st1))"
    by (rule reachable_deliver [OF 1 st1(1), where e = No_error and d = "[]"]) (simp_all add: delivered_def before_def)
  moreover have "sent (write_done 0 No_error (before (Write_op 0 True) No_error [] st1)) 0 = [wire (stock_reply Bad_request)]"
    using st1(2,3) by (simp add: write_done_def handler_defs Let_def before_def)
  ultimately show ?thesis by blast
qed

definition demo_services :: "mem_db services" where
  "demo_services = \<lparr>hset = mem_hset, hgetall = mem_hgetall, person_run = (\<lambda>d n. ''''), iter = (\<lambda>m. m)\<rparr>"

definition demo_world :: "mem_db world" where
  "demo_world = \<lparr>inst = None, db = []\<rparr>"

section \<open>What the server promises\<close>

text \<open>
  C9: in every reachable state a managed connection has an open socket and exactly one outstanding
  operation (so none is forgotten); any other connection with one has been closed; while the acceptor is
  open exactly one accept is outstanding, and afterwards nothing is managed.
\<close>
theorem server_invariant:
  assumes "reachable sv w st"
  shows "(\<forall>c\<in>managed st. socket_open (conns st c) \<and> (ops st c = {#Read_op c True#} \<or> ops st c = {#Write_op c True#})) \<and>
    (\<forall>c. c \<notin> managed st \<and> ops st c \<noteq> {#} \<longrightarrow> \<not> socket_open (conns st c) \<and> size (ops st c) = 1) \<and>
    (if acceptor_open st then accepts st = {#Accept_op (next_connection st)#} else managed st = {})"
proof -
  note inv = server_inv_reachable [OF assms]
  have c: "conn_inv st c" for c using inv by (simp add: server_inv_def)
  have "socket_open (conns st c) \<and> (ops st c = {#Read_op c True#} \<or> ops st c = {#Write_op c True#})"
    if "c \<in> managed st" for c
    using c [of c] that by (simp add: conn_inv_def)
  moreover have "\<not> socket_open (conns st c) \<and> size (ops st c) = 1"
    if "c \<notin> managed st \<and> ops st c \<noteq> {#}" for c
    using c [of c] that by (auto simp: conn_inv_def)
  ultimately show ?thesis using inv by (auto simp: server_inv_def acceptor_inv_def)
qed

theorem server_invariant_witness:
  "0 \<in> managed (accepted_first demo_world) \<and> socket_open (conns (accepted_first demo_world) 0) \<and>
    accepts (accepted_first demo_world) = {#Accept_op 1#}"
proof -
  have "acceptor_open (accepted_first demo_world)" "next_connection (accepted_first demo_world) = 1"
    "managed (accepted_first demo_world) = {0}"
    by (simp_all add: accepted_first_def server_defs initiate_def update_conn_def)
  then show ?thesis using server_invariant [OF accepted_first_reachable [of demo_services demo_world]] by simp
qed

text \<open>
  C8: a connection is sent at most one reply, and it is the reply to the bytes it delivered, however
  they were cut: the stock reply 400 when the parser rejects them, what \<open>handle_request\<close> makes of the
  request when it accepts them.
\<close>
theorem reply_determined:
  assumes "reachable sv w st"
  shows "sent st c = [] \<or>
    (\<exists>req p t rest rep. parse (new_request 0 0, request_parser) (concat (received st c)) = Inr ((req, p), t, rest) \<and>
      sent st c = [wire rep] \<and>
      (t = TFalse \<and> rep = stock_reply Bad_request \<or>
       t = TTrue \<and> (\<exists>w1 w2. handle_request sv req initial_reply w1 = Inr (rep, w2))))"
proof (rule disjCI)
  assume ne: "\<not> (\<exists>req p t rest rep. parse (new_request 0 0, request_parser) (concat (received st c)) = Inr ((req, p), t, rest) \<and>
      sent st c = [wire rep] \<and>
      (t = TFalse \<and> rep = stock_reply Bad_request \<or>
       t = TTrue \<and> (\<exists>w1 w2. handle_request sv req initial_reply w1 = Inr (rep, w2))))"
  have "story sv st c" using story_reachable [OF assms] by blast
  then obtain t where
    t: "feed_chunks parse (new_request 0 0, request_parser) (received st c) =
      Inr ((the_request (conns st c), the_parser (conns st c)), t)"
    and ans: "answered sv c t (the_request (conns st c)) (the_reply (conns st c)) (sent st c) (ops st c)"
    by (auto simp: story_def)
  obtain rest where "parse (new_request 0 0, request_parser) (concat (received st c)) =
      Inr ((the_request (conns st c), the_parser (conns st c)), t, rest)"
    using t by (auto simp: rp.feed_concat res_simps split: prod.splits)
  then show "sent st c = []" using ans ne unfolding answered_def reply_to_def by (auto split: if_splits)
qed

theorem reply_determined_witness:
  "\<exists>st. reachable demo_services demo_world st \<and>
    (\<exists>req p t rest rep. parse (new_request 0 0, request_parser) (concat (received st 0)) = Inr ((req, p), t, rest) \<and>
      sent st 0 = [wire rep] \<and>
      (t = TFalse \<and> rep = stock_reply Bad_request \<or>
       t = TTrue \<and> (\<exists>w1 w2. handle_request demo_services req initial_reply w1 = Inr (rep, w2))))"
proof -
  obtain st where st: "reachable demo_services demo_world st" and ne: "sent st 0 \<noteq> []"
    using refused_run [of demo_services demo_world] by force
  from reply_determined [OF st, of 0] ne st show ?thesis by blast
qed

section \<open>Stopping\<close>

text \<open>
  How many more completions an operation can lead to once the acceptor and every managed socket are
  closed: its own, and for one initiated while the socket was open one of an operation that fails.
\<close>

fun op_weight :: "operation \<Rightarrow> nat" where
  "op_weight (Read_op c b) = (if b then 2 else 1)"
| "op_weight (Write_op c b) = (if b then 2 else 1)"
| "op_weight (Accept_op c) = 1"
| "op_weight Signal_op = 1"

definition weight :: "'db server \<Rightarrow> nat" where
  "weight st = (\<Sum>op\<in>#pending st. op_weight op)"

lemma weight_le: "weight st \<le> 2 * size (pending st)"
proof -
  have "(\<Sum>op\<in>#M. op_weight op) \<le> 2 * size M" for M
  proof (induction M)
    case (add x M)
    have "op_weight x \<le> 2" by (cases x) simp_all
    with add show ?case by simp
  qed simp
  then show ?thesis by (simp add: weight_def)
qed

lemma weight_removed: "op \<in># M \<Longrightarrow> (\<Sum>x\<in>#M - {#op#}. op_weight x) + op_weight op = (\<Sum>x\<in>#M. op_weight x)"
  by (metis add.commute insert_DiffM sum_mset.insert)

lemma before_pending: "pending (before op e d st) = pending st - {#op#}"
  by (cases op) (simp_all add: before_def)

lemma stopped_step:
  assumes "server_inv st" and "\<not> acceptor_open st" and "op \<in># pending st" and "completes st op e d"
    and "delivered sv op e d st = Inr st'"
  shows "\<not> acceptor_open st' \<and> weight st' < weight st"
proof -
  let ?b = "before op e d st"
  have w: "(\<Sum>x\<in>#pending ?b. op_weight x) + op_weight op = weight st"
    using weight_removed [OF assms(3)] by (simp add: before_pending weight_def)
  have pos: "0 < op_weight op" by (cases op) simp_all
  have closed: "\<not> socket_open (conns ?b c)" if "op_conn op = Some c" for c
  proof -
    have "managed st = {}" using assms(1,2) by (auto simp: server_inv_def acceptor_inv_def)
    moreover have "\<not> is_accept op" using that by (cases op) simp_all
    ultimately show ?thesis using conn_op_open [OF assms(1,3) that] by (simp add: before_conns)
  qed
  have r: "run_done sv op e d ?b = Inr st'" using assms(5) by (simp add: delivered_def before_def)
  show ?thesis
  proof (cases op)
    case (Read_op c b)
    then have "read_done sv c e d ?b = Inr st'" using r by simp
    then show ?thesis
    proof (cases rule: handle_read_cases)
      case aborted
      then show ?thesis using w pos assms(2) by (simp add: weight_def before_frame)
    next
      case failed
      then show ?thesis using w pos assms(2) by (simp add: weight_def before_frame handler_defs)
    qed (use w pos assms(2,4) closed [of c] Read_op in \<open>auto simp: weight_def before_frame handler_defs\<close>)
  next
    case (Write_op c b)
    then have "st' = write_done c e ?b" using r by simp
    then have "pending st' = pending ?b" "acceptor_open st' = acceptor_open ?b"
      by (simp_all add: write_done_def Let_def handler_defs)
    then show ?thesis using w pos assms(2) by (simp add: weight_def before_frame)
  next
    case (Accept_op c)
    then show ?thesis using r w pos assms(2) by (auto simp: handle_accept_def weight_def before_frame)
  next
    case Signal_op
    then show ?thesis using r w pos assms(2)
      by (auto simp: stop_done_def handler_defs weight_def before_frame before_pending)
  qed
qed

lemma stopped_run:
  "(step sv ^^ n) st st' \<Longrightarrow> server_inv st \<Longrightarrow> \<not> acceptor_open st \<Longrightarrow>
    \<not> acceptor_open st' \<and> weight st' + n \<le> weight st"
proof (induction n arbitrary: st')
  case (Suc n)
  then obtain mid where mid: "(step sv ^^ n) st mid" "step sv mid st'" by auto
  have inv: "server_inv mid" using mid(1) Suc.prems(2)
  proof (induction n arbitrary: mid)
    case (Suc k)
    then show ?case by (auto elim!: stepE dest: server_inv_step)
  qed simp
  obtain op e d where "op \<in># pending mid" "completes mid op e d" "delivered sv op e d mid = Inr st'"
    using mid(2) by (rule stepE)
  from stopped_step [OF inv _ this] Suc.IH [OF mid(1)] Suc.prems(2,3) show ?case by auto
qed simp

lemma can_step: "pending st \<noteq> {#} \<Longrightarrow> \<exists>st'. step sv st st'"
proof -
  assume "pending st \<noteq> {#}"
  then obtain op where op: "op \<in># pending st" by (meson multiset_nonemptyE)
  have "completes st op Other_error []" by (cases op) simp_all
  moreover have "\<exists>st'. delivered sv op Other_error [] st = Inr st'"
    by (cases op) (simp_all add: delivered_def read_done_eq)
  ultimately show ?thesis using step_delivered [OF op] by blast
qed

text \<open>
  C15: once the stop signal has been handled, \<open>io_context::run\<close> runs out of work: at most two
  completions per outstanding operation follow, and as long as an operation is outstanding the loop can
  go on.
\<close>
theorem stop_quiesces:
  assumes "reachable sv w st" and "\<not> acceptor_open st" and "(step sv ^^ n) st st'"
  shows "n \<le> 2 * size (pending st) \<and> managed st' = {} \<and> (pending st' = {#} \<or> (\<exists>st''. step sv st' st''))"
proof -
  note inv = server_inv_reachable [OF assms(1)]
  have r: "reachable sv w st'" using assms(3,1)
    by (induction n arbitrary: st') (auto intro: reachable.next_step)
  have s: "\<not> acceptor_open st'" "weight st' + n \<le> weight st" using stopped_run [OF assms(3) inv assms(2)] by simp_all
  then have "managed st' = {}" using server_inv_reachable [OF r] by (auto simp: server_inv_def acceptor_inv_def)
  then show ?thesis using s(2) weight_le [of st] can_step [of st' sv] by auto
qed

lemma stopped_first:
  "reachable sv w (stop_done (before Signal_op No_error [] (accepted_first w)))"
  "\<not> acceptor_open (stop_done (before Signal_op No_error [] (accepted_first w)))"
  "size (pending (stop_done (before Signal_op No_error [] (accepted_first w)))) = 2"
proof -
  have s: "Signal_op \<in># pending (accepted_first w)" by (simp add: accepted_first_facts)
  show "reachable sv w (stop_done (before Signal_op No_error [] (accepted_first w)))"
    by (rule reachable_deliver [OF accepted_first_reachable s, where e = No_error and d = "[]"])
       (simp_all add: delivered_def before_def)
qed (simp_all add: stop_done_def handler_defs before_pending accepted_first_facts)

theorem stop_quiesces_witness:
  "0 \<le> 2 * size (pending (stop_done (before Signal_op No_error [] (accepted_first demo_world)))) \<and>
   managed (stop_done (before Signal_op No_error [] (accepted_first demo_world))) = {} \<and>
   (\<exists>st''. step demo_services (stop_done (before Signal_op No_error [] (accepted_first demo_world))) st'')"
proof -
  have "(step demo_services ^^ 0) (stop_done (before Signal_op No_error [] (accepted_first demo_world)))
      (stop_done (before Signal_op No_error [] (accepted_first demo_world)))" by simp
  from stop_quiesces [OF stopped_first(1,2) this] stopped_first(3) [of demo_world] show ?thesis
    by (metis numeral_2_eq_2 size_empty zero_neq_numeral)
qed

section \<open>How the server ends otherwise\<close>

lemma read_done_throws:
  assumes "read_done sv c e d st = Inl x"
  shows "parse (the_request (conns st c), the_parser (conns st c)) d = Inl x \<or>
    (\<exists>req rep. handle_request sv req rep (history_world st) = Inl x)"
proof (cases "parse (the_request (conns st c), the_parser (conns st c)) d")
  case (Inr y)
  obtain rp t rest where y: "y = (rp, t, rest)" by (cases y)
  show ?thesis
  proof (cases t)
    case TTrue
    let ?h = "handle_request sv (the_request (conns (set_parsed c rp st) c)) (the_reply (conns (set_parsed c rp st) c))
      (history_world (set_parsed c rp st))"
    have "history_world (set_parsed c rp st) = history_world st" by (simp add: set_parsed_def)
    then show ?thesis using assms Inr y TTrue
      by (cases ?h) (auto simp: read_done_eq Let_def split: if_splits)
  qed (use assms Inr y in \<open>auto simp: read_done_eq Let_def split: if_splits\<close>)
qed (use assms in \<open>auto simp: read_done_eq split: if_splits\<close>)

lemma run_throws_cases:
  assumes "run_throws sv st x"
  obtains (parser) c d where "parse (the_request (conns st c), the_parser (conns st c)) d = Inl x"
    | (handler) req rep where "handle_request sv req rep (history_world st) = Inl x"
    | (close) u where "x = Runtime_error u"
proof -
  obtain cl op e d where "deliver sv cl op e d st = Inl x" using assms by (rule run_throwsE)
  then consider "x = close_error cl" | "delivered sv op e d st = Inl x" using deliver_Inl by blast
  then show thesis
  proof cases
    case 1
    then show thesis using close by (simp add: close_error_def)
  next
    case 2
    then obtain c b where "op = Read_op c b" and r: "read_done sv c e d (before op e d st) = Inl x"
      by (cases op) (auto simp: delivered_def before_def)
    have "conns (before op e d st) = conns st" "history_world (before op e d st) = history_world st"
      using \<open>op = Read_op c b\<close> by (simp_all add: before_conns before_frame)
    with read_done_throws [OF r] parser [of c d] handler show thesis by auto
  qed
qed

lemma story_parser_inv: "story sv st c \<Longrightarrow> parser_inv (the_request (conns st c), the_parser (conns st c))"
proof -
  assume "story sv st c"
  then obtain t where "feed_chunks parse (new_request 0 0, request_parser) (received st c) =
      Inr ((the_request (conns st c), the_parser (conns st c)), t)" by (auto simp: story_def)
  then obtain rest where "parse (new_request 0 0, request_parser) (concat (received st c)) =
      Inr ((the_request (conns st c), the_parser (conns st c)), t, rest)"
    by (auto simp: rp.feed_concat res_simps split: prod.splits)
  then show ?thesis using rp.run_invar [OF parser_inv_start] by blast
qed

text \<open>Nothing else than these exceptions ends the loop.\<close>

lemma run_throws_only:
  assumes "redis_hash contents (hset sv) (hgetall sv)" and "reachable sv w st" and "run_throws sv st x"
  shows "x \<in> {Invalid_argument, Out_of_range, Redis_error, Literal_thrown b64_literal} \<or> (\<exists>u. x = Runtime_error u)"
  using assms(3)
proof (cases rule: run_throws_cases)
  case (parser c d)
  have "story sv st c" using story_reachable [OF assms(2)] by blast
  then have "parser_inv (the_request (conns st c), the_parser (conns st c))" by (rule story_parser_inv)
  then show ?thesis using parse_Inl parser by blast
next
  case (handler req rep)
  then show ?thesis using handle_request_Inl [OF assms(1)] by blast
qed simp

lemma redis_throws:
  assumes "reachable sv w st" and "run_throws sv st Redis_error"
  shows "(\<exists>e. hgetall sv (db (history_world st)) ''history'' = Inl e) \<or>
    (\<exists>f v e. hset sv (db (history_world st)) ''history'' f v = Inl e)"
  using assms(2)
proof (cases rule: run_throws_cases)
  case (parser c d)
  have "story sv st c" using story_reachable [OF assms(1)] by blast
  then have "parser_inv (the_request (conns st c), the_parser (conns st c))" by (rule story_parser_inv)
  from parse_Inl [OF this parser] show ?thesis by simp
next
  case (handler req rep)
  then show ?thesis by (auto simp: handle_request_Inl_iff predict_images_Inl split: if_splits)
qed simp

text \<open>A close that throws is enough, whatever it says.\<close>

lemma close_throws: "\<exists>st. reachable sv w st \<and> run_throws sv st (Runtime_error u)"
proof -
  let ?st = "accepted_first w"
  have "Read_op 0 True \<in># pending ?st" by (simp add: accepted_first_facts)
  moreover have "completes ?st (Read_op 0 True) Other_error []" by simp
  moreover have "deliver sv \<lparr>socket_fails = (\<lambda>_. True), acceptor_fails = False, close_text = u\<rparr>
      (Read_op 0 True) Other_error [] ?st = Inl (Runtime_error u)"
    by (simp add: deliver_def handle_read_closes close_error_def)
  ultimately show ?thesis using accepted_first_reachable run_throws.intros by blast
qed

end
