(* ===== verification/ServerProgress.thy ===== *)
theory ServerProgress
  imports Server
begin

text \<open>
  What the event loop can always still do: while its acceptor is open, the server can take a new client,
  read its request and send the reply, whatever its other connections are doing. The steps are those of
  \<open>Server\<close>; this theory shows that they can be taken.
\<close>

section \<open>Connections at work\<close>

text \<open>A connection that waits for bytes, its parser in state \<open>s\<close>; one whose reply is being written.\<close>

definition reading :: "'db server \<Rightarrow> nat \<Rightarrow> request \<times> parser \<Rightarrow> bool" where
  "reading st c s \<longleftrightarrow>
     ops st c = {#Read_op c True#} \<and> socket_open (conns st c) \<and>
     (the_request (conns st c), the_parser (conns st c)) = s \<and> the_reply (conns st c) = initial_reply \<and>
     sent st c = [] \<and> acceptor_open st"

definition writing :: "'db server \<Rightarrow> nat \<Rightarrow> reply \<Rightarrow> bool" where
  "writing st c rep \<longleftrightarrow>
     ops st c = {#Write_op c True#} \<and> the_reply (conns st c) = rep \<and> sent st c = [] \<and> acceptor_open st"

text \<open>The reply is on its way to the client, the connection is closed and forgotten.\<close>

definition served :: "'db server \<Rightarrow> nat \<Rightarrow> reply \<Rightarrow> bool" where
  "served st c rep \<longleftrightarrow>
     sent st c = [wire rep] \<and> c \<notin> managed st \<and> ops st c = {#} \<and> socket_shut (conns st c) \<and>
     \<not> socket_open (conns st c) \<and> acceptor_open st"

lemma ops_pending: "ops st c = {#op#} \<Longrightarrow> op \<in># pending st"
proof -
  assume "ops st c = {#op#}"
  then have "op \<in># ops st c" by simp
  then show "op \<in># pending st" by (simp add: ops_def)
qed

lemma take_step:
  "op \<in># pending st \<Longrightarrow> completes st op e d \<Longrightarrow> run_done sv op e d (before op e d st) = Inr st' \<Longrightarrow> step sv st st'"
  by (rule step_delivered) (simp_all add: delivered_def before_def)

section \<open>The steps of one request\<close>

lemma accept_step:
  assumes "server_inv st" and "fresh_inv st" and "acceptor_open st" and "c = next_connection st"
  shows "\<exists>st'. step sv st st' \<and> reading st' c (new_request 0 0, request_parser) \<and>
    history_world st' = history_world st \<and> received st' c = []"
proof -
  have acc: "accepts st = {#Accept_op c#}" "idle st c" "c < next_id st"
    using assms(1,3,4) by (auto simp: server_inv_def acceptor_inv_def)
  then have "untouched st c" using assms(2) by (simp add: fresh_inv_def)
  have pend: "Accept_op c \<in># pending st"
    using acc(1) unfolding accepts_def by (metis filter_mset_eq_conv multi_member_last mset_subset_eqD multiset_filter_subset)
  let ?taken = "before (Accept_op c) No_error [] st"
  let ?st = "handle_accept No_error ?taken"
  have "step sv st ?st" by (rule take_step [OF pend, where e = No_error and d = "[]"]) simp_all
  moreover have "reading ?st c (new_request 0 0, request_parser)" "history_world ?st = history_world st"
    "received ?st c = []"
    using acc \<open>untouched st c\<close> assms(3,4)
    by (simp_all add: reading_def untouched_def idle_def handle_accept_def before_def start_accept_def
        handler_defs Let_def ops_removed)
  ultimately show ?thesis by blast
qed

lemma read_step:
  assumes "reading st c s" and "length d \<le> buffer_size" and "parse s d = Inr (s', Indeterminate, rest)"
  shows "\<exists>st'. step sv st st' \<and> reading st' c s' \<and> history_world st' = history_world st \<and>
    received st' c = received st c @ [d]"
proof -
  have op: "Read_op c True \<in># pending st" 
    by (rule ops_pending [of st c]) (use assms(1) in \<open>simp add: reading_def\<close>)
  let ?taken = "before (Read_op c True) No_error d st"
  let ?st = "async_read_some c (set_parsed c s' ?taken)"
  have "parse (the_request (conns ?taken c), the_parser (conns ?taken c)) d = Inr (s', Indeterminate, rest)"
    using assms(1,3) by (simp add: reading_def before_conns)
  then have "step sv st ?st"
    using assms(2) by (intro take_step [OF op, where e = No_error and d = d]) (simp_all add: read_done_eq Let_def)
  moreover have "reading ?st c s'" "history_world ?st = history_world st" "received ?st c = received st c @ [d]"
    using assms(1) by (simp_all add: reading_def handler_defs before_frame before_conns)
       (cases s'; simp add: before_def)+
  ultimately show ?thesis by blast
qed

text \<open>What the server answers to a request it has read, and the history after it.\<close>

definition answer :: "'db services \<Rightarrow> request \<Rightarrow> tribool \<Rightarrow> 'db world \<Rightarrow> reply \<times> 'db world \<Rightarrow> bool" where
  "answer sv req t w r \<longleftrightarrow>
     (case t of
        TTrue \<Rightarrow> handle_request sv req initial_reply w = Inr r
      | TFalse \<Rightarrow> r = (stock_reply Bad_request, w)
      | Indeterminate \<Rightarrow> False)"

lemma last_read_step:
  assumes "reading st c s" and "length d \<le> buffer_size" and "parse s d = Inr ((req, p), t, rest)"
    and "answer sv req t (history_world st) (rep, w)"
  shows "\<exists>st'. step sv st st' \<and> writing st' c rep \<and> history_world st' = w \<and> received st' c = received st c @ [d]"
proof -
  have op: "Read_op c True \<in># pending st" 
    by (rule ops_pending [of st c]) (use assms(1) in \<open>simp add: reading_def\<close>)
  let ?taken = "before (Read_op c True) No_error d st"
  have s0: "parse (the_request (conns ?taken c), the_parser (conns ?taken c)) d = Inr ((req, p), t, rest)"
    and rep0: "the_reply (conns ?taken c) = initial_reply" "history_world ?taken = history_world st"
    using assms(1,3) by (simp_all add: reading_def before_conns before_frame)
  let ?st = "async_write c (set_reply c rep ((set_parsed c (req, p) ?taken)\<lparr>history_world := w\<rparr>))"
  have "read_done sv c No_error d ?taken = Inr ?st"
    using assms(4) s0 rep0 by (cases t) (simp_all add: read_done_eq Let_def answer_def set_parsed_def set_reply_def update_conn_def async_write_def initiate_def)
  then have "step sv st ?st" using assms(2) by (intro take_step [OF op, where e = No_error and d = d]) simp_all
  moreover have "writing ?st c rep" "history_world ?st = w" "received ?st c = received st c @ [d]"
    using assms(1) by (simp_all add: writing_def reading_def handler_defs before_frame before_conns)
       (simp_all add: before_def)
  ultimately show ?thesis by blast
qed

lemma write_step:
  assumes "writing st c rep"
  shows "\<exists>st'. step sv st st' \<and> served st' c rep \<and> history_world st' = history_world st \<and>
    received st' c = received st c"
proof -
  have op: "Write_op c True \<in># pending st" 
    by (rule ops_pending [of st c]) (use assms in \<open>simp add: writing_def\<close>)
  let ?st = "write_done c No_error (before (Write_op c True) No_error [] st)"
  have "step sv st ?st" by (rule take_step [OF op, where e = No_error and d = "[]"]) simp_all
  moreover have "served ?st c rep" "history_world ?st = history_world st" "received ?st c = received st c"
    using assms by (simp_all add: served_def writing_def write_done_def handler_defs Let_def before_def ops_removed)
  ultimately show ?thesis by blast
qed

lemma request_steps:
  assumes "reading st c s" and "\<forall>d\<in>set chunks. length d \<le> buffer_size"
    and "feed_chunks parse s chunks = Inr ((req, p), t)" and "answer sv req t (history_world st) (rep, w)"
  shows "\<exists>st' k. (step sv)\<^sup>*\<^sup>* st st' \<and> served st' c rep \<and> history_world st' = w \<and>
    received st' c = received st c @ take k chunks \<and> feed_chunks parse s (take k chunks) = Inr ((req, p), t)"
  using assms
proof (induction chunks arbitrary: st s)
  case Nil
  then show ?case by (simp add: answer_def)
next
  case (Cons d chunks)
  obtain s' t' rest where s': "parse s d = Inr (s', t', rest)"
    and more: "if t' = Indeterminate then feed_chunks parse s' chunks = Inr ((req, p), t) else s' = (req, p) \<and> t' = t"
    using Cons.prems(3) by (auto simp: res_simps split: if_splits)
  show ?case
  proof (cases "t' = Indeterminate")
    case True
    obtain st1 where 1: "step sv st st1" "reading st1 c s'" "history_world st1 = history_world st"
      "received st1 c = received st c @ [d]"
      using read_step [OF Cons.prems(1) _ s' [unfolded True]] Cons.prems(2) by auto
    have "\<forall>d\<in>set chunks. length d \<le> buffer_size" "feed_chunks parse s' chunks = Inr ((req, p), t)"
      "answer sv req t (history_world st1) (rep, w)"
      using Cons.prems(2,4) more True 1(3) by simp_all
    from Cons.IH [OF 1(2) this] obtain st2 k where
      2: "(step sv)\<^sup>*\<^sup>* st1 st2" "served st2 c rep" "history_world st2 = w"
      "received st2 c = received st1 c @ take k chunks" "feed_chunks parse s' (take k chunks) = Inr ((req, p), t)"
      by blast
    have "received st2 c = received st c @ take (Suc k) (d # chunks)"
      "feed_chunks parse s (take (Suc k) (d # chunks)) = Inr ((req, p), t)"
      using 1(4) 2(4,5) s' True by simp_all
    then show ?thesis using 1(1) 2(1-3) by (blast intro: converse_rtranclp_into_rtranclp)
  next
    case False
    with more s' have parsed: "parse s d = Inr ((req, p), t, rest)" by simp
    obtain st1 where 1: "step sv st st1" "writing st1 c rep" "history_world st1 = w"
      "received st1 c = received st c @ [d]"
      using last_read_step [OF Cons.prems(1) _ parsed Cons.prems(4)] Cons.prems(2) by auto
    obtain st2 where 2: "step sv st1 st2" "served st2 c rep" "history_world st2 = history_world st1"
      "received st2 c = received st1 c"
      using write_step [OF 1(2)] by blast
    from 1(1) 2(1) have "(step sv)\<^sup>*\<^sup>* st st2" by (meson converse_rtranclp_into_rtranclp r_into_rtranclp)
    moreover have "received st2 c = received st c @ take 1 (d # chunks)"
      "feed_chunks parse s (take 1 (d # chunks)) = Inr ((req, p), t)"
      using 1(4) 2(4) parsed False more by simp_all
    ultimately show ?thesis using 1(3) 2(2,3) by blast
  qed
qed

lemma request_served_run:
  assumes "reachable sv w0 st" and "acceptor_open st"
    and "feed_chunks parse (new_request 0 0, request_parser) chunks = Inr ((req, p), t)"
    and "\<forall>d\<in>set chunks. length d \<le> buffer_size" and "answer sv req t (history_world st) (rep, w)"
  shows "\<exists>st' k. (step sv)\<^sup>*\<^sup>* st st' \<and> served st' (next_connection st) rep \<and> history_world st' = w \<and>
    received st' (next_connection st) = take k chunks \<and>
    feed_chunks parse (new_request 0 0, request_parser) (take k chunks) = Inr ((req, p), t)"
proof -
  let ?c = "next_connection st" and ?s = "(new_request 0 0, request_parser)"
  obtain st1 where 1: "step sv st st1" "reading st1 ?c ?s" "history_world st1 = history_world st" "received st1 ?c = []"
    using accept_step [OF server_inv_reachable [OF assms(1)] _ assms(2) refl] story_reachable [OF assms(1)] by blast
  have "answer sv req t (history_world st1) (rep, w)" using assms(5) 1(3) by simp
  from request_steps [OF 1(2) assms(4,3) this] obtain st2 k where
    "(step sv)\<^sup>*\<^sup>* st1 st2" "served st2 ?c rep" "history_world st2 = w"
    "received st2 ?c = received st1 ?c @ take k chunks" "feed_chunks parse ?s (take k chunks) = Inr ((req, p), t)"
    by blast
  then show ?thesis using 1(1,4) by (auto intro: converse_rtranclp_into_rtranclp)
qed

text \<open>
  C17: progress: from every state the server can reach with its acceptor open, however many connections are
  stuck in the middle of a request, it can accept one more client, read its bytes, in any pieces the
  buffer holds, until they decide, and deliver the reply to them; then that connection is closed and the
  acceptor still open.
\<close>
theorem request_served:
  assumes "reachable sv w0 st" and "acceptor_open st"
    and "feed_chunks parse (new_request 0 0, request_parser) chunks = Inr ((req, p), t)"
    and "\<forall>d\<in>set chunks. length d \<le> buffer_size" and "answer sv req t (history_world st) (rep, w)"
  shows "\<exists>st' k. (step sv)\<^sup>*\<^sup>* st st' \<and> served st' (next_connection st) rep \<and> history_world st' = w \<and>
    received st' (next_connection st) = take k chunks \<and>
    feed_chunks parse (new_request 0 0, request_parser) (take k chunks) = Inr ((req, p), t)"
  by (rule request_served_run [OF assms])

theorem request_served_witness:
  "\<exists>st' k. (step demo_services)\<^sup>*\<^sup>* (accepted_first demo_world) st' \<and>
     served st' (next_connection (accepted_first demo_world)) (stock_reply Bad_request) \<and>
     history_world st' = history_world (accepted_first demo_world) \<and>
     received st' (next_connection (accepted_first demo_world)) = take k [''('']"
proof -
  have "acceptor_open (accepted_first demo_world)"
    by (simp add: accepted_first_def server_defs initiate_def update_conn_def)
  moreover have "feed_chunks parse (new_request 0 0, request_parser) [''(''] =
      Inr ((new_request 0 0, request_parser), TFalse)"
    unfolding feed_chunks.simps parse_refused by simp
  ultimately show ?thesis
    using request_served [OF accepted_first_reachable, where chunks = "[''('']" and t = TFalse]
    by (simp add: answer_def buffer_size_def del: feed_chunks.simps) blast
qed

end
