(* ===== verification/Session.thy ===== *)
theory Session
  imports Server
begin

text \<open>
  The history over a whole run of the server: which requests have been handled, in which order, and what
  Redis holds because of them.
\<close>

section \<open>Requests handled one after the other\<close>

text \<open>The calls of \<open>handle_request\<close> that have returned, each with its reply, and the history after them.\<close>

inductive session :: "'db services \<Rightarrow> 'db world \<Rightarrow> (request \<times> reply) list \<Rightarrow> 'db world \<Rightarrow> bool" for sv w0 where
  opened: "session sv w0 [] w0"
| handled: "session sv w0 xs w \<Longrightarrow> handle_request sv req initial_reply w = Inr (rep, w') \<Longrightarrow>
    session sv w0 (xs @ [(req, rep)]) w'"

text \<open>The bodies of the predictions among them that were answered with a 200.\<close>

definition is_prediction :: "request \<times> reply \<Rightarrow> bool" where
  "is_prediction x \<longleftrightarrow> url_decode (uri (fst x)) = Some ''/predict'' \<and> status (snd x) = Ok"

definition predictions :: "(request \<times> reply) list \<Rightarrow> string list" where
  "predictions xs = map (\<lambda>x. content (snd x)) (filter is_prediction xs)"

lemma predictions_simps [simp]:
  "predictions [] = []"
  "predictions (xs @ [x]) = (if is_prediction x then predictions xs @ [content (snd x)] else predictions xs)"
  by (simp_all add: predictions_def)

lemma map_of_snoc: "map_of zs k = None \<Longrightarrow> map_of (zs @ [(k, v)]) = (map_of zs)(k \<mapsto> v)"
  by (auto simp: fun_eq_iff map_add_def split: option.split)

lemma numbered_snoc: "numbered 0 (js @ [j]) = (numbered 0 js)(dec (length js) \<mapsto> j)"
proof -
  have "zip (map dec [0..<length (js @ [j])]) (js @ [j]) = zip (map dec [0..<length js]) js @ [(dec (length js), j)]"
    by simp
  moreover have "map_of (zip (map dec [0..<length js]) js) (dec (length js)) = None"
    by (auto simp: map_of_eq_None_iff dest!: set_zip_leftD)
  ultimately show ?thesis by (simp only: numbered_def add_0 map_of_snoc)
qed

text \<open>
  After requests of a process that starts without an object, Redis holds the bodies of the predictions, numbered
  from 0, over what it held before, until the handles wrap around.
\<close>

lemma session_history:
  assumes "redis_hash contents (hset sv) (hgetall sv)" and "inst w0 = None"
  shows "session sv w0 xs w \<Longrightarrow> ctr w = word_of_nat (length (predictions xs)) \<and>
    (length (predictions xs) \<le> 2 ^ 32 \<longrightarrow>
      contents (db w) ''history'' = contents (db w0) ''history'' ++ numbered 0 (predictions xs))"
proof (induction rule: session.induct)
  case opened
  then show ?case using assms(2) by (simp add: ctr_def numbered_def)
next
  case (handled xs w req rep w')
  have "content initial_reply = []" by (simp add: new_connection_def)
  note cases = handle_request_Inr [OF assms(1) this handled(2)]
  have bad: "\<not> is_prediction (req, stock_reply Bad_request)"
    by (simp add: is_prediction_def stock_reply_def)
  from cases show ?case
  proof (elim disjE conjE)
    assume "rep = stock_reply Bad_request" "w' = w"
    then show ?thesis using handled.IH bad by simp
  next
    assume r: "url_decode (uri req) = Some ''/predict''" "json_headers rep" "ctr w' = ctr w + 1"
      and c: "contents (db w') = (contents (db w))
        (''history'' := (contents (db w) ''history'')(dec (unat (ctr w)) \<mapsto> content rep))"
    have p: "is_prediction (req, rep)" using r(1,2) by (simp add: is_prediction_def json_headers_def)
    let ?n = "length (predictions xs)"
    have n: "unat (ctr w) = ?n" if "?n < 2 ^ 32"
      using handled.IH that by (simp add: unat_of_nat take_bit_nat_eq_self)
    have "contents (db w') ''history'' = contents (db w0) ''history'' ++ numbered 0 (predictions xs @ [content rep])"
      if "?n < 2 ^ 32"
      using handled.IH n [OF that] that unfolding numbered_snoc c by (simp add: map_add_upd)
    then show ?thesis using p r(3) handled.IH by (simp add: Suc_le_eq)
  next
    assume r: "url_decode (uri req) = Some ''/history''" "ctr w' = ctr w" "db w' = db w"
    then have "\<not> is_prediction (req, rep)" by (simp add: is_prediction_def)
    then show ?thesis using r(2,3) handled.IH by simp
  qed
qed

section \<open>The requests of a run\<close>

text \<open>A connection whose bytes the parser has accepted as a request; what it asked and got.\<close>

definition accepted :: "'db server \<Rightarrow> nat \<Rightarrow> bool" where
  "accepted st c \<longleftrightarrow>
     (\<exists>s. feed_chunks parse (new_request 0 0, request_parser) (received st c) = Inr (s, TTrue))"

definition exchange_of :: "'db server \<Rightarrow> nat \<Rightarrow> request \<times> reply" where
  "exchange_of st c = (the_request (conns st c), the_reply (conns st c))"

text \<open>The accepted connections in the order in which their requests were handled.\<close>

definition accounts :: "'db services \<Rightarrow> 'db world \<Rightarrow> 'db server \<Rightarrow> nat list \<Rightarrow> bool" where
  "accounts sv w0 st cs \<longleftrightarrow>
     distinct cs \<and> set cs = {c. accepted st c} \<and> session sv w0 (map (exchange_of st) cs) (history_world st)"

lemma accounts_same:
  assumes "accounts sv w0 st cs" and "\<And>c. received st' c = received st c"
    and "\<And>c. accepted st c \<Longrightarrow> exchange_of st' c = exchange_of st c" and "history_world st' = history_world st"
  shows "accounts sv w0 st' cs"
proof -
  have "accepted st' = accepted st" using assms(2) by (simp add: accepted_def fun_eq_iff)
  moreover have "map (exchange_of st') cs = map (exchange_of st) cs"
    using assms(1,3) by (auto simp: accounts_def)
  ultimately show ?thesis using assms(1,4) unfolding accounts_def by (simp only:)
qed

lemma not_accepted_reading:
  assumes "story sv st c" and "ops st c = {#Read_op c b#}"
  shows "feed_chunks parse (new_request 0 0, request_parser) (received st c) =
      Inr ((the_request (conns st c), the_parser (conns st c)), Indeterminate)"
    and "\<not> accepted st c" and "the_reply (conns st c) = initial_reply"
  using assms unfolding story_def answered_def accepted_def by (auto split: if_splits)

text \<open>
  A step on one connection, whose request had not been accepted before: it is still not, or its request has
  been handled and it comes last.
\<close>

lemma accounts_elsewhere:
  assumes "accounts sv w0 st cs" and "elsewhere c st st'" and "\<not> accepted st c"
  shows "\<not> accepted st' c \<Longrightarrow> history_world st' = history_world st \<Longrightarrow> accounts sv w0 st' cs"
    and "accepted st' c \<Longrightarrow> exchange_of st' c = (req, rep) \<Longrightarrow>
      handle_request sv req initial_reply (history_world st) = Inr (rep, history_world st') \<Longrightarrow>
      accounts sv w0 st' (cs @ [c])"
proof -
  have other: "conns st' x = conns st x \<and> received st' x = received st x" if "x \<noteq> c" for x
    using assms(2) that by (simp add: elsewhere_def)
  then have "exchange_of st' x = exchange_of st x" if "accepted st x" for x
    using that assms(3) by (cases "x = c") (simp_all add: exchange_of_def)
  then have map: "map (exchange_of st') cs = map (exchange_of st) cs" using assms(1) by (auto simp: accounts_def)
  have acc: "accepted st' x \<longleftrightarrow> (if x = c then accepted st' c else accepted st x)" for x
    using other [of x] by (simp add: accepted_def)
  show "accounts sv w0 st' cs" if "\<not> accepted st' c" "history_world st' = history_world st"
  proof -
    have "accepted st' x = accepted st x" for x using acc [of x] that(1) assms(3) by (cases "x = c") simp_all
    then have "accepted st' = accepted st" ..
    then show ?thesis using assms(1) that(2) map unfolding accounts_def by (simp only:)
  qed
  show "accounts sv w0 st' (cs @ [c])" if a: "accepted st' c" "exchange_of st' c = (req, rep)"
    and h: "handle_request sv req initial_reply (history_world st) = Inr (rep, history_world st')"
  proof -
    have "set cs = {x. accepted st x}" using assms(1) by (simp add: accounts_def)
    moreover have "accepted st' x \<longleftrightarrow> x = c \<or> accepted st x" for x using acc [of x] a(1) by (cases "x = c") simp_all
    ultimately have "set (cs @ [c]) = {x. accepted st' x}" by auto
    moreover have "session sv w0 (map (exchange_of st') (cs @ [c])) (history_world st')"
      using assms(1) map a(2) session.handled [OF _ h] by (simp add: accounts_def del: map_eq_conv)
    ultimately show ?thesis using assms(1,3) by (simp add: accounts_def)
  qed
qed

lemma accounts_read:
  assumes inv: "server_inv st" and story: "story sv st c" and acc: "accounts sv w0 st cs"
    and op: "Read_op c b \<in># pending st" and comp: "completes st (Read_op c b) e d"
    and del: "delivered sv (Read_op c b) e d st = Inr st'"
  shows "\<exists>cs. accounts sv w0 st' cs"
proof -
  let ?s0 = "(new_request 0 0, request_parser)" and ?st = "before (Read_op c b) e d st"
  have single: "ops st c = {#Read_op c b#}" using conn_op_single(1) [OF inv op] by simp
  note fresh = not_accepted_reading [OF story single]
  have "elsewhere c st st'" using server_inv_conn_op(2) [OF inv op comp _ del] by simp
  note steps = accounts_elsewhere [OF acc this fresh(2)]
  have b: "conns ?st = conns st" "history_world ?st = history_world st"
    "received ?st c = (if e = No_error then received st c @ [d] else received st c)"
    by (simp_all add: before_def)
  have fed: "feed_chunks parse ?s0 (received st c @ [d]) = Inr ((req, p), t)"
    if "parse (the_request (conns ?st c), the_parser (conns ?st c)) d = Inr ((req, p), t, rest)" for req p t rest
    using that fresh(1) b(1) by (simp add: feed_snoc)
  have "read_done sv c e d ?st = Inr st'" using del by (simp add: delivered_def before_def)
  then show ?thesis
  proof (cases rule: handle_read_cases)
    case (handled req p rest rep w)
    have "received st' c = received st c @ [d]" "exchange_of st' c = (req, rep)" "history_world st' = w"
      using handled(1,4) b by (simp_all add: exchange_of_def handler_defs)
    then have "accounts sv w0 st' (cs @ [c])"
      using steps(2) fed [OF handled(2)] handled(3) b fresh(3) by (simp add: accepted_def)
    then show ?thesis ..
  next
    case (undecided req p rest)
    then show ?thesis using steps(1) fed [OF undecided(2)] b by (auto simp: accepted_def handler_defs)
  next
    case (rejected req p rest)
    then show ?thesis using steps(1) fed [OF rejected(2)] b by (auto simp: accepted_def handler_defs)
  qed (use steps(1) fresh(2) b in \<open>auto simp: accepted_def handler_defs\<close>)
qed

lemma accounts_start: "accounts sv w0 (server_new w0) []"
proof -
  have "history_world (server_new w0) = w0" "received (server_new w0) = (\<lambda>_. [])"
    by (simp_all add: server_new_def start_accept_def Let_def initiate_def)
  then show ?thesis by (simp add: accounts_def accepted_def session.opened)
qed

lemma accounts_reachable: "reachable sv w0 st \<Longrightarrow> \<exists>cs. accounts sv w0 st cs"
proof (induction rule: reachable.induct)
  case start
  show ?case using accounts_start by blast
next
  case (next_step st st')
  note inv = server_inv_reachable [OF next_step(1)] and story = story_reachable [OF next_step(1)]
  obtain cs where cs: "accounts sv w0 st cs" using next_step.IH by blast
  obtain op e d where step: "op \<in># pending st" "completes st op e d" "delivered sv op e d st = Inr st'"
    using next_step(2) by (rule stepE)
  show ?case
  proof (cases op)
    case (Read_op c b)
    then show ?thesis using accounts_read [OF inv _ cs] story step by blast
  next
    case (Write_op c b)
    then have st': "st' = write_done c e (before (Write_op c b) e d st)"
      using step(3) by (simp add: delivered_def before_def)
    have "accounts sv w0 st' cs"
      by (rule accounts_same [OF cs])
         (simp_all add: st' write_done_def handler_defs Let_def before_def exchange_of_def)
    then show ?thesis ..
  next
    case (Accept_op c)
    then have st': "st' = handle_accept e (before (Accept_op c) e d st)"
      using step(3) by (simp add: delivered_def before_def)
    have new: "received st (next_id st) = []" using story by (simp add: fresh_inv_def untouched_def)
    have "accounts sv w0 st' cs"
    proof (rule accounts_same [OF cs])
      fix x
      assume "accepted st x"
      then have "x \<noteq> next_id st" using new by (auto simp: accepted_def)
      then show "exchange_of st' x = exchange_of st x"
        by (simp add: st' exchange_of_def handle_accept_def start_accept_def handler_defs Let_def before_def)
    qed (simp_all add: st' handle_accept_def start_accept_def handler_defs Let_def before_def)
    then show ?thesis ..
  next
    case Signal_op
    then have st': "st' = stop_done (before Signal_op e d st)"
      using step(3) by (simp add: delivered_def before_def)
    have "accounts sv w0 st' cs"
      by (rule accounts_same [OF cs]) (simp_all add: st' stop_done_def handler_defs before_def exchange_of_def)
    then show ?thesis ..
  qed
qed

lemma accounts_history_from:
  assumes "redis_hash contents (hset sv) (hgetall sv)" and "inst w0 = None" and "accounts sv w0 st cs"
    and "length (predictions (map (exchange_of st) cs)) \<le> 2 ^ 32"
  shows "contents (db (history_world st)) ''history'' =
    contents (db w0) ''history'' ++ numbered 0 (predictions (map (exchange_of st) cs))"
  using session_history [OF assms(1,2)] assms(3,4) unfolding accounts_def by blast

lemma accounts_history:
  assumes "redis_hash contents (hset sv) (hgetall sv)" and "inst w0 = None"
    and "contents (db w0) ''history'' = Map.empty" and "accounts sv w0 st cs"
    and "length (predictions (map (exchange_of st) cs)) \<le> 2 ^ 32"
  shows "contents (db (history_world st)) ''history'' = numbered 0 (predictions (map (exchange_of st) cs))"
  using accounts_history_from [OF assms(1,2,4,5)] assms(3) by simp

lemma sent_exchange: "story sv st c \<Longrightarrow> sent st c \<in> {[], [wire (snd (exchange_of st c))]}"
  by (auto simp: story_def answered_def exchange_of_def split: if_splits)

end
