(* ===== verification/Exchange.thy ===== *)
theory Exchange
  imports Upload ServerProgress Session
begin

text \<open>
  Whole exchanges: a client program on one side, the server's event loop on the other, and a connection that
  carries the bytes of the one to the other. What the client prints is what the server has to say.
\<close>

section \<open>The connection between them\<close>

text \<open>
  A network that has carried the client's message to connection \<open>c\<close> of the server and brings back what was
  written there, up to the end of file.
\<close>

definition delivers :: "network \<Rightarrow> string \<Rightarrow> 'db server \<Rightarrow> nat \<Rightarrow> bool" where
  "delivers net message st c \<longleftrightarrow>
     connects net \<and> concat (received st c) = message \<and> transfer net message = Response (concat (sent st c))"

text \<open>The text of a 200 reply with this body.\<close>

definition ok_text :: "string \<Rightarrow> string \<Rightarrow> bool" where
  "ok_text body text \<longleftrightarrow> (\<exists>hs. read_response text = Some (200, hs, body))"

lemma reachable_steps: "reachable sv w0 st \<Longrightarrow> (step sv)\<^sup>*\<^sup>* st st' \<Longrightarrow> reachable sv w0 st'"
  by (rotate_tac, induction rule: rtranclp_induct) (auto intro: reachable.next_step)

lemma ok_text_json: "json_headers rep \<Longrightarrow> ok_text (content rep) (wire rep)"
proof -
  assume "json_headers rep"
  then have "\<forall>h\<in>set (rp_headers rep). plain_header h" "status rep = Ok"
    by (simp_all add: json_headers_def plain_header_def dec_plain)
  then show ?thesis using read_response_wire [of rep] by (simp add: ok_text_def)
qed

text \<open>The server reads a message that its parser accepts up to the last byte, and writes its answer.\<close>

lemma message_served:
  assumes "reachable sv w0 st" and "acceptor_open st" and "concat chunks = message"
    and "\<forall>d\<in>set chunks. length d \<le> buffer_size"
    and "parse (new_request 0 0, request_parser) message = Inr ((req, p), TTrue, [])"
    and "handle_request sv req initial_reply (history_world st) = Inr (rep, w)"
  obtains st' where "(step sv)\<^sup>*\<^sup>* st st'" and "served st' (next_connection st) rep" and "history_world st' = w"
    and "concat (received st' (next_connection st)) = message"
proof -
  let ?s = "(new_request 0 0, request_parser)"
  have "feed_chunks parse ?s chunks = Inr ((req, p), TTrue)" using assms(3,5) by (simp add: rp.feed_concat)
  from request_served_run [OF assms(1,2) this assms(4)] assms(6)
  obtain st' k where st': "(step sv)\<^sup>*\<^sup>* st st'" "served st' (next_connection st) rep" "history_world st' = w"
    and k: "received st' (next_connection st) = take k chunks"
      "feed_chunks parse ?s (take k chunks) = Inr ((req, p), TTrue)"
    by (auto simp: answer_def)
  obtain rest where "parse ?s (concat (take k chunks)) = Inr ((req, p), TTrue, rest)"
    using k(2) by (auto simp: rp.feed_concat res_simps split: prod.splits)
  moreover have message: "message = concat (take k chunks) @ concat (drop k chunks)"
    using assms(3) by (metis append_take_drop_id concat_append)
  ultimately have "concat (drop k chunks) = []"
    using rp.run_complete_prefix [of ?s "concat (take k chunks)" "concat (drop k chunks)"] assms(5) by simp
  then show thesis using that [OF st'] k(1) message by simp
qed

section \<open>The client's side\<close>

lemma client_upload:
  assumes "parseArguments vm = Returned \<lparr>opt_type = Predict, images = files\<rparr>" and "files \<noteq> []"
    and "\<forall>f\<in>set files. fs_exists fs f = Some True \<and> fs_regular fs f = Some True"
    and "predict_body fs files = Returned body" and "delivers net (predict_message body) st c"
  shows "client_main fs net vm = Returned (concat (sent st c))"
  using assms
  by (simp add: client_main_def formRequest_def valid_files_iff Request_of_def request_bool_def sendRequest_def try_request_def
      request_type_def request_filePath_def delivers_def exchange_result_def)

lemma client_history:
  assumes "parseArguments vm = Returned \<lparr>opt_type = HistoryOpt, images = is\<rparr>"
    and "delivers net history_message st c"
  shows "client_main fs net vm = Returned (concat (sent st c))"
  using assms
  by (simp add: client_main_def formRequest_def Request_of_def request_bool_def sendRequest_def try_request_def request_type_def
      delivers_def exchange_result_def)

section \<open>An upload\<close>

lemma upload_run:
  assumes "redis_hash contents (hset sv) (hgetall sv)" and "\<forall>d k f v. \<exists>d'. hset sv d k f v = Inr d'"
    and "\<forall>m. mset (iter sv m) = mset m"
    and "\<forall>u\<in>set (uploads fs files). person_run sv (snd u) (fst u) = json_object (members (snd u) (fst u))"
    and "\<forall>u\<in>set (uploads fs files). fits (json_object (members (snd u) (fst u)))"
    and "predict_body fs files = Returned body" and "files \<noteq> []" and "fits body"
    and "\<forall>f\<in>set files. good_name (fs_filename fs f)"
    and "reachable sv w0 st" and "acceptor_open st" and "concat chunks = predict_message body"
    and "\<forall>d\<in>set chunks. length d \<le> buffer_size"
  obtains st' us rep where "(step sv)\<^sup>*\<^sup>* st st'" and "served st' (next_connection st) rep"
    and "concat (received st' (next_connection st)) = predict_message body"
    and "distinct (map fst us)" and "map_of us = map_of (rev (uploads fs files))"
    and "json_headers rep" and "content rep = json_object (concat (map (\<lambda>u. members (snd u) (fst u)) us))"
    and "contents (db (history_world st')) ''history'' =
      (contents (db (history_world st)) ''history'')(dec (unat (ctr (history_world st))) \<mapsto> content rep)"
proof -
  obtain us w where us: "distinct (map fst us)" "map_of us = map_of (rev (uploads fs files))"
    and h: "handle_request sv (client_request_of body) initial_reply (history_world st) =
      Inr (json_reply (json_object (concat (map (\<lambda>u. members (snd u) (fst u)) us))) initial_reply, w)"
    using upload_answered [OF assms(6-9) _ assms(4,5,3,2), of "[predict_message body]" 0 0 initial_reply "history_world st"]
    by auto
  define rep where "rep = json_reply (json_object (concat (map (\<lambda>u. members (snd u) (fst u)) us))) initial_reply"
  have rep: "json_headers rep" "content rep = json_object (concat (map (\<lambda>u. members (snd u) (fst u)) us))"
    by (simp_all add: rep_def json_reply_headers json_reply_content) (simp add: new_connection_def)
  obtain p where p: "parse (new_request 0 0, request_parser) (predict_message body) =
      Inr ((client_request_of body, p), TTrue, [])"
    using client_message_complete [OF assms(8) client_body_lines [OF assms(6,9)], of 0 0] by blast
  obtain st' where st': "(step sv)\<^sup>*\<^sup>* st st'" "served st' (next_connection st) rep" "history_world st' = w"
      "concat (received st' (next_connection st)) = predict_message body"
    using message_served [OF assms(10-13) p h [folded rep_def]] by blast
  have "content initial_reply = []" by (simp add: new_connection_def)
  from handle_request_Inr [OF assms(1) this h [folded rep_def]] rep(1)
  have "contents (db w) ''history'' =
      (contents (db (history_world st)) ''history'')(dec (unat (ctr (history_world st))) \<mapsto> content rep)"
    by (auto simp: json_headers_def stock_reply_def client_request_of_def sent_request_def)
  then show thesis using that [OF st'(1,2,4) us rep] st'(3) by simp
qed

lemma upload_exchange:
  assumes "redis_hash contents (hset sv) (hgetall sv)" and "\<forall>d k f v. \<exists>d'. hset sv d k f v = Inr d'"
    and "\<forall>m. mset (iter sv m) = mset m"
    and "\<forall>u\<in>set (uploads fs files). person_run sv (snd u) (fst u) = json_object (members (snd u) (fst u))"
    and "\<forall>u\<in>set (uploads fs files). fits (json_object (members (snd u) (fst u)))"
    and "parseArguments vm = Returned \<lparr>opt_type = Predict, images = files\<rparr>"
    and "\<forall>f\<in>set files. fs_exists fs f = Some True \<and> fs_regular fs f = Some True"
    and "predict_body fs files = Returned body" and "files \<noteq> []" and "fits body"
    and "\<forall>f\<in>set files. good_name (fs_filename fs f)"
    and "reachable sv w0 st" and "acceptor_open st" and "concat chunks = predict_message body"
    and "\<forall>d\<in>set chunks. length d \<le> buffer_size"
  shows "\<exists>st' us rep. (step sv)\<^sup>*\<^sup>* st st' \<and> served st' (next_connection st) rep \<and>
    distinct (map fst us) \<and> map_of us = map_of (rev (uploads fs files)) \<and>
    content rep = json_object (concat (map (\<lambda>u. members (snd u) (fst u)) us)) \<and>
    (\<forall>net. delivers net (predict_message body) st' (next_connection st) \<longrightarrow>
      (\<exists>text. client_main fs net vm = Returned text \<and> ok_text (content rep) text)) \<and>
    concat (received st' (next_connection st)) = predict_message body \<and>
    contents (db (history_world st')) ''history'' =
      (contents (db (history_world st)) ''history'')(dec (unat (ctr (history_world st))) \<mapsto> content rep)"
proof -
  let ?c = "next_connection st"
  obtain st' us rep where run: "(step sv)\<^sup>*\<^sup>* st st'" "served st' ?c rep"
      "concat (received st' ?c) = predict_message body"
    and us: "distinct (map fst us)" "map_of us = map_of (rev (uploads fs files))"
    and rep: "json_headers rep" "content rep = json_object (concat (map (\<lambda>u. members (snd u) (fst u)) us))"
    and hist: "contents (db (history_world st')) ''history'' =
      (contents (db (history_world st)) ''history'')(dec (unat (ctr (history_world st))) \<mapsto> content rep)"
    by (rule upload_run [OF assms(1-5,8-15)])
  have "client_main fs net vm = Returned (wire rep)" if "delivers net (predict_message body) st' ?c" for net
    using client_upload [OF assms(6,9,7,8) that] run(2) by (simp add: served_def)
  then have "\<forall>net. delivers net (predict_message body) st' ?c \<longrightarrow>
      (\<exists>text. client_main fs net vm = Returned text \<and> ok_text (content rep) text)"
    using ok_text_json [OF rep(1)] by blast
  then show ?thesis using run us rep(2) hist by (intro exI conjI) assumption+
qed

text \<open>
  C14: an upload, from the command line to the command line: from every reachable state with the acceptor
  open, whatever its other clients are doing, the server can read the message the client makes of its files,
  in any pieces, and serve it; the client whose connection this is prints a 200 reply whose body is the one
  object with the members found for each file, and that body is the next record of the history.
\<close>
theorem upload_served:
  assumes "redis_hash contents (hset sv) (hgetall sv)" and "\<forall>d k f v. \<exists>d'. hset sv d k f v = Inr d'"
    and "\<forall>m. mset (iter sv m) = mset m"
    and "\<forall>u\<in>set (uploads fs files). person_run sv (snd u) (fst u) = json_object (members (snd u) (fst u))"
    and "\<forall>u\<in>set (uploads fs files). fits (json_object (members (snd u) (fst u)))"
    and "parseArguments vm = Returned \<lparr>opt_type = Predict, images = files\<rparr>"
    and "\<forall>f\<in>set files. fs_exists fs f = Some True \<and> fs_regular fs f = Some True"
    and "predict_body fs files = Returned body" and "files \<noteq> []" and "fits body"
    and "\<forall>f\<in>set files. good_name (fs_filename fs f)"
    and "reachable sv w0 st" and "acceptor_open st" and "concat chunks = predict_message body"
    and "\<forall>d\<in>set chunks. length d \<le> buffer_size"
  shows "\<exists>st' us rep. (step sv)\<^sup>*\<^sup>* st st' \<and> served st' (next_connection st) rep \<and>
    distinct (map fst us) \<and> map_of us = map_of (rev (uploads fs files)) \<and>
    content rep = json_object (concat (map (\<lambda>u. members (snd u) (fst u)) us)) \<and>
    (\<forall>net. delivers net (predict_message body) st' (next_connection st) \<longrightarrow>
      (\<exists>text. client_main fs net vm = Returned text \<and> ok_text (content rep) text)) \<and>
    concat (received st' (next_connection st)) = predict_message body \<and>
    contents (db (history_world st')) ''history'' =
      (contents (db (history_world st)) ''history'')(dec (unat (ctr (history_world st))) \<mapsto> content rep)"
  by (rule upload_exchange [OF assms])

text \<open>The same on one small file.\<close>

definition exchange_services :: "mem_db services" where
  "exchange_services = \<lparr>hset = mem_hset, hgetall = mem_hgetall,
     person_run = (\<lambda>d n. json_object (take 9 d)), iter = (\<lambda>m. m)\<rparr>"

definition upload_vm :: "variables_map option" where
  "upload_vm = Some \<lparr>vm_help = False, vm_image = Some [''a.jpg''], vm_type = None\<rparr>"

lemma exchange_facts:
  "redis_hash mem_contents (hset exchange_services) (hgetall exchange_services)"
  "\<forall>d k f v. \<exists>d'. hset exchange_services d k f v = Inr d'"
  "\<forall>m. mset (iter exchange_services m) = mset m"
  "\<forall>u\<in>set (uploads demo_fs [''a.jpg'']). person_run exchange_services (snd u) (fst u) =
     json_object ((\<lambda>d (n :: string). take 9 d) (snd u) (fst u))"
  "\<forall>u\<in>set (uploads demo_fs [''a.jpg'']). fits (json_object ((\<lambda>d (n :: string). take 9 d) (snd u) (fst u)))"
  using mem_redis_hash
  by (simp_all add: exchange_services_def mem_hset_def fits_def json_object_def min_less_iff_disj)

lemma upload_vm_facts:
  "parseArguments upload_vm = Returned \<lparr>opt_type = Predict, images = [''a.jpg'']\<rparr>"
  "\<forall>f\<in>set [''a.jpg'']. fs_exists demo_fs f = Some True \<and> fs_regular demo_fs f = Some True"
  by (simp_all add: parseArguments_def parse_options_def with_images_def upload_vm_def demo_fs_def)

lemma length_dec_le: "length (dec n) \<le> Suc n"
  by (induction n rule: dec.induct) (subst dec.simps, force)

lemma demo_message_size: "length (predict_message demo_body) \<le> buffer_size"
  using length_dec_le [of "length demo_body"]
  by (simp add: predict_message_def demo_body_def file_part_def buffer_size_def)

lemma accepted_first_open: "acceptor_open (accepted_first w)"
  by (simp add: accepted_first_def server_defs initiate_def update_conn_def)

lemma accepted_first_handle: "dec (unat (ctr (history_world (accepted_first demo_world)))) = ''0''"
proof -
  have "dec 0 = ''0''" by code_simp
  then show ?thesis
    by (simp add: accepted_first_def server_defs initiate_def update_conn_def demo_world_def ctr_def)
qed

lemmas small_upload = demo_facts(1) list.distinct(2) demo_facts(2,3) accepted_first_reachable [where w = demo_world]
  accepted_first_open

lemma small_chunks:
  "concat [predict_message demo_body] = predict_message demo_body"
  "\<forall>d\<in>set [predict_message demo_body]. length d \<le> buffer_size"
  using demo_message_size by simp_all

theorem upload_served_witness:
  "\<exists>st' us rep. (step exchange_services)\<^sup>*\<^sup>* (accepted_first demo_world) st' \<and>
    served st' (next_connection (accepted_first demo_world)) rep \<and>
    content rep = json_object (concat (map (\<lambda>u. take 9 (snd u)) us)) \<and>
    map_of us = map_of (rev (uploads demo_fs [''a.jpg''])) \<and>
    mem_contents (db (history_world st')) ''history'' ''0'' = Some (content rep)"
proof -
  from upload_served [OF exchange_facts upload_vm_facts small_upload small_chunks]
  obtain st' us rep where st': "(step exchange_services)\<^sup>*\<^sup>* (accepted_first demo_world) st'"
    "served st' (next_connection (accepted_first demo_world)) rep"
    "map_of us = map_of (rev (uploads demo_fs [''a.jpg'']))"
    "content rep = json_object (concat (map (\<lambda>u. take 9 (snd u)) us))"
    and "mem_contents (db (history_world st')) ''history'' =
      (mem_contents (db (history_world (accepted_first demo_world))) ''history'')
        (dec (unat (ctr (history_world (accepted_first demo_world)))) \<mapsto> content rep)"
    by blast
  with accepted_first_handle have "mem_contents (db (history_world st')) ''history'' ''0'' = Some (content rep)"
    by simp
  with st' show ?thesis by blast
qed

section \<open>The history\<close>

lemma history_message_complete:
  "\<exists>req p. parse (new_request mj mn, request_parser) history_message = Inr ((req, p), TTrue, []) \<and>
    uri req = ''/history''"
proof -
  let ?hs = "[\<lparr>hname = ''Accept'', hvalue = ''*/*''\<rparr>, \<lparr>hname = ''Connection'', hvalue = ''close''\<rparr>]"
  have version: "small_version 1" "small_version 0" by (simp_all add: small_version_def)
  have get: "token ''GET''" and path: "\<forall>c\<in>set ''/history''. value_char c \<and> c \<noteq> CHR '' ''"
    by (simp_all add: literal_chars)
  have "\<forall>h\<in>set ?hs. good_header h" by (simp add: good_header_def literal_chars)
  moreover have "length_after ?hs 0 = Inr (length ([] :: string))" "crlf_lines []" by simp_all
  ultimately show ?thesis
    using parse_request [OF get path _ _ _ version, of ?hs "[]" mj mn "[]"]
    unfolding history_message_render by (auto simp: sent_request_def)
qed

text \<open>A numbered list of records holds each of its entries once.\<close>

lemma numbered_values:
  assumes "distinct (map fst kvs)" and "map_of kvs = numbered 0 js"
  shows "mset (map snd kvs) = mset js"
proof -
  let ?zs = "zip (map dec [0..<length js]) js"
  have d: "distinct (map fst ?zs)" by (simp add: distinct_map inj_on_def)
  have "map_of kvs = map_of ?zs" using assms(2) by (simp add: numbered_def)
  then have "set kvs = set ?zs" using map_of_inject_set [OF assms(1) d] by simp
  moreover have "distinct kvs" "distinct ?zs" using assms(1) d unfolding distinct_map by blast+
  ultimately have "mset kvs = mset ?zs" using set_eq_iff_mset_eq_distinct by blast
  then have "image_mset snd (mset kvs) = image_mset snd (mset ?zs)" by simp
  then show ?thesis by (simp flip: mset_map)
qed

lemma history_answered:
  assumes "redis_hash contents (hset sv) (hgetall sv)" and "\<forall>d k. \<exists>kvs. hgetall sv d k = Inr kvs"
    and "\<forall>m. mset (iter sv m) = mset m" and "uri req = ''/history''"
  shows "\<exists>rep w' kvs. handle_request sv req initial_reply w = Inr (rep, w') \<and> json_headers rep \<and>
    content rep = concat (map snd kvs) \<and> distinct (map fst kvs) \<and> map_of kvs = contents (db w) ''history''"
proof -
  have route: "url_decode (uri req) = Some ''/history''" using assms(4) by simp
  have init: "content initial_reply = []" by (simp add: new_connection_def)
  have "\<exists>r. getAll (hgetall sv) w = Inr r"
    using assms(2) by (auto simp: getAll_def Let_def split: prod.splits) (metis bind_res.simps(2))
  then obtain rep w' where h: "handle_request sv req initial_reply w = Inr (rep, w')" and j: "json_headers rep"
    by (auto simp: decoded_route(2) [OF route] handle_history_def json_reply_headers)
  with history_records [OF assms(1,3) init route h] show ?thesis by blast
qed

text \<open>
  C3: the history is what was answered: in every state of a run that starts with an empty history there is
  an order of the connections whose request was accepted, each once, in which the handler took them; every
  such connection has been sent nothing or its one reply, and Redis holds exactly the bodies of the 200
  replies to predictions among them, numbered from 0 in that order, until \<open>2 ^ 32\<close> of them have been made.
\<close>
theorem history_is_what_was_answered:
  assumes "redis_hash contents (hset sv) (hgetall sv)" and "inst w0 = None"
    and "contents (db w0) ''history'' = Map.empty" and "reachable sv w0 st"
  shows "\<exists>cs. distinct cs \<and> set cs = {c. accepted st c} \<and>
    session sv w0 (map (exchange_of st) cs) (history_world st) \<and>
    (\<forall>c\<in>set cs. sent st c \<in> {[], [wire (snd (exchange_of st c))]}) \<and>
    (length (predictions (map (exchange_of st) cs)) \<le> 2 ^ 32 \<longrightarrow>
      contents (db (history_world st)) ''history'' = numbered 0 (predictions (map (exchange_of st) cs)))"
proof -
  obtain cs where cs: "accounts sv w0 st cs" using accounts_reachable [OF assms(4)] by blast
  have "\<forall>c. sent st c \<in> {[], [wire (snd (exchange_of st c))]}"
    using story_reachable [OF assms(4)] sent_exchange by blast
  then show ?thesis using accounts_history [OF assms(1-3) cs] cs unfolding accounts_def by blast
qed

text \<open>A run that has answered one upload.\<close>

lemma small_run:
  obtains st where "reachable exchange_services demo_world st" and "acceptor_open st"
    and "mem_contents (db (history_world st)) ''history'' ''0'' \<noteq> None"
proof -
  from upload_run [OF exchange_facts small_upload small_chunks]
  obtain st' rep where "(step exchange_services)\<^sup>*\<^sup>* (accepted_first demo_world) st'"
    "served st' (next_connection (accepted_first demo_world)) rep"
    "mem_contents (db (history_world st')) ''history'' =
      (mem_contents (db (history_world (accepted_first demo_world))) ''history'')
        (dec (unat (ctr (history_world (accepted_first demo_world)))) \<mapsto> content rep)"
    by metis
  moreover from this(1) have "reachable exchange_services demo_world st'"
    by (rule reachable_steps [OF accepted_first_reachable])
  ultimately show thesis using that [of st'] accepted_first_handle by (simp add: served_def)
qed

lemma demo_world_empty: "inst demo_world = None" "mem_contents (db demo_world) ''history'' = Map.empty"
  by (simp_all add: demo_world_def mem_contents_def mem_rows_def)

theorem history_is_what_was_answered_witness:
  "\<exists>st cs. reachable exchange_services demo_world st \<and> mem_contents (db (history_world st)) ''history'' ''0'' \<noteq> None \<and>
    distinct cs \<and> set cs = {c. accepted st c} \<and>
    session exchange_services demo_world (map (exchange_of st) cs) (history_world st) \<and>
    (length (predictions (map (exchange_of st) cs)) \<le> 2 ^ 32 \<longrightarrow>
      mem_contents (db (history_world st)) ''history'' = numbered 0 (predictions (map (exchange_of st) cs)))"
  by (rule small_run)
     (use history_is_what_was_answered [OF exchange_facts(1) demo_world_empty] in blast)

text \<open>Whatever the history holds, the server can serve a client that asks for it, and the client prints it.\<close>

lemma history_shown:
  assumes "redis_hash contents (hset sv) (hgetall sv)" and "\<forall>d k. \<exists>kvs. hgetall sv d k = Inr kvs"
    and "\<forall>m. mset (iter sv m) = mset m"
    and "parseArguments vm = Returned \<lparr>opt_type = HistoryOpt, images = is\<rparr>"
    and "reachable sv w0 st" and "acceptor_open st" and "concat chunks = history_message"
    and "\<forall>d\<in>set chunks. length d \<le> buffer_size"
  obtains st' rep kvs where "(step sv)\<^sup>*\<^sup>* st st'" and "served st' (next_connection st) rep"
    and "concat (received st' (next_connection st)) = history_message"
    and "\<forall>net. delivers net history_message st' (next_connection st) \<longrightarrow>
      (\<exists>text. client_main fs net vm = Returned text \<and> ok_text (content rep) text)"
    and "content rep = concat (map snd kvs)" and "distinct (map fst kvs)"
    and "map_of kvs = contents (db (history_world st)) ''history''"
proof -
  let ?c = "next_connection st"
  obtain req p where p: "parse (new_request 0 0, request_parser) history_message = Inr ((req, p), TTrue, [])"
    and uri: "uri req = ''/history''" using history_message_complete by blast
  obtain rep w' kvs where h: "handle_request sv req initial_reply (history_world st) = Inr (rep, w')"
    and rep: "json_headers rep" "content rep = concat (map snd kvs)" "distinct (map fst kvs)"
      "map_of kvs = contents (db (history_world st)) ''history''"
    using history_answered [OF assms(1-3) uri] by blast
  obtain st' where st': "(step sv)\<^sup>*\<^sup>* st st'" "served st' ?c rep" "history_world st' = w'"
      "concat (received st' ?c) = history_message"
    by (rule message_served [OF assms(5-8) p h])
  have "client_main fs net vm = Returned (wire rep)" if "delivers net history_message st' ?c" for net
    using client_history [OF assms(4) that] st'(2) by (simp add: served_def)
  then have "\<forall>net. delivers net history_message st' ?c \<longrightarrow>
      (\<exists>text. client_main fs net vm = Returned text \<and> ok_text (content rep) text)"
    using ok_text_json [OF rep(1)] by blast
  then show thesis using that st'(1,2,4) rep(2-4) by blast
qed

text \<open>
  C12: a client that asks for the history is shown the answers of the run, each once: from every state of a
  run on an empty history with the acceptor open, the server can serve it, and it prints a 200 reply whose
  body is the concatenation, in some order, of the bodies of the 200 replies to the predictions so far.
\<close>
theorem history_served:
  assumes "redis_hash contents (hset sv) (hgetall sv)" and "\<forall>d k. \<exists>kvs. hgetall sv d k = Inr kvs"
    and "\<forall>m. mset (iter sv m) = mset m"
    and "inst w0 = None" and "contents (db w0) ''history'' = Map.empty"
    and "parseArguments vm = Returned \<lparr>opt_type = HistoryOpt, images = is\<rparr>"
    and "reachable sv w0 st" and "acceptor_open st" and "concat chunks = history_message"
    and "\<forall>d\<in>set chunks. length d \<le> buffer_size"
  shows "\<exists>st' rep cs. (step sv)\<^sup>*\<^sup>* st st' \<and> served st' (next_connection st) rep \<and>
    concat (received st' (next_connection st)) = history_message \<and>
    (\<forall>net. delivers net history_message st' (next_connection st) \<longrightarrow>
      (\<exists>text. client_main fs net vm = Returned text \<and> ok_text (content rep) text)) \<and>
    distinct cs \<and> set cs = {c. accepted st c} \<and>
    (length (predictions (map (exchange_of st) cs)) \<le> 2 ^ 32 \<longrightarrow>
      (\<exists>bodies. content rep = concat bodies \<and> mset bodies = mset (predictions (map (exchange_of st) cs))))"
proof -
  obtain cs where cs: "accounts sv w0 st cs" using accounts_reachable [OF assms(7)] by blast
  obtain st' rep kvs where st': "(step sv)\<^sup>*\<^sup>* st st'" "served st' (next_connection st) rep"
      "concat (received st' (next_connection st)) = history_message"
      "\<forall>net. delivers net history_message st' (next_connection st) \<longrightarrow>
        (\<exists>text. client_main fs net vm = Returned text \<and> ok_text (content rep) text)"
    and kvs: "content rep = concat (map snd kvs)" "distinct (map fst kvs)"
      "map_of kvs = contents (db (history_world st)) ''history''"
    by (rule history_shown [OF assms(1-3,6-10)])
  have "mset (map snd kvs) = mset (predictions (map (exchange_of st) cs))"
    if "length (predictions (map (exchange_of st) cs)) \<le> 2 ^ 32"
    using numbered_values [OF kvs(2)] accounts_history [OF assms(1,4,5) cs that] kvs(3) by simp
  then show ?thesis using st' kvs(1) cs unfolding accounts_def by blast
qed

definition history_vm :: "variables_map option" where
  "history_vm = Some \<lparr>vm_help = False, vm_image = None, vm_type = Some ''history''\<rparr>"

lemma history_vm_facts:
  "\<forall>d k. \<exists>kvs. hgetall exchange_services d k = Inr kvs"
  "parseArguments history_vm = Returned \<lparr>opt_type = HistoryOpt, images = []\<rparr>"
  "concat [history_message] = history_message" "\<forall>d\<in>set [history_message]. length d \<le> buffer_size"
  by (simp_all add: exchange_services_def mem_hgetall_def parseArguments_def parse_options_def with_images_def history_vm_def
      history_message_def buffer_size_def)

theorem history_served_witness:
  "\<exists>st st' rep cs. reachable exchange_services demo_world st \<and>
    mem_contents (db (history_world st)) ''history'' ''0'' \<noteq> None \<and>
    (step exchange_services)\<^sup>*\<^sup>* st st' \<and> served st' (next_connection st) rep \<and>
    (\<forall>net. delivers net history_message st' (next_connection st) \<longrightarrow>
      (\<exists>text. client_main demo_fs net history_vm = Returned text \<and> ok_text (content rep) text)) \<and>
    set cs = {c. accepted st c}"
proof (rule small_run)
  fix st
  assume st: "reachable exchange_services demo_world st" "acceptor_open st"
    "mem_contents (db (history_world st)) ''history'' ''0'' \<noteq> None"
  from history_served [OF exchange_facts(1) history_vm_facts(1) exchange_facts(3) demo_world_empty history_vm_facts(2)
      st(1,2) history_vm_facts(3,4), of demo_fs] st(1,3)
  show ?thesis by (elim exE conjE) (intro exI conjI, assumption+)
qed

end
