(* ===== verification/WholeService.thy ===== *)
theory WholeService
  imports PipelineService Exchange
begin

text \<open>
  The whole service: a client's command line, its message, the event loop, the request handler, the person
  pipeline on every uploaded image, the history, and the reply back at the client.
\<close>

section \<open>Images with persons\<close>

text \<open>An image for which the pipeline writes a JSON object with these members.\<close>

definition shows_persons ::
  "('e, 'r) platform \<Rightarrow> ('e, 'r) semantics \<Rightarrow> 'e nets \<Rightarrow> (string \<Rightarrow> string \<Rightarrow> string) \<Rightarrow> string \<times> string \<Rightarrow> bool"
where
  "shows_persons P S N members u \<longleftrightarrow>
     image_json P S N (snd u) (fst u) = Inr (json_object (members (snd u) (fst u))) \<and>
     fits (json_object (members (snd u) (fst u)))"

lemma shows_persons_text:
  "shows_persons P S N members u \<Longrightarrow> person_text P S N (snd u) (fst u) = json_object (members (snd u) (fst u))"
  by (simp add: shows_persons_def person_text_def caught_def)

text \<open>
  C2: the service as a whole: with the networks loaded, an engine that creates, starts and finishes its
  requests, and a person to be found in every file, from every reachable state with the acceptor open the
  server can read the client's message and serve it, the pipeline computing one function of each image that
  does not make it undefined, as no uploaded file does, whatever it analysed before; the client prints a 200 reply whose body
  is the one object with the members of every file, and the same body is the next record of the history.
\<close>
theorem service_analyses_upload:
  assumes "init P new_pipeline = (Inr True, pl)" and "0 \<le> maxProposalCount (personDetection pl)"
    and "engine_laws P S (nets_of pl)" and "outputs_fit S (nets_of pl)"
    and "redis_hash contents (hset sv) (hgetall sv)" and "\<forall>d k f v. \<exists>d'. hset sv d k f v = Inr d'"
    and "\<forall>m. mset (iter sv m) = mset m" and "person_run sv = person_text P S (nets_of pl)"
    and "\<forall>u\<in>set (uploads fs files). shows_persons P S (nets_of pl) members u"
    and "parseArguments vm = Returned \<lparr>opt_type = Predict, images = files\<rparr>"
    and "\<forall>f\<in>set files. fs_exists fs f = Some True \<and> fs_regular fs f = Some True"
    and "predict_body fs files = Returned body" and "files \<noteq> []" and "fits body"
    and "\<forall>f\<in>set files. good_name (fs_filename fs f)"
    and "reachable sv w0 st" and "acceptor_open st" and "concat chunks = predict_message body"
    and "\<forall>d\<in>set chunks. length d \<le> buffer_size"
  shows "(\<forall>ims. defined_images P S (nets_of pl) ims \<longrightarrow> person_results P ims = run_images (person_run sv) ims) \<and>
    (\<forall>u\<in>set (uploads fs files). defined_result P S (nets_of pl) u) \<and>
    (\<exists>st' us rep. (step sv)\<^sup>*\<^sup>* st st' \<and> served st' (next_connection st) rep \<and>
      distinct (map fst us) \<and> map_of us = map_of (rev (uploads fs files)) \<and>
      content rep = json_object (concat (map (\<lambda>u. members (snd u) (fst u)) us)) \<and>
      (\<forall>net. delivers net (predict_message body) st' (next_connection st) \<longrightarrow>
        (\<exists>text. client_main fs net vm = Returned text \<and> ok_text (content rep) text)) \<and>
      concat (received st' (next_connection st)) = predict_message body \<and>
      contents (db (history_world st')) ''history'' =
        (contents (db (history_world st)) ''history'')(dec (unat (ctr (history_world st))) \<mapsto> content rep))"
proof (intro conjI)
  show "\<forall>ims. defined_images P S (nets_of pl) ims \<longrightarrow> person_results P ims = run_images (person_run sv) ims"
    using results_of_images [OF assms(1-4)] assms(8) by simp
  show "\<forall>u\<in>set (uploads fs files). defined_result P S (nets_of pl) u"
    using assms(9) by (auto simp: shows_persons_def defined_result_def caught_def)
  have texts: "\<forall>u\<in>set (uploads fs files). person_run sv (snd u) (fst u) = json_object (members (snd u) (fst u))"
    "\<forall>u\<in>set (uploads fs files). fits (json_object (members (snd u) (fst u)))"
    using assms(9) shows_persons_text unfolding assms(8) by (blast, auto simp: shows_persons_def)
  show "\<exists>st' us rep. (step sv)\<^sup>*\<^sup>* st st' \<and> served st' (next_connection st) rep \<and>
      distinct (map fst us) \<and> map_of us = map_of (rev (uploads fs files)) \<and>
      content rep = json_object (concat (map (\<lambda>u. members (snd u) (fst u)) us)) \<and>
      (\<forall>net. delivers net (predict_message body) st' (next_connection st) \<longrightarrow>
        (\<exists>text. client_main fs net vm = Returned text \<and> ok_text (content rep) text)) \<and>
      concat (received st' (next_connection st)) = predict_message body \<and>
      contents (db (history_world st')) ''history'' =
        (contents (db (history_world st)) ''history'')(dec (unat (ctr (history_world st))) \<mapsto> content rep)"
    by (rule upload_exchange [OF assms(5-7) texts assms(10-19)])
qed

section \<open>A small photo\<close>

definition photo_fs :: filesystem where
  "photo_fs = \<lparr>fs_exists = (\<lambda>_. Some True), fs_regular = (\<lambda>_. Some True), fs_filename = (\<lambda>f. f),
     fs_read = (\<lambda>_. Contents ''xyz'')\<rparr>"

definition photo_body :: string where
  "photo_body = file_part ''a.jpg'' ''eHl6'' @ ''--77580b83-390b-4c34-8393-4eac360c7b42--'' @ CRLF"

definition photo_services :: "mem_db services" where
  "photo_services = \<lparr>hset = mem_hset, hgetall = mem_hgetall,
     person_run = person_text (demo_platform demo_table) (demo_semantics demo_table) demo_nets, iter = (\<lambda>m. m)\<rparr>"

lemma encode_photo: "base64_encode ''xyz'' False = Some ''eHl6''"
  by (subst base64_encode_Some) (simp_all add: sextet_def base64_chars_def uchar_def)

lemma photo_facts:
  "predict_body photo_fs [''a.jpg''] = Returned photo_body" "fits photo_body"
  "\<forall>f\<in>set [''a.jpg'']. good_name (fs_filename photo_fs f)"
  "\<forall>f\<in>set [''a.jpg'']. fs_exists photo_fs f = Some True \<and> fs_regular photo_fs f = Some True"
  "uploads photo_fs [''a.jpg''] = [(''a.jpg'', ''xyz'')]"
  by (simp_all add: predict_body_def photo_fs_def photo_body_def encode_photo fits_def file_part_def
      good_name_def literal_chars)

lemma photo_persons:
  "\<forall>u\<in>set (uploads photo_fs [''a.jpg'']).
     shows_persons (demo_platform demo_table) (demo_semantics demo_table) demo_nets (\<lambda>d n. ''...'') u"
  unfolding photo_facts(5) by (simp add: shows_persons_def demo_json json_object_def fits_def)

lemma photo_chunks:
  "concat [predict_message photo_body] = predict_message photo_body"
  "\<forall>d\<in>set [predict_message photo_body]. length d \<le> buffer_size"
proof -
  show "concat [predict_message photo_body] = predict_message photo_body" by simp
  show "\<forall>d\<in>set [predict_message photo_body]. length d \<le> buffer_size"
    using length_dec_le [of "length photo_body"]
    by (simp add: predict_message_def photo_body_def file_part_def buffer_size_def)
qed

lemma photo_services_facts:
  "redis_hash mem_contents (hset photo_services) (hgetall photo_services)"
  "\<forall>d k f v. \<exists>d'. hset photo_services d k f v = Inr d'" "\<forall>m. mset (iter photo_services m) = mset m"
  "person_run photo_services = person_text (demo_platform demo_table) (demo_semantics demo_table) demo_nets"
  using mem_redis_hash by (simp_all add: photo_services_def mem_hset_def)

theorem service_analyses_upload_witness:
  "\<exists>st' us rep. (step photo_services)\<^sup>*\<^sup>* (accepted_first demo_world) st' \<and>
    served st' (next_connection (accepted_first demo_world)) rep \<and>
    content rep = json_object (concat (map (\<lambda>u. ''...'') us)) \<and> map_of us = [''a.jpg'' \<mapsto> ''xyz''] \<and>
    mem_contents (db (history_world st')) ''history'' ''0'' = Some (content rep)"
proof -
  from service_analyses_upload [OF demo_init demo_service(2) demo_laws [folded demo_service(1)]
      demo_outputs [folded demo_service(1)] photo_services_facts
      [folded demo_service(1)] photo_persons [folded demo_service(1)] upload_vm_facts(1) photo_facts(4,1)
      list.distinct(2) photo_facts(2,3) accepted_first_reachable [where w = demo_world] accepted_first_open
      photo_chunks]
  obtain st' us rep where st': "(step photo_services)\<^sup>*\<^sup>* (accepted_first demo_world) st'"
    "served st' (next_connection (accepted_first demo_world)) rep"
    "map_of us = map_of (rev (uploads photo_fs [''a.jpg'']))"
    "content rep = json_object (concat (map (\<lambda>u. ''...'') us))"
    and hist: "mem_contents (db (history_world st')) ''history'' =
      (mem_contents (db (history_world (accepted_first demo_world))) ''history'')
        (dec (unat (ctr (history_world (accepted_first demo_world)))) \<mapsto> content rep)"
    by blast
  have "mem_contents (db (history_world st')) ''history'' ''0'' = Some (content rep)"
    using hist accepted_first_handle by simp
  moreover have "map_of us = [''a.jpg'' \<mapsto> ''xyz'']" using st'(3) unfolding photo_facts(5) by simp
  ultimately show ?thesis using st'(1,2,4) by blast
qed

end
