(* ===== verification/Startup.thy ===== *)
theory Startup
  imports Server
begin

text \<open>
  The server process from its start to its end: the constructor with the calls to the operating system that
  \<open>Server\<close> takes to have succeeded, and \<open>main\<close>.
\<close>

section \<open>The constructor\<close>

text \<open>
  The calls, each of which may throw (a \<open>boost::system::system_error\<close> is a \<open>std::runtime_error\<close>), and the text
  \<open>what()\<close> gives for an exception.
\<close>

record 'ep os_calls =
  add_signal :: "string \<Rightarrow> unit result"
  resolve :: "string \<Rightarrow> string \<Rightarrow> 'ep list result"
  open_acceptor :: "'ep \<Rightarrow> unit result"
  reuse_address :: "unit result"
  bind_acceptor :: "'ep \<Rightarrow> unit result"
  listen_acceptor :: "unit result"
  what :: "exn \<Rightarrow> string"

definition then_res :: "unit result \<Rightarrow> 'a result \<Rightarrow> 'a result" where
  "then_res r s = bind_res r (\<lambda>_. s)"

definition accept_on :: "'ep os_calls \<Rightarrow> 'db world \<Rightarrow> 'ep \<Rightarrow> 'db server result" where
  "accept_on c w endpoint =
     then_res (open_acceptor c endpoint) (then_res (reuse_address c)
       (then_res (bind_acceptor c endpoint) (then_res (listen_acceptor c) (Inr (server_new w)))))"

text \<open>\<open>*results.begin()\<close> of no results is undefined.\<close>

definition server_construct :: "'ep os_calls \<Rightarrow> string \<Rightarrow> string \<Rightarrow> 'db world \<Rightarrow> 'db server result" where
  "server_construct c address port w =
     then_res (add_signal c ''SIGINT'') (then_res (add_signal c ''SIGTERM'') (then_res (add_signal c ''SIGQUIT'')
       (bind_res (resolve c address port) (\<lambda>results.
          case results of [] \<Rightarrow> Inl Undefined_behaviour | endpoint # _ \<Rightarrow> accept_on c w endpoint))))"

section \<open>\<open>main\<close>\<close>

datatype process_end = Exit_status nat string | Terminates | Undefined

definition main_catch :: "'ep os_calls \<Rightarrow> exn \<Rightarrow> process_end" where
  "main_catch c e =
     (if is_std_exception e then Exit_status 0 (''exception: '' @ what c e @ [LF])
      else if e = Undefined_behaviour then Undefined
      else Terminates)"

text \<open>
  The constructor throws; \<open>run\<close> returns, when nothing is outstanding any more; or \<open>run\<close> throws. With the end
  comes what is written to \<open>stderr\<close>.
\<close>

inductive process_ends :: "'ep os_calls \<Rightarrow> 'db services \<Rightarrow> 'db world \<Rightarrow> process_end \<Rightarrow> bool" for c sv w where
  not_started: "server_construct c ''localhost'' ''80'' w = Inl e \<Longrightarrow> process_ends c sv w (main_catch c e)"
| returns: "server_construct c ''localhost'' ''80'' w = Inr st0 \<Longrightarrow> reachable sv w st \<Longrightarrow> pending st = {#} \<Longrightarrow>
    process_ends c sv w (Exit_status 0 [])"
| run_failed: "server_construct c ''localhost'' ''80'' w = Inr st0 \<Longrightarrow> reachable sv w st \<Longrightarrow> run_throws sv st e \<Longrightarrow>
    process_ends c sv w (main_catch c e)"

inductive_cases process_endsE: "process_ends c sv w r"

lemma server_construct_Inr: "server_construct c address port w = Inr st \<Longrightarrow> st = server_new w"
proof -
  assume "server_construct c address port w = Inr st"
  then obtain results where "resolve c address port = Inr results"
    and "(case results of [] \<Rightarrow> Inl Undefined_behaviour | endpoint # _ \<Rightarrow> accept_on c w endpoint) = Inr st"
    by (auto simp: server_construct_def then_res_def res_simps)
  then show ?thesis by (cases results) (auto simp: accept_on_def then_res_def res_simps)
qed

text \<open>The status of the process tells nothing: whatever goes wrong, it is 0 unless the process is terminated.\<close>

lemma exit_status: "process_ends c sv w (Exit_status n t) \<Longrightarrow> n = 0"
  by (erule process_endsE) (auto simp: main_catch_def split: if_splits)

text \<open>A server that has started can always be brought to its end by the stop signal.\<close>

lemma quiesce:
  "server_inv st \<Longrightarrow> \<not> acceptor_open st \<Longrightarrow> \<exists>st'. (step sv)\<^sup>*\<^sup>* st st' \<and> pending st' = {#}"
proof (induction "weight st" arbitrary: st rule: less_induct)
  case less
  show ?case
  proof (cases "pending st = {#}")
    case False
    then obtain st1 where step: "step sv st st1" using can_step by blast
    then obtain op e d where "op \<in># pending st" "completes st op e d" "delivered sv op e d st = Inr st1"
      by (rule stepE)
    note stopped = stopped_step [OF less.prems this] and inv = server_inv_step [OF less.prems(1) this]
    obtain st' where "(step sv)\<^sup>*\<^sup>* st1 st'" "pending st' = {#}"
      using less.hyps [OF _ inv] stopped by blast
    then show ?thesis using step by (meson converse_rtranclp_into_rtranclp)
  qed blast
qed

text \<open>Until the signal has come, the server waits for it.\<close>

lemma awaits_signal: "reachable sv w st \<Longrightarrow> acceptor_open st \<Longrightarrow> Signal_op \<in># pending st"
proof (induction rule: reachable.induct)
  case start
  show ?case by (simp add: server_new_def start_accept_def Let_def initiate_def)
next
  case (next_step st st')
  obtain op e d where step: "op \<in># pending st" "completes st op e d" "delivered sv op e d st = Inr st'"
    using next_step(2) by (rule stepE)
  let ?st = "before op e d st"
  have r: "run_done sv op e d ?st = Inr st'" using step(3) by (simp add: delivered_def before_def)
  have kept: "acceptor_open st \<Longrightarrow> op \<noteq> Signal_op \<Longrightarrow> Signal_op \<in># pending ?st"
    using next_step.IH by (simp add: before_pending in_diff_count)
  show ?case
  proof (cases op)
    case (Read_op c b)
    then have "read_done sv c e d ?st = Inr st'" using r by simp
    then show ?thesis using kept next_step.prems Read_op
      by (cases rule: handle_read_cases) (auto simp: handler_defs before_frame)
  next
    case (Write_op c b)
    then show ?thesis using r kept next_step.prems
      by (auto simp: write_done_def Let_def handler_defs before_frame split: if_splits)
  next
    case (Accept_op c)
    then show ?thesis using r kept next_step.prems
      by (auto simp: handle_accept_def start_accept_def Let_def handler_defs before_frame split: if_splits)
  next
    case Signal_op
    then show ?thesis using r next_step.prems by (auto simp: stop_done_def handler_defs)
  qed
qed

lemma reachable_run: "(step sv ^^ n) st st' \<Longrightarrow> reachable sv w st \<Longrightarrow> reachable sv w st'"
  by (induction n arbitrary: st') (auto intro: reachable.next_step)

lemma signal_delivered:
  "deliver sv cl Signal_op e d st =
     (if acceptor_fails cl \<or> (\<exists>c\<in>managed st. socket_fails cl c) then Inl (close_error cl)
      else Inr (stop_done (before Signal_op e d st)))"
  by (simp add: deliver_def handle_stop_def manager_stop_all_cases stop_done_def before_def)

text \<open>
  C16: the stop signal ends a server that has started. In every state it can reach with the acceptor open,
  whatever its clients are doing, the signal is awaited. When it comes and every close succeeds, that is a step
  of the loop, and every run from there has at most two completions per operation then outstanding, manages no
  connection and accepts none any more, goes on exactly as long as an operation is outstanding, and ends, as it
  can, with the end of the process, status 0 and nothing reported. When a close fails its exception is reported
  and the process ends with status 0 at once.
\<close>
theorem stop_ends_process:
  assumes "server_construct os ''localhost'' ''80'' w = Inr st0" and "reachable sv w st" and "acceptor_open st"
  shows "Signal_op \<in># pending st \<and>
    (\<forall>cl e d. case deliver sv cl Signal_op e d st of
       Inl x \<Rightarrow> (acceptor_fails cl \<or> (\<exists>c\<in>managed st. socket_fails cl c)) \<and>
         process_ends os sv w (Exit_status 0 (''exception: '' @ what os x @ [LF]))
     | Inr st1 \<Rightarrow> \<not> acceptor_fails cl \<and> (\<forall>c\<in>managed st. \<not> socket_fails cl c) \<and> step sv st st1 \<and>
         (\<forall>n st'. (step sv ^^ n) st1 st' \<longrightarrow>
            n \<le> 2 * size (pending st1) \<and> managed st' = {} \<and> \<not> acceptor_open st' \<and>
            ((\<exists>st''. step sv st' st'') \<longleftrightarrow> pending st' \<noteq> {#}) \<and>
            (pending st' = {#} \<longrightarrow> process_ends os sv w (Exit_status 0 []))) \<and>
         (\<exists>st'. (step sv)\<^sup>*\<^sup>* st1 st' \<and> pending st' = {#}))"
proof (intro conjI allI)
  show signal: "Signal_op \<in># pending st" by (rule awaits_signal [OF assms(2,3)])
  fix cl e d
  have comp: "completes st Signal_op e d" by simp
  show "case deliver sv cl Signal_op e d st of
       Inl x \<Rightarrow> (acceptor_fails cl \<or> (\<exists>c\<in>managed st. socket_fails cl c)) \<and>
         process_ends os sv w (Exit_status 0 (''exception: '' @ what os x @ [LF]))
     | Inr st1 \<Rightarrow> \<not> acceptor_fails cl \<and> (\<forall>c\<in>managed st. \<not> socket_fails cl c) \<and> step sv st st1 \<and>
         (\<forall>n st'. (step sv ^^ n) st1 st' \<longrightarrow>
            n \<le> 2 * size (pending st1) \<and> managed st' = {} \<and> \<not> acceptor_open st' \<and>
            ((\<exists>st''. step sv st' st'') \<longleftrightarrow> pending st' \<noteq> {#}) \<and>
            (pending st' = {#} \<longrightarrow> process_ends os sv w (Exit_status 0 []))) \<and>
         (\<exists>st'. (step sv)\<^sup>*\<^sup>* st1 st' \<and> pending st' = {#})"
  proof (cases "deliver sv cl Signal_op e d st")
    case (Inl x)
    then have x: "x = close_error cl" "acceptor_fails cl \<or> (\<exists>c\<in>managed st. socket_fails cl c)"
      by (simp_all add: signal_delivered split: if_splits)
    have "run_throws sv st x" using run_throws.intros [OF signal comp Inl] .
    from process_ends.run_failed [OF assms(1,2) this] show ?thesis
      using Inl x by (simp add: main_catch_def close_error_def)
  next
    case (Inr st1)
    then have st1: "st1 = stop_done (before Signal_op e d st)" "\<not> acceptor_fails cl" "\<forall>c\<in>managed st. \<not> socket_fails cl c"
      by (simp_all add: signal_delivered split: if_splits)
    have step: "step sv st st1" by (rule step.intros [OF signal comp Inr])
    have reach: "reachable sv w st1" by (rule reachable.next_step [OF assms(2) step])
    have closed: "\<not> acceptor_open st1" by (simp add: st1(1) stop_done_def handler_defs)
    have run: "n \<le> 2 * size (pending st1) \<and> managed st' = {} \<and> \<not> acceptor_open st' \<and>
        ((\<exists>st''. step sv st' st'') \<longleftrightarrow> pending st' \<noteq> {#}) \<and>
        (pending st' = {#} \<longrightarrow> process_ends os sv w (Exit_status 0 []))"
      if "(step sv ^^ n) st1 st'" for n st'
    proof -
      note reach' = reachable_run [OF that reach]
      have s: "\<not> acceptor_open st'" "weight st' + n \<le> weight st1"
        using stopped_run [OF that server_inv_reachable [OF reach] closed] by simp_all
      then have "managed st' = {}" using server_inv_reachable [OF reach'] by (auto simp: server_inv_def acceptor_inv_def)
      moreover have "(\<exists>st''. step sv st' st'') \<longleftrightarrow> pending st' \<noteq> {#}"
        using can_step [of st' sv] by (auto elim!: stepE)
      ultimately show ?thesis
        using s weight_le [of st1] process_ends.returns [OF assms(1) reach'] by auto
    qed
    have "\<exists>st'. (step sv)\<^sup>*\<^sup>* st1 st' \<and> pending st' = {#}"
      by (rule quiesce [OF server_inv_reachable [OF reach] closed])
    then show ?thesis using Inr st1(2,3) step run by simp
  qed
qed

definition demo_calls :: "nat os_calls" where
  "demo_calls = \<lparr>add_signal = (\<lambda>_. Inr ()), resolve = (\<lambda>_ _. Inr [1, 2]), open_acceptor = (\<lambda>_. Inr ()),
     reuse_address = Inr (), bind_acceptor = (\<lambda>_. Inr ()), listen_acceptor = Inr (), what = (\<lambda>_. [])\<rparr>"

lemma demo_calls_start: "server_construct demo_calls ''localhost'' ''80'' demo_world = Inr (server_new demo_world)"
  by (simp add: server_construct_def accept_on_def then_res_def demo_calls_def)

theorem stop_ends_process_witness:
  "\<exists>st1 st'. deliver demo_services smooth Signal_op No_error [] (accepted_first demo_world) = Inr st1 \<and>
    (step demo_services)\<^sup>*\<^sup>* st1 st' \<and> pending st' = {#} \<and> managed st' = {} \<and>
    process_ends demo_calls demo_services demo_world (Exit_status 0 [])"
proof -
  let ?st = "accepted_first demo_world"
  have "acceptor_open ?st" by (simp add: accepted_first_def server_defs initiate_def)
  note stop = stop_ends_process [OF demo_calls_start accepted_first_reachable this, where sv = demo_services]
  obtain st1 where st1: "deliver demo_services smooth Signal_op No_error [] ?st = Inr st1"
    by (simp add: signal_delivered)
  from spec [OF spec [OF spec [OF conjunct2 [OF stop], of smooth], of No_error], of "[]"]
  have runs: "(step demo_services ^^ n) st1 st' \<Longrightarrow> managed st' = {} \<and>
      (pending st' = {#} \<longrightarrow> process_ends demo_calls demo_services demo_world (Exit_status 0 []))"
    and ends: "\<exists>st'. (step demo_services)\<^sup>*\<^sup>* st1 st' \<and> pending st' = {#}" for n st'
    unfolding st1 by simp_all
  from ends obtain st' where st': "(step demo_services)\<^sup>*\<^sup>* st1 st'" "pending st' = {#}" by blast
  then obtain n where "(step demo_services ^^ n) st1 st'" by (meson rtranclp_imp_relpowp)
  with runs st1 st' show ?thesis by blast
qed

text \<open>A port that is taken: the process reports it and ends with status 0.\<close>

lemma port_taken:
  "process_ends (demo_calls\<lparr>bind_acceptor := (\<lambda>_. Inl (Runtime_error ''bind'')), what := (\<lambda>_. ''bind'')\<rparr>) sv w
    (Exit_status 0 (''exception: bind'' @ [LF]))"
proof -
  let ?c = "demo_calls\<lparr>bind_acceptor := (\<lambda>_. Inl (Runtime_error ''bind'')), what := (\<lambda>_. ''bind'')\<rparr>"
  have "server_construct ?c ''localhost'' ''80'' w = Inl (Runtime_error ''bind'')"
    by (simp add: server_construct_def accept_on_def then_res_def demo_calls_def)
  from process_ends.not_started [OF this] show ?thesis by (simp add: main_catch_def)
qed

end
