(* ===== verification/Failures.thy ===== *)
theory Failures
  imports WholeService Startup
begin

text \<open>
  Requests that are not answered: the exception that leaves the parser or the handler leaves the event loop
  and then \<open>main\<close>. Here the steps up to that point are followed, for whatever makes the code throw, and with
  them two requests, from the client to the end of the process: an upload that holds one file which is not an
  image, and a malformed Content-Length. The last section collects every exception that can end the loop.
\<close>

section \<open>The steps to the exception\<close>

text \<open>
  The state in which the last bytes of the request are about to be read: everything before them has been, and
  nothing has been written.
\<close>

definition about_to_fail :: "'db services \<Rightarrow> 'db server \<Rightarrow> nat \<Rightarrow> string list \<Rightarrow> exn \<Rightarrow> bool" where
  "about_to_fail sv st c chunks e \<longleftrightarrow>
     run_throws sv st e \<and> sent st c = [] \<and> acceptor_open st \<and> (\<exists>k<length chunks. received st c = take k chunks)"

text \<open>What the code throws on: the parser while it reads, or the handler when it has read.\<close>

definition fails_on :: "'db services \<Rightarrow> 'db world \<Rightarrow> request \<times> parser \<Rightarrow> string list \<Rightarrow> exn \<Rightarrow> bool" where
  "fails_on sv w s chunks e \<longleftrightarrow>
     feed_chunks parse s chunks = Inl e \<or>
     (\<exists>req p. feed_chunks parse s chunks = Inr ((req, p), TTrue) \<and> handle_request sv req initial_reply w = Inl e)"

lemma fails_on_Nil: "\<not> fails_on sv w s [] e"
  by (simp add: fails_on_def)

lemma fails_on_Cons:
  assumes "fails_on sv w s (d # chunks) e"
  obtains (now) "fails_on sv w s [d] e" | (later) s' rest where "parse s d = Inr (s', Indeterminate, rest)" and "fails_on sv w s' chunks e"
proof (cases "parse s d")
  case (Inr r)
  obtain s' t rest where r: "r = (s', t, rest)" by (cases r)
  show thesis
    using assms now later Inr unfolding r fails_on_def by (cases "t = Indeterminate") simp_all
qed (use assms now in \<open>simp add: fails_on_def\<close>)

lemma failing_read:
  assumes "reading st c s" and "length d \<le> buffer_size" and "fails_on sv (history_world st) s [d] e"
  shows "run_throws sv st e"
proof -
  have op: "Read_op c True \<in># pending st"
    by (rule ops_pending [of st c]) (use assms(1) in \<open>simp add: reading_def\<close>)
  let ?taken = "before (Read_op c True) No_error d st"
  have "(the_request (conns ?taken c), the_parser (conns ?taken c)) = s"
    "the_reply (conns ?taken c) = initial_reply" "history_world ?taken = history_world st"
    using assms(1) by (simp_all add: reading_def before_conns before_frame)
  note taken = this
  have "read_done sv c No_error d ?taken = Inl e"
  proof (cases "parse s d")
    case (Inl x)
    then show ?thesis using assms(3) taken by (simp add: fails_on_def read_done_eq)
  next
    case (Inr r)
    then obtain req p rest where "r = ((req, p), TTrue, rest)" "handle_request sv req initial_reply (history_world st) = Inl e"
      using assms(3) by (cases r) (auto simp: fails_on_def split: if_splits)
    then show ?thesis using taken Inr by (simp add: read_done_eq Let_def set_parsed_def update_conn_def)
  qed
  then have "delivered sv (Read_op c True) No_error d st = Inl e" by (simp add: delivered_def before_def)
  moreover have "completes st (Read_op c True) No_error d" using assms(2) by simp
  ultimately show ?thesis using op by (blast intro: throws_delivered)
qed

lemma failing_steps:
  assumes "reading st c s" and "\<forall>d\<in>set chunks. length d \<le> buffer_size" and "fails_on sv (history_world st) s chunks e"
  shows "\<exists>st' k. (step sv)\<^sup>*\<^sup>* st st' \<and> run_throws sv st' e \<and> sent st' c = [] \<and> acceptor_open st' \<and>
    history_world st' = history_world st \<and> k < length chunks \<and> received st' c = received st c @ take k chunks"
  using assms
proof (induction chunks arbitrary: st s)
  case Nil
  then show ?case using fails_on_Nil by blast
next
  case (Cons d chunks)
  have small: "length d \<le> buffer_size" "\<forall>d\<in>set chunks. length d \<le> buffer_size" using Cons.prems(2) by simp_all
  from Cons.prems(3) show ?case
  proof (cases rule: fails_on_Cons)
    case (later s' rest)
    obtain st1 where 1: "step sv st st1" "reading st1 c s'" "history_world st1 = history_world st"
      "received st1 c = received st c @ [d]"
      using read_step [OF Cons.prems(1) small(1) later(1)] by auto
    have "fails_on sv (history_world st1) s' chunks e" using later(2) 1(3) by simp
    from Cons.IH [OF 1(2) small(2) this] obtain st2 k where
      "(step sv)\<^sup>*\<^sup>* st1 st2" "run_throws sv st2 e" "sent st2 c = []" "acceptor_open st2"
      "history_world st2 = history_world st1" "k < length chunks" "received st2 c = received st1 c @ take k chunks"
      by blast
    then show ?thesis using 1(1,3,4) by (intro exI [of _ st2] exI [of _ "Suc k"]) (auto intro: converse_rtranclp_into_rtranclp)
  next
    case now
    from failing_read [OF Cons.prems(1) small(1) this] Cons.prems(1) show ?thesis
      by (intro exI [of _ st] exI [of _ 0]) (simp add: reading_def)
  qed
qed

lemma failing_run:
  assumes "reachable sv w0 st" and "acceptor_open st"
    and "fails_on sv (history_world st) (new_request 0 0, request_parser) chunks e"
    and "\<forall>d\<in>set chunks. length d \<le> buffer_size"
  obtains st' where "(step sv)\<^sup>*\<^sup>* st st'" and "about_to_fail sv st' (next_connection st) chunks e"
    and "history_world st' = history_world st" and "reachable sv w0 st'"
proof -
  let ?c = "next_connection st"
  obtain st1 where 1: "step sv st st1" "reading st1 ?c (new_request 0 0, request_parser)"
      "history_world st1 = history_world st" "received st1 ?c = []"
    using accept_step [OF server_inv_reachable [OF assms(1)] _ assms(2) refl] story_reachable [OF assms(1)] by blast
  have "fails_on sv (history_world st1) (new_request 0 0, request_parser) chunks e" using assms(3) 1(3) by simp
  from failing_steps [OF 1(2) assms(4) this] obtain st2 k where
    2: "(step sv)\<^sup>*\<^sup>* st1 st2" "run_throws sv st2 e" "sent st2 ?c = []" "acceptor_open st2"
    "history_world st2 = history_world st1" "k < length chunks" "received st2 ?c = received st1 ?c @ take k chunks"
    by blast
  show thesis
  proof (rule that)
    show steps: "(step sv)\<^sup>*\<^sup>* st st2" using 1(1) 2(1) by (rule converse_rtranclp_into_rtranclp)
    show "about_to_fail sv st2 ?c chunks e" using 2 1(4) by (auto simp: about_to_fail_def)
    show "history_world st2 = history_world st" using 2(5) 1(3) by simp
    show "reachable sv w0 st2" by (rule reachable_steps [OF assms(1) steps])
  qed
qed

lemma failing_process:
  assumes "server_construct os ''localhost'' ''80'' w0 = Inr st0" and "reachable sv w0 st"
    and "about_to_fail sv st c chunks e" and "is_std_exception e"
  shows "process_ends os sv w0 (Exit_status 0 (''exception: '' @ what os e @ [LF]))"
proof -
  have "run_throws sv st e" using assms(3) by (simp add: about_to_fail_def)
  from process_ends.run_failed [OF assms(1,2) this] show ?thesis using assms(4) by (simp add: main_catch_def)
qed

text \<open>Conversely, what fails in every state of the history, no reachable state has behind it.\<close>

lemma never_taken_in:
  assumes "reachable sv w0 st" and "\<And>w. fails_on sv w (new_request 0 0, request_parser) (received st c) e"
  shows False
proof -
  have "story sv st c" using story_reachable [OF assms(1)] by blast
  then obtain t where fed: "feed_chunks parse (new_request 0 0, request_parser) (received st c) =
      Inr ((the_request (conns st c), the_parser (conns st c)), t)"
    and ans: "answered sv c t (the_request (conns st c)) (the_reply (conns st c)) (sent st c) (ops st c)"
    unfolding story_def by blast
  have "t = TTrue" using assms(2) fed unfolding fails_on_def by auto
  then obtain w r where "handle_request sv (the_request (conns st c)) initial_reply w = Inr r"
    using ans by (auto simp: answered_def reply_to_def)
  then show False using assms(2) [of w] fed unfolding fails_on_def by auto
qed

section \<open>An upload with a file that is not an image\<close>

text \<open>
  C7: one upload with a file that is not an image ends the service: with the networks loaded, an engine that
  creates, starts and finishes its requests, and files that do not make the pipeline undefined, from every
  reachable state with the acceptor open, whatever replies its other clients are waiting for, the server
  can reach a state in which it has sent this client nothing and, reading what is left of the message, throws
  \<open>std::out_of_range\<close> out of \<open>run\<close>; nothing is added to the history, the process reports the exception and
  ends with status 0, and the client, whose connection is closed with it, prints an empty response. No run
  goes any further: there is no reachable state in which a connection has taken in the whole message.
\<close>
theorem upload_ends_service:
  assumes "init P new_pipeline = (Inr True, pl)" and "0 \<le> maxProposalCount (personDetection pl)"
    and "engine_laws P S (nets_of pl)" and "outputs_fit S (nets_of pl)"
    and "\<forall>u\<in>set (uploads fs files). defined_result P S (nets_of pl) u"
    and "\<forall>m. mset (iter sv m) = mset m" and "person_run sv = person_text P S (nets_of pl)"
    and "map_of (rev (uploads fs files)) n = Some bytes" and "not_an_image P bytes"
    and "parseArguments vm = Returned \<lparr>opt_type = Predict, images = files\<rparr>"
    and "\<forall>f\<in>set files. fs_exists fs f = Some True \<and> fs_regular fs f = Some True"
    and "predict_body fs files = Returned body" and "files \<noteq> []" and "fits body"
    and "\<forall>f\<in>set files. good_name (fs_filename fs f)"
    and "server_construct os ''localhost'' ''80'' w0 = Inr st0"
    and "reachable sv w0 st" and "acceptor_open st" and "concat chunks = predict_message body"
    and "\<forall>d\<in>set chunks. length d \<le> buffer_size"
  shows "(\<forall>ims. defined_images P S (nets_of pl) ims \<longrightarrow> person_results P ims = run_images (person_run sv) ims) \<and>
    (\<exists>st'. (step sv)\<^sup>*\<^sup>* st st' \<and> about_to_fail sv st' (next_connection st) chunks Out_of_range \<and>
      history_world st' = history_world st \<and>
      process_ends os sv w0 (Exit_status 0 (''exception: '' @ what os Out_of_range @ [LF])) \<and>
      (\<forall>net. connects net \<and> transfer net (predict_message body) = Response (concat (sent st' (next_connection st))) \<longrightarrow>
        client_main fs net vm = Returned [])) \<and>
    (\<forall>st' c. reachable sv w0 st' \<longrightarrow> concat (received st' c) \<noteq> predict_message body)"
proof (intro conjI)
  show "\<forall>ims. defined_images P S (nets_of pl) ims \<longrightarrow> person_results P ims = run_images (person_run sv) ims"
    using results_of_images [OF assms(1-4)] assms(7) by simp
  have empty: "person_run sv bytes n = []" using not_an_image_text [OF assms(9)] assms(7) by simp
  have loses: "fails_on sv w (new_request 0 0, request_parser) cs Out_of_range" if "concat cs = predict_message body" for w cs
    using upload_loses [OF assms(12-15) that assms(6,8) empty] unfolding fails_on_def by metis
  show "\<forall>st' c. reachable sv w0 st' \<longrightarrow> concat (received st' c) \<noteq> predict_message body"
    using loses never_taken_in by metis
  obtain st' where st': "(step sv)\<^sup>*\<^sup>* st st'" "about_to_fail sv st' (next_connection st) chunks Out_of_range"
      "history_world st' = history_world st" "reachable sv w0 st'"
    by (rule failing_run [OF assms(17,18) loses [OF assms(19)] assms(20)])
  have silent: "sent st' (next_connection st) = []" using st'(2) by (simp add: about_to_fail_def)
  have ends: "process_ends os sv w0 (Exit_status 0 (''exception: '' @ what os Out_of_range @ [LF]))"
    by (rule failing_process [OF assms(16) st'(4,2)]) simp
  have "client_main fs net vm = Returned []" if "connects net"
    "transfer net (predict_message body) = Response (concat (sent st' (next_connection st)))" for net
  proof -
    have "transfer net (predict_message body) = Response []" using that(2) by (simp add: silent)
    then show ?thesis using that(1) assms(10-13) by (simp add: client_main_def formRequest_def valid_files_iff Request_of_def request_bool_def sendRequest_def try_request_def
        request_type_def request_filePath_def exchange_result_def)
  qed
  with st' ends show "\<exists>st'. (step sv)\<^sup>*\<^sup>* st st' \<and> about_to_fail sv st' (next_connection st) chunks Out_of_range \<and>
      history_world st' = history_world st \<and>
      process_ends os sv w0 (Exit_status 0 (''exception: '' @ what os Out_of_range @ [LF])) \<and>
      (\<forall>net. connects net \<and> transfer net (predict_message body) = Response (concat (sent st' (next_connection st))) \<longrightarrow>
        client_main fs net vm = Returned [])" by blast
qed

lemma small_file:
  "map_of (rev (uploads demo_fs [''a.jpg''])) ''a.jpg'' = Some ''Man''"
  "not_an_image (demo_platform demo_table) ''Man''"
  unfolding demo_facts(4) by (simp_all add: not_an_image_def demo_platform_def)

theorem upload_ends_service_witness:
  "\<exists>st'. (step photo_services)\<^sup>*\<^sup>* (accepted_first demo_world) st' \<and> run_throws photo_services st' Out_of_range \<and>
    sent st' (next_connection (accepted_first demo_world)) = [] \<and>
    process_ends demo_calls photo_services demo_world (Exit_status 0 (''exception: '' @ [LF])) \<and>
    client_main demo_fs \<lparr>connects = True, transfer = (\<lambda>_. Response [])\<rparr> upload_vm = Returned []"
proof -
  from upload_ends_service [OF demo_init demo_service(2) demo_laws [folded demo_service(1)]
      demo_outputs [folded demo_service(1)]
      demo_service(3) [folded demo_service(1)] photo_services_facts(3,4) [folded demo_service(1)] small_file
      upload_vm_facts demo_facts(1) list.distinct(2) demo_facts(2,3) demo_calls_start accepted_first_reachable
      accepted_first_open small_chunks]
  obtain st' where "(step photo_services)\<^sup>*\<^sup>* (accepted_first demo_world) st'"
    "about_to_fail photo_services st' (next_connection (accepted_first demo_world)) [predict_message demo_body] Out_of_range"
    "process_ends demo_calls photo_services demo_world (Exit_status 0 (''exception: '' @ what demo_calls Out_of_range @ [LF]))"
    and "\<forall>net. connects net \<and> transfer net (predict_message demo_body) =
        Response (concat (sent st' (next_connection (accepted_first demo_world)))) \<longrightarrow>
      client_main demo_fs net upload_vm = Returned []" by blast
  moreover have "what demo_calls Out_of_range = []" by (simp add: demo_calls_def)
  ultimately show ?thesis unfolding about_to_fail_def by (intro exI [of _ st']) simp
qed

section \<open>A malformed length\<close>

lemma length_after_Inl: "length_after hs n = Inl e \<Longrightarrow> e \<in> {Invalid_argument, Out_of_range}"
  by (induction hs arbitrary: n) (auto simp: res_simps stoul_def Let_def split: if_splits)

lemma parse_malformed_length:
  assumes "token m" and "\<forall>c\<in>set u. value_char c \<and> c \<noteq> CHR '' ''" and "small_version mj" and "small_version mn"
    and "\<forall>h\<in>set hs. good_header h" and "length_after hs 0 = Inl e"
  shows "parse (new_request 0 0, request_parser) (render_request m u mj mn hs body) = Inl e"
    using parse_headers [OF assms(5), where req = "sent_request m u mj mn hs ''''" and hs = "[]" and ys = "CRLF @ body"
        and e = 0 and k = 0 and l = 0]
    unfolding render_request_def
    by (subst parse_request_line [OF assms(1-4)]) (simp add: assms(6) sent_request_def)

text \<open>
  C30: any client ends the service with one request, to whatever path, with a Content-Length header that
  \<open>std::stoul\<close> rejects: from every reachable state with the acceptor open the server can reach a state
  in which it has sent this client nothing and throws while it reads the rest; the process reports the
  exception and ends with status 0. No reachable state has the whole request behind it.
\<close>
theorem malformed_length_ends_service:
  assumes "token m" and "\<forall>c\<in>set u. value_char c \<and> c \<noteq> CHR '' ''" and "small_version mj" and "small_version mn"
    and "\<forall>h\<in>set hs. good_header h" and "length_after hs 0 = Inl e"
    and "server_construct os ''localhost'' ''80'' w0 = Inr st0"
    and "reachable sv w0 st" and "acceptor_open st" and "concat chunks = render_request m u mj mn hs body"
    and "\<forall>d\<in>set chunks. length d \<le> buffer_size"
  shows "(\<exists>st'. (step sv)\<^sup>*\<^sup>* st st' \<and> about_to_fail sv st' (next_connection st) chunks e \<and>
      history_world st' = history_world st \<and>
      process_ends os sv w0 (Exit_status 0 (''exception: '' @ what os e @ [LF]))) \<and>
    (\<forall>st' c. reachable sv w0 st' \<longrightarrow> concat (received st' c) \<noteq> render_request m u mj mn hs body)"
proof -
  have "parse (new_request 0 0, request_parser) (render_request m u mj mn hs body) = Inl e"
    by (rule parse_malformed_length [OF assms(1-6)])
  then have fails: "fails_on sv w (new_request 0 0, request_parser) cs e" if "concat cs = render_request m u mj mn hs body" for w cs
    using that by (simp add: fails_on_def rp.feed_concat)
  obtain st' where st': "(step sv)\<^sup>*\<^sup>* st st'" "about_to_fail sv st' (next_connection st) chunks e"
      "history_world st' = history_world st" "reachable sv w0 st'"
    by (rule failing_run [OF assms(8,9) fails [OF assms(10)] assms(11)])
  have "is_std_exception e" using length_after_Inl [OF assms(6)] by auto
  then have "process_ends os sv w0 (Exit_status 0 (''exception: '' @ what os e @ [LF]))"
    by (rule failing_process [OF assms(7) st'(4,2)])
  then show ?thesis using st'(1-3) fails never_taken_in by metis
qed

theorem malformed_length_ends_service_witness:
  "\<exists>st'. (step demo_services)\<^sup>*\<^sup>* (accepted_first demo_world) st' \<and> run_throws demo_services st' Invalid_argument \<and>
    process_ends demo_calls demo_services demo_world (Exit_status 0 (''exception: '' @ [LF]))"
proof -
  let ?hs = "[\<lparr>hname = ''Content-Length'', hvalue = ''x''\<rparr>]"
  let ?r = "render_request ''GET'' ''/'' 1 0 ?hs ''''"
  have sent: "token ''GET''" "\<forall>c\<in>set ''/''. value_char c \<and> c \<noteq> CHR '' ''" "\<forall>h\<in>set ?hs. good_header h"
    "length_after ?hs 0 = Inl Invalid_argument" by code_simp+
  have "dec 1 = ''1''" "dec 0 = ''0''" by code_simp+
  then have "concat [?r] = ?r" "\<forall>d\<in>set [?r]. length d \<le> buffer_size"
    by (simp_all add: render_request_def render_header_def buffer_size_def)
  from malformed_length_ends_service [where sv = demo_services, OF sent(1,2) _ _ sent(3,4) demo_calls_start
      accepted_first_reachable accepted_first_open this]
  show ?thesis by (auto simp: small_version_def about_to_fail_def demo_calls_def)
qed

section \<open>Every way the event loop can fail\<close>

text \<open>Two lengths \<open>std::stoul\<close> refuses, and an upload with a character outside the alphabet.\<close>

definition bad_length :: "string \<Rightarrow> string" where
  "bad_length v = render_request ''GET'' ''/'' 1 0 [\<lparr>hname = ''Content-Length'', hvalue = v\<rparr>] ''''"

lemma bad_lengths:
  "parse (new_request 0 0, request_parser) (bad_length ''x'') = Inl Invalid_argument"
  "parse (new_request 0 0, request_parser) (bad_length ''99999999999999999999'') = Inl Out_of_range"
proof -
  have ok: "token ''GET''" "\<forall>c\<in>set ''/''. value_char c \<and> c \<noteq> CHR '' ''" "small_version 1" "small_version 0"
    "good_header \<lparr>hname = ''Content-Length'', hvalue = ''x''\<rparr>"
    "good_header \<lparr>hname = ''Content-Length'', hvalue = ''99999999999999999999''\<rparr>"
    by (simp_all add: small_version_def) code_simp+
  have "stoul ''x'' = Inl Invalid_argument" "stoul ''99999999999999999999'' = Inl Out_of_range"
    by (simp_all add: stoul_def is_space_char_def is_digit_char_def uchar_def dec_val_def)
  then have "length_after [\<lparr>hname = ''Content-Length'', hvalue = ''x''\<rparr>] 0 = Inl Invalid_argument"
    "length_after [\<lparr>hname = ''Content-Length'', hvalue = ''99999999999999999999''\<rparr>] 0 = Inl Out_of_range"
    by simp_all
  then show "parse (new_request 0 0, request_parser) (bad_length ''x'') = Inl Invalid_argument"
    "parse (new_request 0 0, request_parser) (bad_length ''99999999999999999999'') = Inl Out_of_range"
    unfolding bad_length_def using ok by (intro parse_malformed_length; simp)+
qed

definition bad_upload :: string where
  "bad_upload = multipart client_boundary [(''a'', ''!!!!'')]"

lemma bad_upload_facts:
  "\<forall>q\<in>set [(''a'', ''!!!!'')]. good_part q" "fits bad_upload" "length (predict_message bad_upload) \<le> buffer_size"
  "undecodable (''a'', ''!!!!'')"
proof -
  show "\<forall>q\<in>set [(''a'', ''!!!!'')]. good_part q" by code_simp
  have len: "length bad_upload < 1000"
    by (simp add: bad_upload_def part_text_def part_head_def part_type_def boundary_rn_def boundary_end_rn_def
        client_boundary_def)
  then show "fits bad_upload" by (simp add: fits_def)
  show "length (predict_message bad_upload) \<le> buffer_size"
    using len length_dec_le [of "length bad_upload"] by (simp add: predict_message_def buffer_size_def)
  show "undecodable (''a'', ''!!!!'')" by code_simp
qed

lemma client_boundary_facts: "good_boundary client_boundary" "\<forall>c\<in>set client_boundary. value_char c"
  by (simp_all add: good_boundary_def client_boundary_def literal_chars)

lemma bad_upload_fails:
  assumes "\<forall>m. mset (iter sv m) = mset m"
  shows "fails_on sv w (new_request 0 0, request_parser) [predict_message bad_upload] (Literal_thrown b64_literal)"
proof -
  obtain m where m: "retrieveImages client_boundary bad_upload = Inr (Some m)" "distinct (map fst m)"
    "map_of m = map_of (rev [(''a'', ''!!!!'')])"
    using retrieve_images_multipart [OF client_boundary_facts(1) bad_upload_facts(1) list.distinct(2)
        bad_upload_facts(2) [unfolded bad_upload_def]]
    unfolding bad_upload_def by blast
  then have "(''a'', ''!!!!'') \<in> set m" by (intro map_of_SomeD) simp
  then have "(''a'', ''!!!!'') \<in> set (iter sv m)" using assms by (metis set_mset_mset)
  then have "predict_images sv m initial_reply w = Inl (Literal_thrown b64_literal)"
    using bad_upload_facts(4) by (subst predict_images_Inl) auto
  moreover have "crlf_lines bad_upload"
    unfolding bad_upload_def by (rule crlf_lines_multipart [OF client_boundary_facts(2) bad_upload_facts(1)])
  ultimately show ?thesis
    using client_message_parsed [OF bad_upload_facts(2), of "[predict_message bad_upload]" 0 0]
      client_request_handled [OF m(1), of sv initial_reply w]
    unfolding fails_on_def by auto
qed

lemma history_fails:
  assumes "hgetall sv (db w) ''history'' = Inl e"
  shows "fails_on sv w (new_request 0 0, request_parser) [history_message] e"
proof -
  obtain req p where "parse (new_request 0 0, request_parser) history_message = Inr ((req, p), TTrue, [])"
    and uri: "uri req = ''/history''" using history_message_complete by blast
  moreover have "handle_request sv req initial_reply w = Inl e"
    using assms by (simp add: handle_request_Inl_iff uri)
  ultimately show ?thesis by (auto simp: fails_on_def)
qed

text \<open>
  C29: exactly which exceptions can end the event loop of a server that has started, and how the process ends.
  Apart from the errors of Redis these are the two of \<open>std::stoul\<close> (\<open>std::out_of_range\<close> also from the
  combination of the results), the string literal of the base64 decoder, and whatever a failing \<open>close()\<close>
  says; each of them can be brought about in every started server. An error of Redis gets there only from a
  command that fails on the history of that moment, and it does when the history cannot be read while the
  acceptor is open. \<open>main\<close> reports each exception and ends with status 0, but for the string literal, which is no
  \<open>std::exception\<close> and terminates the process.
\<close>
theorem run_exceptions:
  assumes "server_construct os ''localhost'' ''80'' w0 = Inr st0"
    and "redis_hash contents (hset sv) (hgetall sv)" and "\<forall>m. mset (iter sv m) = mset m"
  shows "(x \<noteq> Redis_error \<longrightarrow>
      ((\<exists>st. reachable sv w0 st \<and> run_throws sv st x) \<longleftrightarrow>
        x \<in> {Invalid_argument, Out_of_range, Literal_thrown b64_literal} \<or> (\<exists>u. x = Runtime_error u))) \<and>
    (\<forall>st. reachable sv w0 st \<longrightarrow> run_throws sv st Redis_error \<longrightarrow>
      (\<exists>e. hgetall sv (db (history_world st)) ''history'' = Inl e) \<or>
      (\<exists>f v e. hset sv (db (history_world st)) ''history'' f v = Inl e)) \<and>
    (\<forall>st e. reachable sv w0 st \<longrightarrow> acceptor_open st \<longrightarrow> hgetall sv (db (history_world st)) ''history'' = Inl e \<longrightarrow>
      (\<exists>st'. reachable sv w0 st' \<and> run_throws sv st' Redis_error)) \<and>
    (\<forall>st. reachable sv w0 st \<longrightarrow> run_throws sv st x \<longrightarrow>
      process_ends os sv w0
        (if x = Literal_thrown b64_literal then Terminates else Exit_status 0 (''exception: '' @ what os x @ [LF])))"
proof (intro conjI allI impI)
  have fails: "\<exists>st'. reachable sv w0 st' \<and> run_throws sv st' e"
    if "reachable sv w0 st" "acceptor_open st" "fails_on sv (history_world st) (new_request 0 0, request_parser) [d] e"
      "length d \<le> buffer_size" for st d e
    using failing_run [OF that(1,2,3)] that(4) unfolding about_to_fail_def by (metis empty_iff list.set(1) set_ConsD)
  have start: "reachable sv w0 (server_new w0)" "acceptor_open (server_new w0)"
    by (rule reachable.start) (simp add: server_new_def start_accept_def Let_def)
  have digits: "dec 1 = ''1''" "dec 0 = ''0''" by code_simp+
  have "length (bad_length v) \<le> buffer_size" if "length v \<le> 20" for v
    using that digits by (simp add: bad_length_def render_request_def render_header_def buffer_size_def)
  then have bad: "\<exists>st. reachable sv w0 st \<and> run_throws sv st e"
    if "parse (new_request 0 0, request_parser) (bad_length v) = Inl e" "length v \<le> 20" for v e
    using fails [OF start, of "bad_length v" e] that by (simp add: fails_on_def)
  have can: "\<exists>st. reachable sv w0 st \<and> run_throws sv st x"
    if "x \<in> {Invalid_argument, Out_of_range, Literal_thrown b64_literal} \<or> (\<exists>u. x = Runtime_error u)"
    using that bad [OF bad_lengths(1)] bad [OF bad_lengths(2)] close_throws [of sv w0]
      fails [OF start bad_upload_fails [OF assms(3)] bad_upload_facts(3)]
    by auto
  show "(\<exists>st. reachable sv w0 st \<and> run_throws sv st x) \<longleftrightarrow>
      x \<in> {Invalid_argument, Out_of_range, Literal_thrown b64_literal} \<or> (\<exists>u. x = Runtime_error u)"
    if "x \<noteq> Redis_error"
    using can that run_throws_only [OF assms(2)] by blast
  show "(\<exists>e. hgetall sv (db (history_world st)) ''history'' = Inl e) \<or>
      (\<exists>f v e. hset sv (db (history_world st)) ''history'' f v = Inl e)"
    if "reachable sv w0 st" and "run_throws sv st Redis_error" for st
    by (rule redis_throws [OF that])
  show "\<exists>st'. reachable sv w0 st' \<and> run_throws sv st' Redis_error"
    if "reachable sv w0 st" and "acceptor_open st" and "hgetall sv (db (history_world st)) ''history'' = Inl e" for st e
  proof -
    have "e = Redis_error" using assms(2) that(3) by (auto simp: redis_hash_def)
    then show ?thesis using fails [OF that(1,2) history_fails [OF that(3)]] by (simp add: history_message_def buffer_size_def)
  qed
  show "process_ends os sv w0
      (if x = Literal_thrown b64_literal then Terminates else Exit_status 0 (''exception: '' @ what os x @ [LF]))"
    if "reachable sv w0 st" and "run_throws sv st x" for st
    using process_ends.run_failed [OF assms(1) that] run_throws_only [OF assms(2) that] by (auto simp: main_catch_def)
qed

text \<open>In the server with an empty in-memory store, where nothing fails but what a client can send.\<close>

theorem run_exceptions_witness:
  "(\<exists>st. reachable photo_services demo_world st \<and> run_throws photo_services st (Literal_thrown b64_literal)) \<and>
   \<not> (\<exists>st. reachable photo_services demo_world st \<and> run_throws photo_services st Opencv_error) \<and>
   process_ends demo_calls photo_services demo_world Terminates"
proof -
  note thrown = run_exceptions [OF demo_calls_start photo_services_facts(1,3)]
  have "\<exists>st. reachable photo_services demo_world st \<and> run_throws photo_services st (Literal_thrown b64_literal)"
    using thrown [of "Literal_thrown b64_literal"] by simp
  moreover have "\<not> (\<exists>st. reachable photo_services demo_world st \<and> run_throws photo_services st Opencv_error)"
    using thrown [of Opencv_error] by simp
  ultimately show ?thesis using thrown [of "Literal_thrown b64_literal"] by auto
qed

end
