(* ===== verification/Restart.thy ===== *)
theory Restart
  imports Exchange
begin

text \<open>
  The service over a restart: the records stay in Redis, the counter that names them does not. What a client
  sees of the answers of both processes.
\<close>

section \<open>Two numbered lists, one over the other\<close>

lemma numbered_domain: "dom (numbered 0 js) = dec ` {..<length js}"
  by (simp add: numbered_def dom_map_of_zip atLeast0LessThan)

lemma numbered_at: "numbered 0 js (dec n) = (if n < length js then Some (js ! n) else None)"
proof (cases "n < length js")
  case True
  then show ?thesis using numbered_nth [of n js 0] by simp
next
  case False
  then have "dec n \<notin> dom (numbered 0 js)" unfolding numbered_domain by auto
  then show ?thesis using False by auto
qed

lemma numbered_other: "s \<notin> range dec \<Longrightarrow> numbered 0 js s = None"
proof -
  assume "s \<notin> range dec"
  then have "s \<notin> dom (numbered 0 js)" unfolding numbered_domain by blast
  then show ?thesis by (simp add: domIff)
qed

lemma numbered_over: "numbered 0 js ++ numbered 0 ks = numbered 0 (ks @ drop (length ks) js)"
proof
  fix s
  show "(numbered 0 js ++ numbered 0 ks) s = numbered 0 (ks @ drop (length ks) js) s"
  proof (cases "s \<in> range dec")
    case True
    then obtain n where s: "s = dec n" by blast
    show ?thesis unfolding s map_add_def numbered_at by (auto simp: nth_append)
  qed (simp add: numbered_other map_add_def)
qed

section \<open>The second process\<close>

text \<open>
  C13: a restart loses answers: when a process is started on the history an earlier one has left, a client
  that asks for the history, in any state of the second with the acceptor open, can be served, and prints the
  answers of the second process and those of the first without its first ones, as many as the second has
  given; they were answered and stored, under the numbers the second has used again, and are gone. The order
  is that in which each process handled the requests it has taken in.
\<close>
theorem history_after_restart:
  assumes "redis_hash contents (hset sv) (hgetall sv)" and "\<forall>d k. \<exists>kvs. hgetall sv d k = Inr kvs"
    and "\<forall>m. mset (iter sv m) = mset m"
    and "inst w0 = None" and "contents (db w0) ''history'' = Map.empty"
    and "parseArguments vm = Returned \<lparr>opt_type = HistoryOpt, images = is\<rparr>"
    and "reachable sv w0 st1" and "reachable sv (restart (history_world st1)) st2" and "acceptor_open st2"
    and "concat chunks = history_message" and "\<forall>d\<in>set chunks. length d \<le> buffer_size"
  shows "\<exists>st' rep cs1 cs2. (step sv)\<^sup>*\<^sup>* st2 st' \<and> served st' (next_connection st2) rep \<and>
    (\<forall>net. delivers net history_message st' (next_connection st2) \<longrightarrow>
      (\<exists>text. client_main fs net vm = Returned text \<and> ok_text (content rep) text)) \<and>
    distinct cs1 \<and> set cs1 = {c. accepted st1 c} \<and> distinct cs2 \<and> set cs2 = {c. accepted st2 c} \<and>
    session sv w0 (map (exchange_of st1) cs1) (history_world st1) \<and>
    session sv (restart (history_world st1)) (map (exchange_of st2) cs2) (history_world st2) \<and>
    (let first = predictions (map (exchange_of st1) cs1); second = predictions (map (exchange_of st2) cs2)
     in length first \<le> 2 ^ 32 \<longrightarrow> length second \<le> 2 ^ 32 \<longrightarrow>
       (\<forall>n. contents (db (history_world st1)) ''history'' (dec n) = (if n < length first then Some (first ! n) else None)) \<and>
       (\<exists>bodies. content rep = concat bodies \<and> mset bodies = mset (second @ drop (length second) first)))"
proof -
  obtain cs1 where cs1: "accounts sv w0 st1 cs1" using accounts_reachable [OF assms(7)] by blast
  obtain cs2 where cs2: "accounts sv (restart (history_world st1)) st2 cs2"
    using accounts_reachable [OF assms(8)] by blast
  obtain st' rep kvs where st': "(step sv)\<^sup>*\<^sup>* st2 st'" "served st' (next_connection st2) rep"
      "\<forall>net. delivers net history_message st' (next_connection st2) \<longrightarrow>
        (\<exists>text. client_main fs net vm = Returned text \<and> ok_text (content rep) text)"
    and kvs: "content rep = concat (map snd kvs)" "distinct (map fst kvs)"
      "map_of kvs = contents (db (history_world st2)) ''history''"
    by (rule history_shown [OF assms(1-3,6,8-11)])
  have stored: "contents (db (history_world st1)) ''history'' = numbered 0 (predictions (map (exchange_of st1) cs1))"
    if "length (predictions (map (exchange_of st1) cs1)) \<le> 2 ^ 32"
    using accounts_history [OF assms(1,4,5) cs1 that] .
  have shown: "mset (map snd kvs) = mset (predictions (map (exchange_of st2) cs2) @
      drop (length (predictions (map (exchange_of st2) cs2))) (predictions (map (exchange_of st1) cs1)))"
    if "length (predictions (map (exchange_of st1) cs1)) \<le> 2 ^ 32"
      "length (predictions (map (exchange_of st2) cs2)) \<le> 2 ^ 32"
  proof -
    have fresh: "inst (restart (history_world st1)) = None" by (simp add: restart_def)
    have "contents (db (restart (history_world st1))) ''history'' = numbered 0 (predictions (map (exchange_of st1) cs1))"
      using stored [OF that(1)] by (simp add: restart_def)
    then have "map_of kvs = numbered 0 (predictions (map (exchange_of st2) cs2) @
        drop (length (predictions (map (exchange_of st2) cs2))) (predictions (map (exchange_of st1) cs1)))"
      using accounts_history_from [OF assms(1) fresh cs2 that(2)] kvs(3) by (simp add: numbered_over)
    then show ?thesis by (rule numbered_values [OF kvs(2)])
  qed
  show ?thesis
    unfolding Let_def
    by (intro exI [of _ st'] exI [of _ rep] exI [of _ cs1] exI [of _ cs2] conjI impI)
      (use st' kvs(1) cs1 cs2 stored shown in \<open>auto simp: accounts_def numbered_at\<close>)
qed

theorem history_after_restart_witness:
  "\<exists>st1 st' rep cs1 cs2. reachable exchange_services demo_world st1 \<and>
    mem_contents (db (history_world st1)) ''history'' ''0'' \<noteq> None \<and>
    (step exchange_services)\<^sup>*\<^sup>* (accepted_first (restart (history_world st1))) st' \<and>
    served st' (next_connection (accepted_first (restart (history_world st1)))) rep \<and>
    set cs1 = {c. accepted st1 c} \<and> session exchange_services demo_world (map (exchange_of st1) cs1) (history_world st1) \<and>
    session exchange_services (restart (history_world st1))
      (map (exchange_of (accepted_first (restart (history_world st1)))) cs2)
      (history_world (accepted_first (restart (history_world st1)))) \<and>
    (let first = predictions (map (exchange_of st1) cs1);
         second = predictions (map (exchange_of (accepted_first (restart (history_world st1)))) cs2)
     in length first \<le> 2 ^ 32 \<longrightarrow> length second \<le> 2 ^ 32 \<longrightarrow>
       (\<exists>bodies. content rep = concat bodies \<and> mset bodies = mset (second @ drop (length second) first)))"
proof (rule small_run)
  fix st1
  assume st1: "reachable exchange_services demo_world st1" "mem_contents (db (history_world st1)) ''history'' ''0'' \<noteq> None"
  from history_after_restart [OF exchange_facts(1) history_vm_facts(1) exchange_facts(3) demo_world_empty
      history_vm_facts(2) st1(1) accepted_first_reachable accepted_first_open history_vm_facts(3,4), of demo_fs]
  show ?thesis using st1 unfolding Let_def by meson
qed

end
