(* ===== verification/Slog.thy ===== *)
theory Slog
  imports Prelude
begin

text \<open>
  \<open>include/server/PersonPipeline/slog.hpp\<close>: the log streams. A \<open>LogStream\<close> puts its prefix before the
  first argument of a line; \<open>info\<close> and \<open>warn\<close> write to the same \<open>std::cout\<close>, \<open>err\<close> to \<open>std::cerr\<close>. The
  shared output stream is explicit: what has been written, and the \<open>boolalpha\<close> flag that one logger sets
  for all. The operations are proved to implement a log made of lines.
\<close>

section \<open>Output streams and log streams\<close>

text \<open>What the program logs: text (numbers are logged as their decimal text) and truth values.\<close>

datatype log_arg = Text string | Flag bool

record out_stream =
  written :: string
  bool_alpha :: bool

fun arg_text :: "bool \<Rightarrow> log_arg \<Rightarrow> string" where
  "arg_text alpha (Text s) = s"
| "arg_text alpha (Flag b) = (if alpha then (if b then ''true'' else ''false'') else (if b then ''1'' else ''0''))"

definition write_text :: "string \<Rightarrow> out_stream \<Rightarrow> out_stream" where
  "write_text s os = os\<lparr>written := written os @ s\<rparr>"

record log_stream =
  prefix_text :: string
  new_line :: bool

definition LogStream :: "string \<Rightarrow> log_stream" where
  "LogStream p = \<lparr>prefix_text = p, new_line = True\<rparr>"

text \<open>The three overloads of \<open>operator<<\<close>.\<close>

definition log_put :: "log_arg \<Rightarrow> log_stream \<times> out_stream \<Rightarrow> log_stream \<times> out_stream" where
  "log_put a s =
     (let (ls, os) = s;
          (ls', os') =
            (if new_line ls then (ls\<lparr>new_line := False\<rparr>, write_text (''[ '' @ prefix_text ls @ '' ] '') os)
             else (ls, os))
      in (ls', write_text (arg_text (bool_alpha os') a) os'))"

definition log_endl :: "log_stream \<times> out_stream \<Rightarrow> log_stream \<times> out_stream" where
  "log_endl s = (let (ls, os) = s in (ls\<lparr>new_line := True\<rparr>, write_text [LF] os))"

definition log_boolalpha :: "log_stream \<times> out_stream \<Rightarrow> log_stream \<times> out_stream" where
  "log_boolalpha s = (let (ls, os) = s in (ls, os\<lparr>bool_alpha := True\<rparr>))"

datatype log_op = Put log_arg | Endl | Boolalpha

fun log_step :: "log_op \<Rightarrow> log_stream \<times> out_stream \<Rightarrow> log_stream \<times> out_stream" where
  "log_step (Put a) s = log_put a s"
| "log_step Endl s = log_endl s"
| "log_step Boolalpha s = log_boolalpha s"

lemmas log_defs = log_put_def log_endl_def log_boolalpha_def write_text_def Let_def

section \<open>The loggers of the program\<close>

datatype logger = Info | Warn | Err

record logs =
  info :: log_stream
  warn :: log_stream
  err :: log_stream
  cout :: out_stream
  cerr :: out_stream

definition start_logs :: "out_stream \<Rightarrow> out_stream \<Rightarrow> logs" where
  "start_logs o1 o2 =
     \<lparr>info = LogStream ''INFO'', warn = LogStream ''WARNING'', err = LogStream ''ERROR'', cout = o1, cerr = o2\<rparr>"

fun logger_step :: "logger \<times> log_op \<Rightarrow> logs \<Rightarrow> logs" where
  "logger_step (Info, op) l = (let (ls, os) = log_step op (info l, cout l) in l\<lparr>info := ls, cout := os\<rparr>)"
| "logger_step (Warn, op) l = (let (ls, os) = log_step op (warn l, cout l) in l\<lparr>warn := ls, cout := os\<rparr>)"
| "logger_step (Err, op) l = (let (ls, os) = log_step op (err l, cerr l) in l\<lparr>err := ls, cerr := os\<rparr>)"

section \<open>A log is made of lines\<close>

text \<open>
  The abstract log of one stream: the lines finished so far and the line being written, if any.
\<close>

record line_log =
  lines :: "string list"
  open_line :: "string option"

definition line_put :: "string \<Rightarrow> string \<Rightarrow> line_log \<Rightarrow> line_log" where
  "line_put p t l =
     l\<lparr>open_line := Some ((case open_line l of None \<Rightarrow> ''[ '' @ p @ '' ] '' | Some u \<Rightarrow> u) @ t)\<rparr>"

definition line_end :: "line_log \<Rightarrow> line_log" where
  "line_end l =
     \<lparr>lines = lines l @ [case open_line l of None \<Rightarrow> [] | Some u \<Rightarrow> u], open_line = None\<rparr>"

definition log_text :: "line_log \<Rightarrow> string" where
  "log_text l = concat (map (\<lambda>t. t @ [LF]) (lines l)) @ (case open_line l of None \<Rightarrow> [] | Some u \<Rightarrow> u)"

fun line_step :: "string \<Rightarrow> log_op \<Rightarrow> bool \<times> line_log \<Rightarrow> bool \<times> line_log" where
  "line_step p (Put a) (alpha, l) = (alpha, line_put p (arg_text alpha a) l)"
| "line_step p Endl (alpha, l) = (alpha, line_end l)"
| "line_step p Boolalpha (alpha, l) = (True, l)"

text \<open>The simulation: the stream holds the text of the log, and starts a line when none is open.\<close>

definition log_sim :: "string \<Rightarrow> log_stream \<times> out_stream \<Rightarrow> bool \<times> line_log \<Rightarrow> bool" where
  "log_sim w s a \<longleftrightarrow>
     written (snd s) = w @ log_text (snd a) \<and> bool_alpha (snd s) = fst a \<and>
     (new_line (fst s) \<longleftrightarrow> open_line (snd a) = None)"

lemma log_step_prefix: "prefix_text (fst (log_step op s)) = prefix_text (fst s)"
  by (cases op; cases s) (simp_all add: log_defs)

lemma log_step_sim:
  "log_sim w s a \<Longrightarrow> log_sim w (log_step op s) (line_step (prefix_text (fst s)) op a)"
  by (cases op; cases s; cases a)
     (auto simp: log_sim_def log_defs line_put_def line_end_def log_text_def split: option.splits)

lemma log_run_sim:
  "log_sim w s a \<Longrightarrow> log_sim w (fold log_step ops s) (fold (line_step (prefix_text (fst s))) ops a)"
proof (induction ops arbitrary: s a)
  case (Cons op ops)
  then show ?case using log_step_sim [OF Cons.prems, of op] log_step_prefix [of op s] by fastforce
qed simp

lemma log_refines:
  "log_sim (written os) (fold log_step ops (LogStream p, os))
     (fold (line_step p) ops (bool_alpha os, \<lparr>lines = [], open_line = None\<rparr>))"
  using log_run_sim [of "written os" "(LogStream p, os)" "(bool_alpha os, \<lparr>lines = [], open_line = None\<rparr>)" ops]
  by (simp add: log_sim_def log_text_def LogStream_def)

section \<open>Statements of several loggers\<close>

text \<open>
  The program logs whole statements, \<open>slog::info << a << b << slog::endl\<close>. Their lines then never mix,
  although \<open>info\<close> and \<open>warn\<close> share a stream.
\<close>

definition statement :: "logger \<times> log_arg list \<Rightarrow> (logger \<times> log_op) list" where
  "statement m = map (\<lambda>a. (fst m, Put a)) (snd m) @ [(fst m, Endl)]"

fun logger_name :: "logger \<Rightarrow> string" where
  "logger_name Info = ''INFO''"
| "logger_name Warn = ''WARNING''"
| "logger_name Err = ''ERROR''"

definition statement_line :: "bool \<Rightarrow> logger \<times> log_arg list \<Rightarrow> string" where
  "statement_line alpha m =
     (if snd m = [] then [] else ''[ '' @ logger_name (fst m) @ '' ] '' @ concat (map (arg_text alpha) (snd m))) @ [LF]"

lemma log_puts:
  "fold log_step (map Put as) (ls, os) =
     (ls\<lparr>new_line := new_line ls \<and> as = []\<rparr>,
      write_text ((if new_line ls \<and> as \<noteq> [] then ''[ '' @ prefix_text ls @ '' ] '' else []) @
        concat (map (arg_text (bool_alpha os)) as)) os)"
  by (induction as arbitrary: ls os) (auto simp: log_defs)

lemma logger_ops:
  "fold logger_step (map (Pair Info) ops) l =
     (let (ls, os) = fold log_step ops (info l, cout l) in l\<lparr>info := ls, cout := os\<rparr>)"
  "fold logger_step (map (Pair Warn) ops) l =
     (let (ls, os) = fold log_step ops (warn l, cout l) in l\<lparr>warn := ls, cout := os\<rparr>)"
  "fold logger_step (map (Pair Err) ops) l =
     (let (ls, os) = fold log_step ops (err l, cerr l) in l\<lparr>err := ls, cerr := os\<rparr>)"
  by (induction ops arbitrary: l) (auto simp: case_prod_beta)

lemma statement_ops: "statement m = map (Pair (fst m)) (map Put (snd m) @ [Endl])"
  by (simp add: statement_def comp_def)

lemma statement_logged:
  "fold logger_step (statement m) (start_logs o1 o2) =
     (if fst m = Err then start_logs o1 (write_text (statement_line (bool_alpha o2) m) o2)
      else start_logs (write_text (statement_line (bool_alpha o1) m) o1) o2)"
  by (cases m; cases "fst m")
     (simp_all add: statement_ops logger_ops log_puts statement_line_def start_logs_def
       LogStream_def log_endl_def write_text_def del: map_append)

lemma statements_logged:
  "fold logger_step (concat (map statement ms)) (start_logs o1 o2) =
     start_logs
       (write_text (concat (map (statement_line (bool_alpha o1)) (filter (\<lambda>m. fst m \<noteq> Err) ms))) o1)
       (write_text (concat (map (statement_line (bool_alpha o2)) (filter (\<lambda>m. fst m = Err) ms))) o2)"
  by (induction ms arbitrary: o1 o2) (auto simp: statement_logged write_text_def)

end
