(* ===== verification/InitLog.thy ===== *)
theory InitLog
  imports PersonPipeline Slog
begin

text \<open>
  What the initialisation of the pipeline writes. \<open>init\<close> and the functions it calls once more, with the
  statements of the log between their steps; that they do the same with them, that the log consists of whole
  lines, and that it is always a first part of one fixed log, whose last line tells how far \<open>init\<close> got.
\<close>

section \<open>Programs that log\<close>

type_synonym ('s, 'a) logging = "('s \<times> logs, 'a) prog"

definition silent :: "('s, 'a) prog \<Rightarrow> ('s, 'a) logging" where
  "silent p s = (case p (fst s) of (r, t) \<Rightarrow> (r, (t, snd s)))"

text \<open>\<open>slog::info << ts[0] << ... << slog::endl\<close>, and lines written to the two standard streams.\<close>

definition say :: "string list \<Rightarrow> ('s, unit) logging" where
  "say ts = change (apsnd (fold logger_step (statement (Info, map Text ts))))"

definition write_cout :: "string \<Rightarrow> ('s, unit) logging" where
  "write_cout u = change (apsnd (cout_update (write_text (u @ [LF]))))"

definition write_cerr :: "string \<Rightarrow> logs \<Rightarrow> logs" where
  "write_cerr u = cerr_update (write_text (u @ [LF]))"

definition in_part :: "('s \<Rightarrow> 't) \<Rightarrow> (('t \<Rightarrow> 't) \<Rightarrow> 's \<Rightarrow> 's) \<Rightarrow> ('t, 'a) logging \<Rightarrow> ('s, 'a) logging" where
  "in_part get upd p s = (case p (get (fst s), snd s) of (r, (t, l)) \<Rightarrow> (r, (upd (\<lambda>_. t) (fst s), l)))"

text \<open>The versions the engine reports, and what the exceptions say.\<close>

record report_texts =
  engine_version :: string
  device_versions :: "string \<Rightarrow> string"
  error_what :: "exn \<Rightarrow> string"

section \<open>Initialisation\<close>

definition log_enabled :: "(('e, 'r, 'x) base_detection_scheme, bool) logging" where
  "log_enabled =
     bind_prog (silent (ask (\<lambda>d. enablingChecked d \<or> commandLineFlag d \<noteq> []))) (\<lambda>still.
     bind_prog (silent (ask topoName)) (\<lambda>name.
       seq_prog (if still then ret () else say [name, '' detection DISABLED'']) (silent enabled)))"

definition log_det_read :: "('e, 'r) platform \<Rightarrow> (('e, 'r) person_detection, network) logging" where
  "log_det_read P =
     seq_prog (say [''Loading network files for PersonDetection''])
     (bind_prog (silent (lift_res (ReadNetwork P person_model))) (\<lambda>n0.
     seq_prog (say [''Batch size is forced to  1''])
     (bind_prog (silent (lift_res (setBatchSize P 1 n0))) (\<lambda>n1.
     seq_prog (say [''Checking Person Detection inputs''])
       (if length (net_inputs n1) \<noteq> 1
        then raise (Logic_error ''Person Detection network should have only one input'')
        else seq_prog (silent (change (inputName_update (\<lambda>_. fst (hd (net_inputs n1))))))
         (seq_prog (say [''Checking Person Detection outputs''])
         (if length (net_outputs n1) \<noteq> 1
          then raise (Logic_error ''Person Detection network should have only one output'')
          else (let outputDims = desc_dims (port_desc (snd (hd (net_outputs n1)))) in
            seq_prog (silent (change (outputName_update (\<lambda>_. fst (hd (net_outputs n1))))))
            (bind_prog (silent (lift_res (dims_index outputDims 2))) (\<lambda>d2.
             seq_prog (silent (change (maxProposalCount_update (\<lambda>_. int_of_size d2))))
            (bind_prog (silent (lift_res (dims_index outputDims 3))) (\<lambda>d3.
             seq_prog (silent (change (objectSize_update (\<lambda>_. int_of_size d3))))
            (if int_of_size d3 \<noteq> 7 then raise (Logic_error ''Output should have 7 as a last dimension'')
             else if length outputDims \<noteq> 4 then raise (Logic_error ''Incorrect output dimensions for SSD'')
             else seq_prog (say [''Loading Person Detection model to CPU''])
               (ret (n1\<lparr>net_inputs := configure U8 NCHW (net_inputs n1),
                    net_outputs := configure FP32 NCHW (net_outputs n1)\<rparr>)))))))))))))))"

definition log_attribs_read :: "('e, 'r) platform \<Rightarrow> (('e, 'r) attribs_detection, network) logging" where
  "log_attribs_read P =
     seq_prog (say [''Loading network files for PersonAttribs''])
     (bind_prog (silent (lift_res (ReadNetwork P attribs_model))) (\<lambda>n0.
     bind_prog (silent (lift_res (setBatchSize P 1 n0))) (\<lambda>n1.
     seq_prog (say [''Batch size is forced to 1 for Person Attribs''])
     (seq_prog (say [''Checking PersonAttribs inputs''])
       (if length (net_inputs n1) \<noteq> 1
        then raise (Logic_error ''Person Attribs topology should have only one input'')
        else seq_prog (silent (change (inputName_update (\<lambda>_. fst (hd (net_inputs n1))))))
         (seq_prog (say [''Checking Person Attribs outputs''])
         (case net_outputs n1 of
            [a, t, b] \<Rightarrow>
              seq_prog (silent (change (\<lambda>d. d\<lparr>outputNameForAttributes := port_name (snd a),
                  outputNameForTopColorPoint := port_name (snd t),
                  outputNameForBottomColorPoint := port_name (snd b)\<rparr>)))
              (seq_prog (say [''Loading Person Attributes Recognition model to CPU''])
              (seq_prog (silent (change (enabled_flag_update (\<lambda>_. True))))
                (ret (n1\<lparr>net_inputs := configure U8 NCHW (net_inputs n1)\<rparr>))))
          | _ \<Rightarrow> raise (Logic_error ''Person Attribs Network expects networks having one output''))))))))"

definition log_load_into ::
  "('e, 'r) platform \<Rightarrow> (('e, 'r, 'x) base_detection_scheme, network) logging \<Rightarrow> string \<Rightarrow>
   (('e, 'r, 'x) base_detection_scheme, unit) logging" where
  "log_load_into P read deviceName =
     bind_prog log_enabled (\<lambda>on. if \<not> on then ret ()
       else bind_prog read (\<lambda>n. bind_prog (silent (lift_res (LoadNetwork P n deviceName))) (\<lambda>e.
         silent (change (net_update (\<lambda>_. Some e))))))"

definition log_load_devices ::
  "report_texts \<Rightarrow> ('e, 'r) platform \<Rightarrow> string list \<Rightarrow> string set \<Rightarrow> ('s, string set) logging" where
  "log_load_devices x P = fold_prog (\<lambda>flag loaded.
     if flag = [] \<or> flag \<in> loaded then ret loaded
     else seq_prog (say [''Loading device '', flag])
       (bind_prog (silent (lift_res (GetVersions P flag))) (\<lambda>_.
         seq_prog (write_cout (device_versions x flag)) (ret (insert flag loaded)))))"

text \<open>The two handlers; the loggers are not used there.\<close>

definition log_catch :: "report_texts \<Rightarrow> ('s, 'a) logging \<Rightarrow> 'a \<Rightarrow> ('s, 'a) logging" where
  "log_catch x p a s =
     (case p s of
        (Inl e, (t, l)) \<Rightarrow>
          (if is_std_exception e then (Inr a, (t, write_cerr (''[ ERROR ] '' @ error_what x e) l))
           else if catchable e then (Inr a, (t, write_cerr ''[ ERROR ] Unknown/internal exception happened.'' l))
           else (Inl e, (t, l)))
      | (Inr b, t) \<Rightarrow> (Inr b, t))"

definition log_init_body :: "report_texts \<Rightarrow> ('e, 'r) platform \<Rightarrow> (('e, 'r) pipeline, bool) logging" where
  "log_init_body x P =
     seq_prog (write_cout (''InferenceEngine: '' @ engine_version x))
       (bind_prog (silent (lift_res (NewCore P))) (\<lambda>ie.
        bind_prog (log_load_devices x P [''CPU'', ''CPU'', ''CPU''] {}) (\<lambda>loadedDevices.
        bind_prog (in_part personDetection personDetection_update (log_load_into P (log_det_read P) ''CPU'')) (\<lambda>_.
        bind_prog (in_part personAttribs personAttribs_update (log_load_into P (log_attribs_read P) ''CPU'')) (\<lambda>_.
          ret True)))))"

definition log_init :: "report_texts \<Rightarrow> ('e, 'r) platform \<Rightarrow> (('e, 'r) pipeline, bool) logging" where
  "log_init x P = log_catch x (log_init_body x P) False"

section \<open>The log follows the initialisation\<close>

text \<open>
  Started in \<open>s\<close>, the logging program does what the silent one does, and adds to the log the first of the
  lines \<open>ls\<close>: all of them when it returns.
\<close>

definition line_of :: "string list \<Rightarrow> string" where
  "line_of ts = statement_line True (Info, map Text ts)"

definition log_after :: "string list \<Rightarrow> out_stream \<Rightarrow> out_stream \<Rightarrow> logs" where
  "log_after ls o1 o2 = start_logs (write_text (concat ls) o1) o2"

definition logged :: "'s \<Rightarrow> ('s, 'a) logging \<Rightarrow> ('s, 'a) prog \<Rightarrow> string list \<Rightarrow> bool" where
  "logged s p q ls \<longleftrightarrow>
     (\<exists>k. (\<forall>o1 o2. p (s, start_logs o1 o2) = (fst (q s), (snd (q s), log_after (take k ls) o1 o2))) \<and>
       (\<forall>a. fst (q s) = Inr a \<longrightarrow> take k ls = ls))"

lemma write_text_simps [simp]: "write_text [] o1 = o1" "write_text v (write_text u o1) = write_text (u @ v) o1"
  by (simp_all add: write_text_def)

lemma log_after_log_after: "log_after ls' (write_text (concat ls) o1) o2 = log_after (ls @ ls') o1 o2"
  by (simp add: log_after_def)

lemma say_line: "say ts (s, start_logs o1 o2) = (Inr (), (s, log_after [line_of ts] o1 o2))"
proof -
  have "statement_line b (Info, map Text ts) = line_of ts" for b
    by (simp add: line_of_def statement_line_def comp_def)
  then show ?thesis by (simp add: say_def change_def statement_logged log_after_def)
qed

lemma cout_line: "write_cout u (s, log_after ls o1 o2) = (Inr (), (s, log_after (ls @ [u @ [LF]]) o1 o2))"
  by (simp add: write_cout_def change_def log_after_def start_logs_def)

lemma cerr_line: "write_cerr u (log_after ls o1 o2) = start_logs (write_text (concat ls) o1) (write_text (u @ [LF]) o2)"
  by (simp add: write_cerr_def log_after_def start_logs_def)

lemma logged_silent: "logged s (silent q) q []"
  by (simp add: logged_def silent_def log_after_def split: prod.split)

lemma logged_raise: "logged s (raise e) (raise e) ls"
  by (auto simp: logged_def raise_def log_after_def intro: exI [of _ 0])

lemma logged_ret: "logged s (ret a) (ret a) []"
  by (simp add: logged_def ret_def log_after_def)

lemma logged_bind:
  assumes "logged s p q ls" and "\<And>a t. q s = (Inr a, t) \<Longrightarrow> logged t (f a) (g a) ls'"
  shows "logged s (bind_prog p f) (bind_prog q g) (ls @ ls')"
proof -
  obtain k where k: "\<And>o1 o2. p (s, start_logs o1 o2) = (fst (q s), (snd (q s), log_after (take k ls) o1 o2))"
    "\<And>a. fst (q s) = Inr a \<Longrightarrow> take k ls = ls" using assms(1) unfolding logged_def by blast
  show ?thesis
  proof (cases "q s")
    case (Pair r t)
    show ?thesis
    proof (cases r)
      case (Inl e)
      have "take (min k (length ls)) (ls @ ls') = take k ls" by (simp add: min_def)
      then show ?thesis using k(1) Pair Inl unfolding logged_def
        by (intro exI [of _ "min k (length ls)"]) (simp add: bind_prog_def)
    next
      case (Inr a)
      have full: "take k ls = ls" using k(2) Pair Inr by simp
      have "logged t (f a) (g a) ls'" using assms(2) Pair Inr by simp
      then obtain k' where k': "\<And>o1 o2. f a (t, start_logs o1 o2) = (fst (g a t), (snd (g a t), log_after (take k' ls') o1 o2))"
        "\<And>b. fst (g a t) = Inr b \<Longrightarrow> take k' ls' = ls'" unfolding logged_def by blast
      have "bind_prog p f (s, start_logs o1 o2) =
          (fst (g a t), (snd (g a t), log_after (take (length ls + k') (ls @ ls')) o1 o2))" for o1 o2
        using k(1) Pair Inr full k'(1) [of "write_text (concat ls) o1" o2]
        by (simp add: bind_prog_def log_after_def)
      then show ?thesis using Pair Inr k'(2) unfolding logged_def
        by (intro exI [of _ "length ls + k'"]) (auto simp: bind_prog_def)
    qed
  qed
qed

named_theorems logging \<open>how programs log\<close>

lemma logged_line:
  assumes "\<And>o1 o2. w (s, start_logs o1 o2) = (Inr (), (s, log_after [l] o1 o2))" and "logged s p q ls"
  shows "logged s (seq_prog w p) q (l # ls)"
proof -
  have "logged s w (ret ()) [l]"
    unfolding logged_def ret_def by (rule exI [of _ 1]) (simp add: assms(1))
  from logged_bind [OF this, of "\<lambda>_. p" "\<lambda>_. q" ls] assms(2) show ?thesis
    by (simp add: seq_prog_def ret_def)
qed

lemma logged_say [logging]: "logged s p q ls \<Longrightarrow> logged s (seq_prog (say ts) p) q (line_of ts # ls)"
  by (rule logged_line [OF say_line])

lemma logged_cout [logging]: "logged s p q ls \<Longrightarrow> logged s (seq_prog (write_cout u) p) q ((u @ [LF]) # ls)"
  by (rule logged_line) (simp_all add: write_cout_def change_def log_after_def start_logs_def)

lemma logged_silent_bind [logging]:
  "(\<And>a t. q s = (Inr a, t) \<Longrightarrow> logged t (f a) (g a) ls) \<Longrightarrow> logged s (bind_prog (silent q) f) (bind_prog q g) ls"
  using logged_bind [OF logged_silent, of q s f g ls] by simp

lemma logged_silent_seq [logging]:
  "(\<And>t. q s = (Inr (), t) \<Longrightarrow> logged t p p' ls) \<Longrightarrow> logged s (seq_prog (silent q) p) (seq_prog q p') ls"
  unfolding seq_prog_def by (rule logged_silent_bind) simp

lemma logged_if [logging]:
  "(c \<Longrightarrow> logged s p q ls) \<Longrightarrow> (\<not> c \<Longrightarrow> logged s p' q' ls) \<Longrightarrow> logged s (if c then p else p') (if c then q else q') ls"
  by simp

lemma logged_let [logging]: "logged s (p v) (q v) ls \<Longrightarrow> logged s (let x = v in p x) (let x = v in q x) ls"
  by simp

lemmas [logging] = logged_raise logged_ret logged_silent

lemma logged_part:
  assumes "logged (get s) p q ls"
  shows "logged s (in_part get upd p) (on_part get upd q) ls"
proof -
  obtain k where "\<And>o1 o2. p (get s, start_logs o1 o2) =
      (fst (q (get s)), (snd (q (get s)), log_after (take k ls) o1 o2))"
    "\<And>a. fst (q (get s)) = Inr a \<Longrightarrow> take k ls = ls" using assms unfolding logged_def by blast
  then show ?thesis unfolding logged_def in_part_def on_part_def
    by (intro exI [of _ k]) (simp add: case_prod_beta)
qed

definition det_log :: "string list" where
  "det_log = map (\<lambda>t. line_of [t])
     [''Loading network files for PersonDetection'', ''Batch size is forced to  1'',
      ''Checking Person Detection inputs'', ''Checking Person Detection outputs'',
      ''Loading Person Detection model to CPU'']"

lemma det_read_logged: "logged d (log_det_read P) (det_read P) det_log"
  unfolding log_det_read_def det_read_def det_log_def list.map by (intro logging)

definition attribs_log :: "string list" where
  "attribs_log = map (\<lambda>t. line_of [t])
     [''Loading network files for PersonAttribs'', ''Batch size is forced to 1 for Person Attribs'',
      ''Checking PersonAttribs inputs'', ''Checking Person Attribs outputs'',
      ''Loading Person Attributes Recognition model to CPU'']"

lemma change_twice: "seq_prog (change f) (seq_prog (change g) p) = seq_prog (change (g \<circ> f)) p"
  by (simp add: seq_prog_def change_def bind_prog_def fun_eq_iff)

lemma attribs_read_logged: "logged d (log_attribs_read P) (attribs_read P) attribs_log"
proof -
  have split: "seq_prog (change (\<lambda>d. d\<lparr>outputNameForAttributes := u, outputNameForTopColorPoint := v,
        outputNameForBottomColorPoint := w, enabled_flag := True\<rparr>)) p =
      seq_prog (change (\<lambda>d. d\<lparr>outputNameForAttributes := u, outputNameForTopColorPoint := v,
        outputNameForBottomColorPoint := w\<rparr>)) (seq_prog (change (enabled_flag_update (\<lambda>_. True))) p)"
    for u v w and p :: "(('e, 'r) attribs_detection, network) prog"
    by (simp add: change_twice comp_def)
  show ?thesis
    unfolding log_attribs_read_def attribs_read_def attribs_log_def list.map split
    by (intro logging) (auto split: list.split intro!: logging)
qed

lemma enabled_logged: "switched_on d \<Longrightarrow> logged d log_enabled enabled []"
  by (auto simp: logged_def log_enabled_def silent_def ask_def ret_def seq_prog_def bind_prog_def enabled_on
      log_after_def switched_on_def)

lemma load_into_logged:
  assumes "switched_on d" and "\<And>d. logged d lread read ls"
  shows "logged d (log_load_into P lread dev) (load_into P read dev) ls"
proof -
  have "logged t (bind_prog lread (\<lambda>n. bind_prog (silent (lift_res (LoadNetwork P n dev))) (\<lambda>e.
        silent (change (net_update (\<lambda>_. Some e))))))
      (bind_prog read (\<lambda>n. bind_prog (lift_res (LoadNetwork P n dev)) (\<lambda>e. change (net_update (\<lambda>_. Some e))))) (ls @ [])" for t
    by (rule logged_bind [OF assms(2)]) (intro logging)
  then have "logged d (log_load_into P lread dev) (load_into P read dev) ([] @ ls)"
    unfolding log_load_into_def load_into_def
    by (intro logged_bind [OF enabled_logged [OF assms(1)]]) (simp add: enabled_on [OF assms(1)])
  then show ?thesis by simp
qed

definition device_log :: "report_texts \<Rightarrow> string list" where
  "device_log x = [line_of [''Loading device '', ''CPU''], device_versions x ''CPU'' @ [LF]]"

lemma load_devices_logged:
  "logged s (log_load_devices x P [''CPU'', ''CPU'', ''CPU''] {})
     (lift_res (load_devices P [''CPU'', ''CPU'', ''CPU''] {})) (device_log x)"
proof -
  note defs = log_load_devices_def load_devices_def seq_prog_def bind_prog_def say_line silent_def lift_res_def ret_def
    cout_line
  show ?thesis
  proof (cases "GetVersions P ''CPU''")
    case (Inl e)
    have "log_load_devices x P [''CPU'', ''CPU'', ''CPU''] {} (s, start_logs o1 o2) =
        (Inl e, (s, log_after [line_of [''Loading device '', ''CPU'']] o1 o2))" for o1 o2
      using Inl by (simp add: defs)
    then show ?thesis using Inl unfolding logged_def by (intro exI [of _ 1]) (simp add: defs device_log_def)
  next
    case (Inr u)
    have "log_load_devices x P [''CPU'', ''CPU'', ''CPU''] {} (s, start_logs o1 o2) =
        (Inr {''CPU''}, (s, log_after (device_log x) o1 o2))" for o1 o2
      using Inr by (simp add: defs device_log_def)
    then show ?thesis using Inr unfolding logged_def by (intro exI [of _ 2]) (simp add: defs device_log_def)
  qed
qed

definition init_log :: "report_texts \<Rightarrow> string list" where
  "init_log x = [''InferenceEngine: '' @ engine_version x @ [LF]] @ device_log x @ det_log @ attribs_log"

definition init_body :: "('e, 'r) platform \<Rightarrow> (('e, 'r) pipeline, bool) prog" where
  "init_body P =
     bind_prog (lift_res (NewCore P)) (\<lambda>ie.
     bind_prog (lift_res (load_devices P [''CPU'', ''CPU'', ''CPU''] {})) (\<lambda>loadedDevices.
     bind_prog (on_detection (load_into P (det_read P) ''CPU'')) (\<lambda>_.
     bind_prog (on_attribs (load_into P (attribs_read P) ''CPU'')) (\<lambda>_. ret True))))"

lemma init_body_logged:
  assumes "switched_on (personDetection pl)" and "switched_on (personAttribs pl)"
  shows "logged pl (log_init_body x P) (init_body P) (init_log x)"
proof -
  have det: "logged pl (in_part personDetection personDetection_update (log_load_into P (log_det_read P) ''CPU''))
      (on_detection (load_into P (det_read P) ''CPU'')) det_log"
    unfolding on_detection_def by (intro logged_part load_into_logged assms(1) det_read_logged)
  have attribs: "logged t (bind_prog (in_part personAttribs personAttribs_update (log_load_into P (log_attribs_read P) ''CPU''))
        (\<lambda>_. ret True)) (bind_prog (on_attribs (load_into P (attribs_read P) ''CPU'')) (\<lambda>_. ret True)) (attribs_log @ [])"
    if "personAttribs t = personAttribs pl" for t
    unfolding on_attribs_def
    by (intro logged_bind logged_part load_into_logged attribs_read_logged logged_ret) (simp add: that assms(2))
  have kept: "personAttribs t = personAttribs pl" if "on_detection q pl = (Inr a, t)" for q t and a :: unit
    using that by (auto simp: on_detection_def on_part_def split: prod.splits)
  have "logged pl (bind_prog (silent (lift_res (NewCore P))) (\<lambda>ie.
        bind_prog (log_load_devices x P [''CPU'', ''CPU'', ''CPU''] {}) (\<lambda>loadedDevices.
        bind_prog (in_part personDetection personDetection_update (log_load_into P (log_det_read P) ''CPU'')) (\<lambda>_.
        bind_prog (in_part personAttribs personAttribs_update (log_load_into P (log_attribs_read P) ''CPU'')) (\<lambda>_.
          ret True))))) (init_body P) ([] @ (device_log x @ (det_log @ (attribs_log @ []))))"
    unfolding init_body_def
    by (rule logged_bind [OF logged_silent], rule logged_bind, (simp only: lift_res_def prod.inject)?,
        rule load_devices_logged, rule logged_bind)
      (auto simp: lift_res_def intro: det attribs [simplified] kept)
  from logged_cout [OF this, of "''InferenceEngine: '' @ engine_version x"] show ?thesis
    by (simp add: init_log_def log_init_body_def)
qed

lemma std_exception_catchable: "is_std_exception e \<Longrightarrow> catchable e"
  by (cases e) simp_all

text \<open>
  C38: on a pipeline whose detections are switched on, as a new one is, the initialisation with its log does
  what it does without; the loggers are at the start of a line afterwards; \<open>std::cout\<close> has got a first part
  of the fixed list of lines that names the steps, all of them when it returns true, and \<open>std::cerr\<close> one
  line when it returns false and nothing otherwise.
\<close>
theorem init_logged:
  assumes "switched_on (personDetection pl)" and "switched_on (personAttribs pl)"
  shows "\<exists>k e. (\<forall>o1 o2. log_init x P (pl, start_logs o1 o2) =
      (fst (init P pl), (snd (init P pl),
        start_logs (write_text (concat (take k (init_log x))) o1) (write_text e o2)))) \<and>
    (fst (init P pl) = Inr True \<longrightarrow> take k (init_log x) = init_log x) \<and>
    (e \<noteq> [] \<longleftrightarrow> fst (init P pl) = Inr False) \<and>
    (e \<noteq> [] \<longrightarrow> (\<exists>t. e = ''[ ERROR ] '' @ t @ [LF]))"
proof -
  obtain k where k: "\<And>o1 o2. log_init_body x P (pl, start_logs o1 o2) =
      (fst (init_body P pl), (snd (init_body P pl), log_after (take k (init_log x)) o1 o2))"
    "\<And>a. fst (init_body P pl) = Inr a \<Longrightarrow> take k (init_log x) = init_log x"
    using init_body_logged [OF assms, of x P] unfolding logged_def by blast
  have init: "init P pl = catch_all (init_body P) (\<lambda>_. False) pl" by (simp add: init_def init_body_def)
  show ?thesis
  proof (cases "fst (init_body P pl)")
    case (Inl e)
    let ?e = "if is_std_exception e then ''[ ERROR ] '' @ error_what x e @ [LF]
      else if catchable e then ''[ ERROR ] Unknown/internal exception happened.'' @ [LF] else []"
    have log: "log_init x P (pl, start_logs o1 o2) =
        (if catchable e then Inr False else Inl e, (snd (init_body P pl),
          start_logs (write_text (concat (take k (init_log x))) o1) (write_text ?e o2)))" for o1 o2
      using std_exception_catchable [of e]
      by (simp add: log_init_def log_catch_def k(1) Inl cerr_line) (simp add: log_after_def)
    have "init P pl = (if catchable e then Inr False else Inl e, snd (init_body P pl))"
      using Inl by (simp add: init catch_all_def case_prod_beta)
    then show ?thesis using log std_exception_catchable [of e]
      by (intro exI [of _ k] exI [of _ ?e]) auto
  next
    case (Inr b)
    then have "b = True" by (auto simp: init_body_def bind_prog_def ret_def split: prod.splits sum.splits)
    then show ?thesis using k Inr
      by (intro exI [of _ k] exI [of _ "[]"])
         (simp add: log_init_def log_catch_def init catch_all_def log_after_def case_prod_beta split: sum.split)
  qed
qed

definition demo_report :: report_texts where
  "demo_report = \<lparr>engine_version = ''2.1'', device_versions = (\<lambda>d. d), error_what = (\<lambda>_. [])\<rparr>"

definition empty_stream :: out_stream where
  "empty_stream = \<lparr>written = [], bool_alpha = False\<rparr>"

lemma new_switched_on:
  "switched_on (personDetection (new_pipeline :: ('e, 'r) pipeline))"
  "switched_on (personAttribs (new_pipeline :: ('e, 'r) pipeline))"
  by (simp_all add: new_pipeline_def switched_on_def PersonDetection_def PersonAttribsDetection_def person_model_def
      attribs_model_def)

theorem init_logged_witness:
  "log_init demo_report (demo_platform demo_table) (new_pipeline, start_logs empty_stream empty_stream) =
    (Inr True, (demo_pipeline, start_logs (write_text (concat (init_log demo_report)) empty_stream) empty_stream)) \<and>
   take 55 (concat (init_log demo_report)) = ''InferenceEngine: 2.1'' @ [LF] @ ''[ INFO ] Loading device CPU'' @ [LF] @ ''CPU'' @ [LF] @ ''[ ''"
proof (rule conjI)
  from init_logged [OF new_switched_on, of demo_report "demo_platform demo_table"]
  show "log_init demo_report (demo_platform demo_table) (new_pipeline, start_logs empty_stream empty_stream) =
    (Inr True, (demo_pipeline, start_logs (write_text (concat (init_log demo_report)) empty_stream) empty_stream))"
    unfolding demo_init by auto
  show "take 55 (concat (init_log demo_report)) = ''InferenceEngine: 2.1'' @ [LF] @ ''[ INFO ] Loading device CPU'' @ [LF] @ ''CPU'' @ [LF] @ ''[ ''"
    by (simp add: init_log_def device_log_def demo_report_def line_of_def statement_line_def det_log_def)
qed

end
