(* ===== verification/ClientConsole.thy ===== *)
theory ClientConsole
  imports Client
begin

text \<open>
  The client as its user sees it: \<open>Client\<close> once more with everything that is written to \<open>std::cout\<close> and
  \<open>std::cerr\<close>, and the status of the process. That the messages change nothing else is proved, and what
  they tell.
\<close>

section \<open>Programs that print\<close>

record terminal =
  out_text :: string
  err_text :: string

type_synonym 'a printer = "terminal \<Rightarrow> 'a outcome \<times> terminal"

definition quiet :: "'a outcome \<Rightarrow> 'a printer" where
  "quiet r t = (r, t)"

definition print_out :: "string \<Rightarrow> 'a printer \<Rightarrow> 'a printer" where
  "print_out s p t = p (t\<lparr>out_text := out_text t @ s\<rparr>)"

definition print_err :: "string \<Rightarrow> 'a printer \<Rightarrow> 'a printer" where
  "print_err s p t = p (t\<lparr>err_text := err_text t @ s\<rparr>)"

definition bind_printer :: "'a printer \<Rightarrow> ('a \<Rightarrow> 'b printer) \<Rightarrow> 'b printer" where
  "bind_printer p f t =
     (case p t of
        (Returned a, t') \<Rightarrow> f a t'
      | (Exited, t') \<Rightarrow> (Exited, t')
      | (Diverges, t') \<Rightarrow> (Diverges, t')
      | (Throws k, t') \<Rightarrow> (Throws k, t')
      | (Crashed, t') \<Rightarrow> (Crashed, t'))"

text \<open>
  The texts the client does not make itself: the help and what the exceptions say.
\<close>

record texts =
  help_text :: string
  exists_what :: "string \<Rightarrow> string"
  regular_what :: "string \<Rightarrow> string"
  exception_what :: "std_exception \<Rightarrow> string"

section \<open>The client, printing\<close>

definition say_invalid :: "texts \<Rightarrow> filesystem \<Rightarrow> string \<Rightarrow> bool printer" where
  "say_invalid x fs f =
     (case fs_exists fs f of
        None \<Rightarrow> print_err (''Encountered an error of '' @ exists_what x f @ '' upon opening '' @ f @ [LF]) (quiet (Returned False))
      | Some False \<Rightarrow> print_err (''Path '' @ f @ '' does not exist'' @ [LF]) (quiet (Returned False))
      | Some True \<Rightarrow>
          (case fs_regular fs f of
             None \<Rightarrow> print_err (''Encountered an error of '' @ regular_what x f @ '' upon opening '' @ f @ [LF])
               (quiet (Returned False))
           | Some False \<Rightarrow> print_err (''File '' @ f @ ''is not a regular file!'' @ [LF]) (quiet (Returned False))
           | Some True \<Rightarrow> quiet (Returned True)))"

primrec say_invalid_files :: "texts \<Rightarrow> filesystem \<Rightarrow> string list \<Rightarrow> bool printer" where
  "say_invalid_files x fs [] = quiet (Returned True)"
| "say_invalid_files x fs (f # fs') =
     bind_printer (say_invalid x fs f) (\<lambda>ok. if ok then say_invalid_files x fs fs' else quiet (Returned False))"

definition say_formRequest :: "texts \<Rightarrow> filesystem \<Rightarrow> string list \<Rightarrow> RequestType \<Rightarrow> client_request printer" where
  "say_formRequest x fs filePath type =
     (if type = Person then
        (if filePath = [] then print_err (''File path is empty!'' @ [LF]) (quiet (Returned Request_default))
         else bind_printer (say_invalid_files x fs filePath) (\<lambda>valid.
           quiet (Returned (if valid then Request_of filePath type else Request_default))))
      else if type = History then quiet (Returned (Request_of filePath type))
      else quiet (Returned Request_default))"

primrec say_file_parts :: "texts \<Rightarrow> filesystem \<Rightarrow> string list \<Rightarrow> string printer" where
  "say_file_parts x fs [] = quiet (Returned [])"
| "say_file_parts x fs (f # fs') =
     (case fs_read fs f of
        Cannot_open \<Rightarrow> print_err (''Unable to open file!'' @ [LF]) (quiet Exited)
      | No_buffer \<Rightarrow> quiet (Throws From_buffer)
      | Cannot_read \<Rightarrow> print_err (''Error reading contents!'' @ [LF]) (quiet Exited)
      | Contents bytes \<Rightarrow>
          (case base64_encode bytes False of
             None \<Rightarrow> quiet Diverges
           | Some base64 \<Rightarrow>
               bind_printer (say_file_parts x fs fs') (\<lambda>rest.
                 quiet (Returned (file_part (fs_filename fs f) base64 @ rest)))))"

definition say_predict_body :: "texts \<Rightarrow> filesystem \<Rightarrow> string list \<Rightarrow> string printer" where
  "say_predict_body x fs files =
     bind_printer (say_file_parts x fs files) (\<lambda>parts.
       quiet (Returned (parts @ ''--77580b83-390b-4c34-8393-4eac360c7b42--'' @ CRLF)))"

definition say_try_request :: "texts \<Rightarrow> filesystem \<Rightarrow> network \<Rightarrow> client_request \<Rightarrow> string printer" where
  "say_try_request x fs n req =
     (if \<not> connects n then quiet (Throws From_connect)
      else
        (case request_type req of
           Inl _ \<Rightarrow> quiet Crashed
         | Inr Person \<Rightarrow>
             (case request_filePath req of
                Inl _ \<Rightarrow> quiet Crashed
              | Inr files \<Rightarrow>
                  bind_printer (say_predict_body x fs files) (\<lambda>body.
                    quiet (exchange_result (transfer n (predict_message body)))))
         | Inr History \<Rightarrow> quiet (exchange_result (transfer n history_message))
         | Inr _ \<Rightarrow> quiet Crashed))"

text \<open>The handler of \<open>sendRequest\<close>.\<close>

definition say_caught :: "texts \<Rightarrow> string printer \<Rightarrow> string printer" where
  "say_caught x p t =
     (case p t of
        (Throws k, t') \<Rightarrow> print_err (''Exception: '' @ exception_what x k @ [LF]) (quiet (Returned '''')) t'
      | r \<Rightarrow> r)"

definition say_sendRequest :: "texts \<Rightarrow> filesystem \<Rightarrow> network \<Rightarrow> client_request \<Rightarrow> string printer" where
  "say_sendRequest x fs n req = say_caught x (say_try_request x fs n req)"

definition say_with_images :: "variables_map \<Rightarrow> sisdOption \<Rightarrow> sisdOption printer" where
  "say_with_images vm ret =
     (if opt_type ret = Predict then
        (case vm_image vm of
           Some is \<Rightarrow> quiet (Returned (ret\<lparr>images := is\<rparr>))
         | None \<Rightarrow> print_err (''Predict request requires at least 1 input image! Exit'' @ [LF]) (quiet Exited))
      else quiet (Returned ret))"

definition say_options :: "texts \<Rightarrow> variables_map \<Rightarrow> sisdOption printer" where
  "say_options x vm =
     (if vm_help vm then print_out (help_text x @ [LF]) (quiet Exited)
      else
        (case vm_type vm of
           Some t \<Rightarrow>
             (if t = ''predict'' then say_with_images vm \<lparr>opt_type = Predict, images = []\<rparr>
              else if t = ''history'' then say_with_images vm \<lparr>opt_type = HistoryOpt, images = []\<rparr>
              else print_out (''Invalid request type. Value could be predict or history. Exit'' @ [LF]) (quiet Exited))
         | None \<Rightarrow>
             print_out (''Request type unset. Defaults to predict'' @ [LF])
               (say_with_images vm \<lparr>opt_type = Predict, images = []\<rparr>)))"

definition say_parseArguments :: "texts \<Rightarrow> variables_map option \<Rightarrow> sisdOption printer" where
  "say_parseArguments x args = (case args of None \<Rightarrow> quiet Crashed | Some vm \<Rightarrow> say_options x vm)"

text \<open>From the request on.\<close>

definition say_rest :: "texts \<Rightarrow> filesystem \<Rightarrow> network \<Rightarrow> client_request \<Rightarrow> nat printer" where
  "say_rest x fs n req =
     (case request_bool req of
        Inl _ \<Rightarrow> quiet Crashed
      | Inr valid \<Rightarrow>
          (if \<not> valid then print_err (''Not a valid request!'' @ [LF]) (quiet Exited)
           else bind_printer (say_sendRequest x fs n req) (\<lambda>response.
             print_out (''Response received is '' @ [LF])
               (print_out (response @ [LF]) (quiet (Returned 0))))))"

definition say_main :: "texts \<Rightarrow> filesystem \<Rightarrow> network \<Rightarrow> variables_map option \<Rightarrow> nat printer" where
  "say_main x fs n vm =
     bind_printer (say_parseArguments x vm) (\<lambda>opt.
       bind_printer (say_formRequest x fs (images opt) (if opt_type opt = Predict then Person else History))
         (say_rest x fs n))"

text \<open>How the process ends: \<open>exit(0)\<close> as well as a return from \<open>main\<close> give a status.\<close>

definition exit_code :: "nat outcome \<Rightarrow> nat option" where
  "exit_code r = (case r of Returned k \<Rightarrow> Some k | Exited \<Rightarrow> Some 0 | _ \<Rightarrow> None)"

section \<open>The messages change nothing\<close>

text \<open>
  A printing program does what the silent one does, on every terminal, and adds to it what depends on the
  outcome alone.
\<close>

definition prints :: "'a printer \<Rightarrow> 'a outcome \<Rightarrow> string \<Rightarrow> string \<Rightarrow> bool" where
  "prints p r s e \<longleftrightarrow> (\<forall>t. p t = (r, \<lparr>out_text = out_text t @ s, err_text = err_text t @ e\<rparr>))"

named_theorems printing \<open>what programs print\<close>

lemma prints_quiet [printing]: "prints (quiet r) r [] []"
  by (simp add: prints_def quiet_def)

lemma prints_out [printing]: "prints p r s e \<Longrightarrow> prints (print_out u p) r (u @ s) e"
  by (simp add: prints_def print_out_def)

lemma prints_err [printing]: "prints p r s e \<Longrightarrow> prints (print_err u p) r s (u @ e)"
  by (simp add: prints_def print_err_def)

lemma prints_last [simp]: "prints (quiet r) r [] []" "prints (print_out u (quiet r)) r u []" "prints (print_err u (quiet r)) r [] u"
  by (simp_all add: prints_def quiet_def print_out_def print_err_def)

lemma prints_bind:
  "prints p (Returned a) s e \<Longrightarrow> prints (f a) r s' e' \<Longrightarrow> prints (bind_printer p f) r (s @ s') (e @ e')"
  "prints p Exited s e \<Longrightarrow> prints (bind_printer p f) Exited s e"
  "prints p Diverges s e \<Longrightarrow> prints (bind_printer p f) Diverges s e"
  "prints p Crashed s e \<Longrightarrow> prints (bind_printer p f) Crashed s e"
  "prints p (Throws k) s e \<Longrightarrow> prints (bind_printer p f) (Throws k) s e"
  by (simp_all add: prints_def bind_printer_def)

lemma prints_then_quiet: "prints p r s e \<Longrightarrow> prints (bind_printer p (\<lambda>a. quiet (g a))) (bind_outcome r g) s e"
  by (cases r) (simp_all add: prints_def bind_printer_def quiet_def)

lemma say_invalid_prints: "\<exists>e. prints (say_invalid x fs f) (Returned (valid_file fs f)) [] e \<and> (e = [] \<longleftrightarrow> valid_file fs f)"
  unfolding say_invalid_def valid_file_def
  by (cases "fs_exists fs f"; cases "fs_regular fs f") (auto split: bool.split intro: printing exI)

lemma say_invalid_files_prints:
  "\<exists>e. prints (say_invalid_files x fs files) (Returned (valid_files fs files)) [] e \<and> (e = [] \<longleftrightarrow> valid_files fs files)"
proof (induction files)
  case Nil
  show ?case by (auto intro: printing)
next
  case (Cons f files)
  obtain e where e: "prints (say_invalid x fs f) (Returned (valid_file fs f)) [] e" "e = [] \<longleftrightarrow> valid_file fs f"
    using say_invalid_prints by blast
  obtain e' where e': "prints (say_invalid_files x fs files) (Returned (valid_files fs files)) [] e'"
    "e' = [] \<longleftrightarrow> valid_files fs files"
    using Cons.IH by blast
  have "prints (if valid_file fs f then say_invalid_files x fs files else quiet (Returned False))
      (Returned (valid_files fs (f # files))) [] (if valid_file fs f then e' else [])"
    using e'(1) by (simp add: prints_quiet)
  from prints_bind(1) [OF e(1), where f = "\<lambda>ok. if ok then say_invalid_files x fs files else quiet (Returned False)", OF this]
  show ?case using e(2) e'(2) by (auto simp del: valid_files.simps) auto
qed

lemma say_formRequest_prints:
  assumes "type = Person \<or> type = History"
  shows "\<exists>e. prints (say_formRequest x fs files type) (Returned (formRequest fs files type)) [] e \<and>
    (e = [] \<longleftrightarrow> request_bool (formRequest fs files type) = Inr True)"
proof (cases "type = Person \<and> files \<noteq> []")
  case True
  obtain e where e: "prints (say_invalid_files x fs files) (Returned (valid_files fs files)) [] e"
    "e = [] \<longleftrightarrow> valid_files fs files"
    using say_invalid_files_prints by blast
  let ?g = "\<lambda>v. Returned (if v then Request_of files Person else Request_default)"
  have "prints (say_formRequest x fs files type) (bind_outcome (Returned (valid_files fs files)) ?g) [] e"
    using prints_then_quiet [OF e(1), of ?g] True unfolding say_formRequest_def by (simp only: if_True if_False simp_thms)
  then show ?thesis using True e(2)
    by (auto simp: formRequest_def request_bool_def Request_of_def Request_default_def)
next
  case False
  then show ?thesis using assms
    by (auto simp: say_formRequest_def formRequest_def request_bool_def Request_of_def Request_default_def
        intro!: exI [of _ "''File path is empty!'' @ [LF]"])
qed

lemma say_file_parts_prints:
  "\<exists>e. prints (say_file_parts x fs files) (file_parts fs files) [] e \<and> (e = [] \<longleftrightarrow> file_parts fs files \<noteq> Exited)"
proof (induction files)
  case Nil
  show ?case by (auto intro: printing)
next
  case (Cons f files)
  obtain e where e: "prints (say_file_parts x fs files) (file_parts fs files) [] e" "e = [] \<longleftrightarrow> file_parts fs files \<noteq> Exited"
    using Cons.IH by blast
  show ?case
  proof (cases "fs_read fs f")
    case Cannot_open
    show ?thesis by (rule exI [of _ "''Unable to open file!'' @ [LF]"]) (simp add: Cannot_open)
  next
    case Cannot_read
    show ?thesis by (rule exI [of _ "''Error reading contents!'' @ [LF]"]) (simp add: Cannot_read)
  next
    case No_buffer
    then show ?thesis by (auto intro: printing)
  next
    case (Contents bytes)
    show ?thesis
    proof (cases "base64_encode bytes False")
      case None
      then show ?thesis using Contents by (auto intro: printing)
    next
      case b: (Some b64)
      let ?g = "\<lambda>rest. Returned (file_part (fs_filename fs f) b64 @ rest)"
      have "prints (say_file_parts x fs (f # files)) (bind_outcome (file_parts fs files) ?g) [] e"
        using Contents b prints_then_quiet [OF e(1), of ?g] by simp
      then show ?thesis using Contents b e(2) by (cases "file_parts fs files") auto
    qed
  qed
qed

lemma say_predict_body_prints:
  "\<exists>e. prints (say_predict_body x fs files) (predict_body fs files) [] e \<and> (e = [] \<longleftrightarrow> predict_body fs files \<noteq> Exited)"
proof -
  obtain e where e: "prints (say_file_parts x fs files) (file_parts fs files) [] e"
    "e = [] \<longleftrightarrow> file_parts fs files \<noteq> Exited" using say_file_parts_prints by blast
  show ?thesis using prints_then_quiet [OF e(1)] e(2)
    unfolding say_predict_body_def predict_body_def by (cases "file_parts fs files") fastforce+
qed

lemma say_try_request_prints:
  "\<exists>e. prints (say_try_request x fs n req) (try_request fs n req) [] e \<and> (e = [] \<longleftrightarrow> try_request fs n req \<noteq> Exited)"
proof (cases "connects n \<and> req \<noteq> None")
  case False
  then show ?thesis
    by (cases req) (auto simp: say_try_request_def try_request_def request_type_def intro: prints_quiet)
next
  case True
  then obtain i where i: "req = Some i" by (cases req) auto
  have goes_on: "exchange_result r \<noteq> Exited" for r by (simp add: exchange_result_def split: exchange.split)
  show ?thesis
  proof (cases "m_type i = Person")
    case False
    then show ?thesis using True i goes_on
      by (cases "m_type i")
         (auto simp: say_try_request_def try_request_def request_type_def intro: prints_quiet)
  next
    case person: True
    let ?g = "\<lambda>body. exchange_result (transfer n (predict_message body))"
    obtain e where e: "prints (say_predict_body x fs (m_filenames i)) (predict_body fs (m_filenames i)) [] e"
      "e = [] \<longleftrightarrow> predict_body fs (m_filenames i) \<noteq> Exited" using say_predict_body_prints by blast
    have "say_try_request x fs n req = bind_printer (say_predict_body x fs (m_filenames i)) (\<lambda>b. quiet (?g b))"
      "try_request fs n req = bind_outcome (predict_body fs (m_filenames i)) ?g"
      using True i person by (simp_all add: say_try_request_def try_request_def request_type_def request_filePath_def)
    then show ?thesis using prints_then_quiet [OF e(1), of ?g] e(2) goes_on
      by (cases "predict_body fs (m_filenames i)") auto
  qed
qed

text \<open>The exception that is caught, if one is.\<close>

definition caught_exception :: "string outcome \<Rightarrow> std_exception option" where
  "caught_exception r = (case r of Throws k \<Rightarrow> Some k | _ \<Rightarrow> None)"

definition exception_line :: "texts \<Rightarrow> std_exception option \<Rightarrow> string" where
  "exception_line x k = (case k of None \<Rightarrow> [] | Some k \<Rightarrow> ''Exception: '' @ exception_what x k @ [LF])"

lemma say_sendRequest_prints:
  "\<exists>e. prints (say_sendRequest x fs n req) (sendRequest fs n req) [] e \<and>
    (if try_request fs n req = Exited then e \<noteq> [] else e = exception_line x (caught_exception (try_request fs n req)))"
proof -
  obtain e where e: "prints (say_try_request x fs n req) (try_request fs n req) [] e"
    "e = [] \<longleftrightarrow> try_request fs n req \<noteq> Exited" using say_try_request_prints by blast
  have "prints (say_sendRequest x fs n req) (sendRequest fs n req) [] (e @ exception_line x (caught_exception (try_request fs n req)))"
    using e(1) unfolding say_sendRequest_def sendRequest_def prints_def
    by (cases "try_request fs n req")
       (simp_all add: say_caught_def caught_exception_def exception_line_def print_err_def quiet_def)
  then show ?thesis using e(2) by (intro exI [of _ "e @ exception_line x (caught_exception (try_request fs n req))"])
    (auto simp: caught_exception_def exception_line_def)
qed

text \<open>The notice of the default, and what is said when no options are returned.\<close>

definition default_notice :: "variables_map option \<Rightarrow> string" where
  "default_notice args =
     (case args of None \<Rightarrow> []
      | Some vm \<Rightarrow> if vm_type vm = None then ''Request type unset. Defaults to predict'' @ [LF] else [])"

lemma say_options_prints:
  "\<exists>s e. prints (say_options x vm) (parse_options vm) s e \<and>
    (if parse_options vm = Exited then s @ e \<noteq> [] else s = default_notice (Some vm) \<and> e = [])"
proof -
  have "\<exists>e. prints (say_with_images vm opt) (with_images vm opt) [] e \<and> (e = [] \<longleftrightarrow> with_images vm opt \<noteq> Exited)" for opt
    unfolding say_with_images_def with_images_def
    by (cases "vm_image vm") (auto intro: prints_quiet prints_last)
  then obtain e where "prints (say_with_images vm opt) (with_images vm opt) [] (e opt)"
    "e opt = [] \<longleftrightarrow> with_images vm opt \<noteq> Exited" for opt by metis
  note opts = this
  show ?thesis
  proof (cases "vm_help vm")
    case True
    show ?thesis
      by (rule exI [of _ "help_text x @ [LF]"], rule exI [of _ "[]"])
        (simp add: True say_options_def parse_options_def)
  next
    case False
    show ?thesis
    proof (cases "vm_type vm")
      case None
      let ?o = "\<lparr>opt_type = Predict, images = []\<rparr>"
      have "prints (say_options x vm) (parse_options vm) (default_notice (Some vm)) (e ?o)"
        using False None prints_out [OF opts(1) [of ?o], of "default_notice (Some vm)"]
        by (simp add: say_options_def parse_options_def default_notice_def)
      moreover have "parse_options vm = with_images vm ?o" using False None by (simp add: parse_options_def)
      ultimately show ?thesis using opts(2) [of ?o] by (auto simp: default_notice_def None)
    next
      case (Some t)
      have chosen: ?thesis
        if "say_options x vm = say_with_images vm opt" "parse_options vm = with_images vm opt" for opt
        using opts [of opt] Some unfolding that
        by (intro exI [of _ "[]"] exI [of _ "e opt"]) (simp add: default_notice_def)
      consider "t = ''predict''" | "t = ''history''" | "t \<noteq> ''predict'' \<and> t \<noteq> ''history''" by blast
      then show ?thesis
      proof cases
        case 3
        show ?thesis
          by (rule exI [of _ "''Invalid request type. Value could be predict or history. Exit'' @ [LF]"], rule exI [of _ "[]"])
            (simp add: 3 False Some say_options_def parse_options_def)
      qed (rule chosen; simp add: False Some say_options_def parse_options_def)+
    qed
  qed
qed

lemma say_parseArguments_prints:
  "\<exists>s e. prints (say_parseArguments x vm) (parseArguments vm) s e \<and>
    (if parseArguments vm = Exited then s @ e \<noteq> [] else s = default_notice vm \<and> e = [])"
proof (cases vm)
  case None
  then show ?thesis by (auto simp: say_parseArguments_def parseArguments_def default_notice_def intro: prints_quiet)
next
  case (Some v)
  show ?thesis unfolding say_parseArguments_def parseArguments_def Some option.case by (rule say_options_prints)
qed

text \<open>The outcome of the process for that of the silent client.\<close>

fun process_outcome :: "string outcome \<Rightarrow> nat outcome" where
  "process_outcome (Returned r) = Returned 0"
| "process_outcome Exited = Exited"
| "process_outcome Diverges = Diverges"
| "process_outcome (Throws k) = Throws k"
| "process_outcome Crashed = Crashed"

definition response_text :: "string outcome \<Rightarrow> string" where
  "response_text r = (case r of Returned s \<Rightarrow> ''Response received is '' @ [LF] @ s @ [LF] | _ \<Rightarrow> [])"

lemma say_response_prints:
  assumes "prints p r [] e"
  shows "prints (bind_printer p (\<lambda>response.
      print_out (''Response received is '' @ [LF]) (print_out (response @ [LF]) (quiet (Returned 0)))))
    (process_outcome r) (response_text r) e"
  using assms by (cases r) (simp_all add: prints_def response_text_def bind_printer_def print_out_def quiet_def)

text \<open>The message the client means to send, and the exception that keeps it from a response, if one does.\<close>

definition sent_message :: "filesystem \<Rightarrow> variables_map option \<Rightarrow> string outcome" where
  "sent_message fs vm =
     bind_outcome (parseArguments vm) (\<lambda>opt.
       if opt_type opt = Predict
       then bind_outcome (predict_body fs (images opt)) (\<lambda>body. Returned (predict_message body))
       else Returned history_message)"

definition exception_met :: "filesystem \<Rightarrow> network \<Rightarrow> variables_map option \<Rightarrow> std_exception option" where
  "exception_met fs n vm =
     (if \<not> connects n then Some From_connect
      else case sent_message fs vm of
        Throws k \<Rightarrow> Some k
      | Returned m \<Rightarrow> if transfer n m = Asio_exception then Some From_transfer else None
      | _ \<Rightarrow> None)"

definition chosen_type :: "sisdOption \<Rightarrow> RequestType" where
  "chosen_type opt = (if opt_type opt = Predict then Person else History)"

lemma try_request_message:
  assumes "parseArguments vm = Returned opt"
  shows "try_request fs n (Request_of (images opt) (chosen_type opt)) =
    (if \<not> connects n then Throws From_connect
     else bind_outcome (sent_message fs vm) (\<lambda>m. exchange_result (transfer n m)))"
  using assms
  by (cases "predict_body fs (images opt)")
     (simp_all add: try_request_def sent_message_def Request_of_def request_type_def request_filePath_def chosen_type_def)

lemma sent_message_defined: "parseArguments vm = Returned opt \<Longrightarrow> sent_message fs vm \<noteq> Crashed"
  by (simp add: sent_message_def bind_outcome_Crashed predict_body_def file_parts_outcome)

lemma formed_request:
  "formRequest fs (images opt) (chosen_type opt) = Request_default \<or>
   formRequest fs (images opt) (chosen_type opt) = Request_of (images opt) (chosen_type opt)"
  by (simp add: formRequest_def chosen_type_def)

text \<open>What a request of the chosen type makes the process print, from the request on.\<close>

definition told :: "texts \<Rightarrow> filesystem \<Rightarrow> network \<Rightarrow> variables_map option \<Rightarrow> string outcome \<Rightarrow> string \<Rightarrow> bool" where
  "told x fs n vm r e \<longleftrightarrow>
     (\<forall>s. r = Returned s \<longrightarrow>
       (case exception_met fs n vm of
          None \<Rightarrow> e = [] \<and> (\<exists>m. sent_message fs vm = Returned m \<and> transfer n m = Response s)
        | Some k \<Rightarrow> s = [] \<and> e = ''Exception: '' @ exception_what x k @ [LF])) \<and>
     (r = Exited \<longrightarrow> e \<noteq> []) \<and>
     (r = Crashed \<and> e = [] \<longrightarrow> connects n \<and> (\<exists>m. transfer n m = Read_error_code))"

lemma sent_told:
  assumes "parseArguments vm = Returned opt"
    and "if try_request fs n (Request_of (images opt) (chosen_type opt)) = Exited then e \<noteq> []
      else e = exception_line x (caught_exception (try_request fs n (Request_of (images opt) (chosen_type opt))))"
  shows "told x fs n vm (sendRequest fs n (Request_of (images opt) (chosen_type opt))) e"
  using assms(2) sent_message_defined [OF assms(1)]
  unfolding sendRequest_def try_request_message [OF assms(1)] told_def exception_met_def
  by (cases "sent_message fs vm")
     (auto simp: caught_exception_def exception_line_def exchange_result_def split: exchange.splits if_splits)

lemma say_rest_prints:
  assumes "parseArguments vm = Returned opt" and "req = formRequest fs (images opt) (chosen_type opt)"
    and "r = (case request_bool req of Inl _ \<Rightarrow> Crashed | Inr valid \<Rightarrow> if \<not> valid then Exited else sendRequest fs n req)"
  shows "\<exists>e. prints (bind_printer (say_formRequest x fs (images opt) (chosen_type opt)) (say_rest x fs n))
      (process_outcome r) (response_text r) e \<and> told x fs n vm r e"
proof -
  have "chosen_type opt = Person \<or> chosen_type opt = History" by (simp add: chosen_type_def)
  then obtain e1 where form: "prints (say_formRequest x fs (images opt) (chosen_type opt)) (Returned req) [] e1"
    "e1 = [] \<longleftrightarrow> request_bool req = Inr True"
    using say_formRequest_prints [of "chosen_type opt" x fs "images opt"] assms(2) by blast
  consider "req = Request_default" | "req = Request_of (images opt) (chosen_type opt)"
    using formed_request [of fs opt] assms(2) by auto
  then show ?thesis
  proof cases
    case 1
    then have b: "request_bool req = Inl Undefined_behaviour" "r = Crashed"
      by (simp_all add: Request_default_def request_bool_def assms(3))
    then have "prints (say_rest x fs n req) Crashed [] []" by (simp add: say_rest_def)
    from prints_bind(1) [OF form(1), where f = "say_rest x fs n", OF this] show ?thesis
      using form(2) b by (intro exI [of _ e1]) (simp add: told_def response_text_def)
  next
    case 2
    then have b: "request_bool req = Inr True" "r = sendRequest fs n req"
      by (simp_all add: Request_of_def request_bool_def assms(3))
    obtain e where e: "prints (say_sendRequest x fs n req) (sendRequest fs n req) [] e"
      "if try_request fs n req = Exited then e \<noteq> [] else e = exception_line x (caught_exception (try_request fs n req))"
      using say_sendRequest_prints by blast
    have "prints (say_rest x fs n req) (process_outcome r) (response_text r) e"
      using say_response_prints [OF e(1)] b by (simp add: say_rest_def)
    from prints_bind(1) [OF form(1), where f = "say_rest x fs n", OF this]
    have "prints (bind_printer (say_formRequest x fs (images opt) (chosen_type opt)) (say_rest x fs n))
        (process_outcome r) (response_text r) e"
      using form(2) b by simp
    moreover have "told x fs n vm r e" using sent_told [OF assms(1)] e(2) b(2) 2 by simp
    ultimately show ?thesis by blast
  qed
qed

text \<open>
  C37: the messages of the client change nothing: on every terminal it ends as the silent one does, always with
  status 0 when it ends. When it ends with a response, that is written to \<open>std::cout\<close>; if connecting,
  allocating a buffer or the transfer threw, the response is empty and \<open>std::cerr\<close> has exactly the line with
  what that exception says, otherwise \<open>std::cerr\<close> has nothing and the response is what the server sent: so
  only \<open>std::cerr\<close> tells a lost connection from an empty response. It never calls \<open>exit\<close> without a message,
  and it crashes without one only when the command line was rejected or the connection broke.
\<close>
theorem client_says:
  "\<exists>s e. (\<forall>t. say_main x fs n vm t =
      (process_outcome (client_main fs n vm), \<lparr>out_text = out_text t @ s, err_text = err_text t @ e\<rparr>)) \<and>
    exit_code (process_outcome (client_main fs n vm)) \<in> {None, Some 0} \<and>
    (\<forall>r. client_main fs n vm = Returned r \<longrightarrow>
      s = default_notice vm @ ''Response received is '' @ [LF] @ r @ [LF] \<and>
      (case exception_met fs n vm of
         None \<Rightarrow> e = [] \<and> (\<exists>m. sent_message fs vm = Returned m \<and> transfer n m = Response r)
       | Some k \<Rightarrow> r = [] \<and> e = ''Exception: '' @ exception_what x k @ [LF])) \<and>
    (client_main fs n vm = Exited \<longrightarrow> s @ e \<noteq> []) \<and>
    (client_main fs n vm = Crashed \<and> e = [] \<longrightarrow>
      vm = None \<or> connects n \<and> (\<exists>m. transfer n m = Read_error_code))"
proof -
  obtain s0 e0 where args: "prints (say_parseArguments x vm) (parseArguments vm) s0 e0"
    "if parseArguments vm = Exited then s0 @ e0 \<noteq> [] else s0 = default_notice vm \<and> e0 = []"
    using say_parseArguments_prints by blast
  show ?thesis
  proof (cases "parseArguments vm")
    case Exited
    then have "prints (say_main x fs n vm) Exited s0 e0"
      using prints_bind(2) args(1) unfolding say_main_def by simp
    then show ?thesis using args(2) Exited
      by (intro exI [of _ s0] exI [of _ e0]) (simp add: client_main_def exit_code_def prints_def)
  next
    case Crashed
    then have "prints (say_main x fs n vm) Crashed s0 e0"
      using prints_bind(4) args(1) unfolding say_main_def by simp
    then show ?thesis using Crashed parseArguments_Crashed [of vm]
      by (intro exI [of _ s0] exI [of _ e0]) (simp add: client_main_def exit_code_def prints_def)
  next
    case (Returned opt)
    let ?req = "formRequest fs (images opt) (chosen_type opt)"
    let ?r = "case request_bool ?req of Inl _ \<Rightarrow> Crashed | Inr valid \<Rightarrow> if \<not> valid then Exited else sendRequest fs n ?req"
    obtain e where e: "prints (bind_printer (say_formRequest x fs (images opt) (chosen_type opt)) (say_rest x fs n))
        (process_outcome ?r) (response_text ?r) e" "told x fs n vm ?r e"
      using say_rest_prints [OF Returned refl refl] by blast
    have main: "client_main fs n vm = ?r" unfolding client_main_def Returned chosen_type_def by (simp add: Let_def)
    have s0: "s0 = default_notice vm" "e0 = []" using args(2) Returned by simp_all
    have "prints (say_main x fs n vm) (process_outcome ?r) (s0 @ response_text ?r) (e0 @ e)"
      unfolding say_main_def
      by (rule prints_bind(1) [OF args(1) [unfolded Returned]]) (use e(1) in \<open>simp add: chosen_type_def\<close>)
    then have "prints (say_main x fs n vm) (process_outcome (client_main fs n vm))
        (default_notice vm @ response_text (client_main fs n vm)) e"
      unfolding main s0 by simp
    moreover have "client_main fs n vm \<noteq> Throws k" for k
      unfolding main using sendRequest_catches by (simp split: sum.split)
    ultimately show ?thesis using e(2) [folded main]
      by (intro exI [of "\<lambda>s. \<exists>e. _ s e" "default_notice vm @ response_text (client_main fs n vm)"] exI [of _ e])
        (cases "client_main fs n vm"; simp add: prints_def told_def response_text_def exit_code_def)
  qed (simp_all add: parseArguments_catches)
qed

definition demo_texts :: texts where
  "demo_texts = \<lparr>help_text = [], exists_what = (\<lambda>_. []), regular_what = (\<lambda>_. []),
     exception_what = (\<lambda>k. if k = From_connect then ''connect'' else [])\<rparr>"

text \<open>Without a server the user sees an empty response on \<open>std::cout\<close>, and the exception on \<open>std::cerr\<close>.\<close>

theorem client_says_witness:
  "say_main demo_texts
      \<lparr>fs_exists = (\<lambda>_. Some True), fs_regular = (\<lambda>_. Some True), fs_filename = (\<lambda>f. f), fs_read = (\<lambda>_. Cannot_open)\<rparr>
      \<lparr>connects = False, transfer = (\<lambda>_. Response ''ok'')\<rparr>
      (Some \<lparr>vm_help = False, vm_image = Some [''a.jpg''], vm_type = Some ''predict''\<rparr>)
      \<lparr>out_text = [], err_text = []\<rparr> =
    (Returned 0, \<lparr>out_text = ''Response received is '' @ [LF, LF], err_text = ''Exception: connect'' @ [LF]\<rparr>)"
proof -
  let ?fs = "\<lparr>fs_exists = (\<lambda>_. Some True), fs_regular = (\<lambda>_. Some True), fs_filename = (\<lambda>f. f),
    fs_read = (\<lambda>_. Cannot_open)\<rparr>"
  let ?n = "\<lparr>connects = False, transfer = (\<lambda>_. Response ''ok'')\<rparr>"
  let ?vm = "Some \<lparr>vm_help = False, vm_image = Some [''a.jpg''], vm_type = Some ''predict''\<rparr>"
  have main: "client_main ?fs ?n ?vm = Returned []"
    by (simp add: client_main_def parseArguments_def parse_options_def with_images_def formRequest_def valid_file_def
        Request_of_def request_bool_def sendRequest_def try_request_def)
  have "default_notice ?vm = []" "exception_met ?fs ?n ?vm = Some From_connect"
    by (simp_all add: default_notice_def exception_met_def)
  with client_says [of demo_texts ?fs ?n ?vm] show ?thesis
    by (auto simp: main demo_texts_def)
qed

end
