(* ===== verification/HandleThreads.thy ===== *)
theory HandleThreads
  imports HistoryStorage
begin

text \<open>
  \<open>generateHandle\<close> called by any number of threads at once. The counter is read and written in two steps, as
  \<open>m_ctr++\<close> is; the mutex that \<open>lock_guard\<close> holds is a component of the state. Between any two steps of a
  thread the others may take theirs. The singleton is there from the start: the language has a function-local
  static constructed once, while other threads wait.
\<close>

section \<open>State and steps\<close>

text \<open>
  Where a thread is in the function: not in it (or waiting for the mutex), holding the mutex, with the
  counter read, with the counter written back; \<open>ret\<close> is the value it will return.
\<close>

datatype pc = Outside | Locked | Loaded (ret: u32) | Stored (ret: u32)

text \<open>The members of the singleton, the threads, and the calls that have returned, in that order.\<close>

record shared =
  counter :: u32
  m_ctrMutex :: "nat option"
  pcs :: "nat \<Rightarrow> pc"
  returned :: "(nat \<times> u32) list"

text \<open>The next step of thread \<open>t\<close>; \<open>None\<close> when it has to wait.\<close>

definition thread_step :: "nat \<Rightarrow> shared \<Rightarrow> shared option" where
  "thread_step t s =
     (case pcs s t of
        Outside \<Rightarrow>
          (case m_ctrMutex s of
             None \<Rightarrow> Some (s\<lparr>m_ctrMutex := Some t, pcs := (pcs s)(t := Locked)\<rparr>)
           | Some _ \<Rightarrow> None)
      | Locked \<Rightarrow> Some (s\<lparr>pcs := (pcs s)(t := Loaded (counter s))\<rparr>)
      | Loaded v \<Rightarrow> Some (s\<lparr>counter := v + 1, pcs := (pcs s)(t := Stored v)\<rparr>)
      | Stored v \<Rightarrow> Some (s\<lparr>m_ctrMutex := None, pcs := (pcs s)(t := Outside), returned := returned s @ [(t, v)]\<rparr>))"

text \<open>A schedule says whose turn it is; a thread that has to wait stays where it is.\<close>

primrec run_schedule :: "nat list \<Rightarrow> shared \<Rightarrow> shared" where
  "run_schedule [] s = s"
| "run_schedule (t # ts) s = run_schedule ts (case thread_step t s of None \<Rightarrow> s | Some s' \<Rightarrow> s')"

definition threads_start :: "u32 \<Rightarrow> shared" where
  "threads_start c = \<lparr>counter = c, m_ctrMutex = None, pcs = (\<lambda>_. Outside), returned = []\<rparr>"

section \<open>The invariant\<close>

text \<open>Only the holder of the mutex is in the function, and the counter is ahead of what was returned only for it.\<close>

definition threads_inv :: "u32 \<Rightarrow> shared \<Rightarrow> bool" where
  "threads_inv c s \<longleftrightarrow>
     (let n = word_of_nat (length (returned s)) :: u32 in
      map snd (returned s) = map (\<lambda>i. c + word_of_nat i) [0..<length (returned s)] \<and>
      (\<forall>t. pcs s t \<noteq> Outside \<longleftrightarrow> m_ctrMutex s = Some t) \<and>
      counter s = c + n + (if \<exists>t v. pcs s t = Stored v then 1 else 0) \<and>
      (\<forall>t v. pcs s t = Loaded v \<or> pcs s t = Stored v \<longrightarrow> v = c + n))"

lemma threads_inv_start: "threads_inv c (threads_start c)"
  by (simp add: threads_inv_def threads_start_def)

lemma threads_inv_step:
  assumes "threads_inv c s" and "thread_step t s = Some s'"
  shows "threads_inv c s'"
proof -
  have only: "u = t" if "pcs s u \<noteq> Outside" "pcs s t \<noteq> Outside" for u
    using assms(1) that by (simp add: threads_inv_def Let_def)
  have none: "\<not> (\<exists>u v. pcs s u = Stored v)" if "pcs s t \<noteq> Outside" "\<forall>v. pcs s t \<noteq> Stored v"
  proof clarify
    fix u v
    assume "pcs s u = Stored v"
    with only [of u] that show False by auto
  qed
  show ?thesis
  proof (cases "pcs s t")
    case Outside
    then show ?thesis using assms by (auto simp: threads_inv_def thread_step_def Let_def split: option.splits if_splits)
  next
    case Locked
    with none have "\<not> (\<exists>u v. pcs s u = Stored v)" by simp
    then show ?thesis using assms Locked by (auto simp: threads_inv_def thread_step_def Let_def split: if_splits)
  next
    case (Loaded v)
    then have others: "pcs s u = Outside" if "u \<noteq> t" for u using only that by force
    have s': "s' = s\<lparr>counter := v + 1, pcs := (pcs s)(t := Stored v)\<rparr>"
      using assms(2) Loaded by (simp add: thread_step_def)
    have "v = c + word_of_nat (length (returned s))" "m_ctrMutex s = Some t"
      using assms(1) Loaded unfolding threads_inv_def Let_def by (blast, metis pc.distinct(3))
    then show ?thesis using assms(1) others unfolding s' by (auto simp: threads_inv_def Let_def)
  next
    case (Stored v)
    then have "pcs s u = Outside" if "u \<noteq> t" for u using only that by force
    then show ?thesis using assms Stored by (auto simp: threads_inv_def thread_step_def Let_def split: if_splits)
  qed
qed

lemma threads_inv_run: "threads_inv c s \<Longrightarrow> threads_inv c (run_schedule ts s)"
  by (induction ts arbitrary: s) (auto split: option.split intro: threads_inv_step)

lemma some_thread_steps: "threads_inv c s \<Longrightarrow> \<exists>t. thread_step t s \<noteq> None"
proof -
  assume inv: "threads_inv c s"
  show ?thesis
  proof (cases "m_ctrMutex s")
    case None
    then have "pcs s 0 = Outside" using inv by (auto simp: threads_inv_def Let_def)
    then have "thread_step 0 s \<noteq> None" using None by (simp add: thread_step_def)
    then show ?thesis ..
  next
    case (Some t)
    then have "pcs s t \<noteq> Outside" using inv by (auto simp: threads_inv_def Let_def)
    then have "thread_step t s \<noteq> None" by (cases "pcs s t") (simp_all add: thread_step_def)
    then show ?thesis ..
  qed
qed

text \<open>
  C22: under every schedule of any number of threads the calls return, in the order in which they return, the
  values of as many calls one after the other; so no two get the same handle before the counter wraps. Only
  the holder of the mutex is between lock and unlock, and there is always one that can go on.
\<close>
theorem concurrent_handles:
  "let s = run_schedule ts (threads_start (ctr w)) in
     map snd (returned s) = handles (length (returned s)) w \<and>
     (distinct (map snd (returned s)) \<longleftrightarrow> length (returned s) \<le> 2 ^ 32) \<and>
     (\<forall>t. pcs s t \<noteq> Outside \<longleftrightarrow> m_ctrMutex s = Some t) \<and>
     (\<exists>t. thread_step t s \<noteq> None)"
proof -
  define s where "s = run_schedule ts (threads_start (ctr w))"
  have inv: "threads_inv (ctr w) s" unfolding s_def by (rule threads_inv_run [OF threads_inv_start])
  then have "map snd (returned s) = handles (length (returned s)) w"
    by (simp add: handles_eq threads_inv_def Let_def)
  moreover have "\<forall>t. pcs s t \<noteq> Outside \<longleftrightarrow> m_ctrMutex s = Some t"
    using inv by (simp add: threads_inv_def Let_def)
  ultimately show ?thesis
    using some_thread_steps [OF inv] handles_unique unfolding s_def [symmetric] Let_def by simp
qed

text \<open>Two threads whose calls overlap.\<close>

lemma two_threads:
  "map snd (returned (run_schedule [0, 1, 0, 1, 0, 0, 1, 0, 1, 1, 1, 0] (threads_start 7))) = [7, 8]"
  by code_simp

end
