(* ===== verification/ClientObjects.thy ===== *)
theory ClientObjects
  imports Client
begin

text \<open>
  The objects behind \<open>client.hpp\<close>: a \<open>Request\<close> owns its \<open>Impl\<close> through a \<open>unique_ptr\<close> and can be moved, not
  copied; a \<open>Client\<close> forwards to its own \<open>Impl\<close>. \<open>Client\<close> treats a request as a value; here it is an object
  with an address, so that moves, destructors and the heap are seen.
\<close>

section \<open>Objects and the heap\<close>

text \<open>
  The live \<open>Request\<close> objects with their \<open>m_impl\<close> (\<open>None\<close> is the null pointer), the \<open>Impl\<close> objects on the
  heap, and the addresses given out so far.
\<close>

record store =
  requests :: "nat \<Rightarrow> nat option option"
  heap :: "nat \<Rightarrow> request_impl option"
  allocated :: nat

definition no_objects :: store where
  "no_objects = \<lparr>requests = Map.empty, heap = Map.empty, allocated = 0\<rparr>"

definition set_ptr :: "nat \<Rightarrow> nat option \<Rightarrow> store \<Rightarrow> store" where
  "set_ptr r p s = s\<lparr>requests := (requests s)(r \<mapsto> p)\<rparr>"

definition ptr :: "nat \<Rightarrow> store \<Rightarrow> nat option" where
  "ptr r s = (case requests s r of None \<Rightarrow> None | Some p \<Rightarrow> p)"

text \<open>\<open>new Impl(...)\<close>.\<close>

definition alloc :: "request_impl \<Rightarrow> store \<Rightarrow> nat \<times> store" where
  "alloc i s = (allocated s, s\<lparr>heap := (heap s)(allocated s \<mapsto> i), allocated := Suc (allocated s)\<rparr>)"

text \<open>\<open>delete\<close>: nothing for a null pointer, undefined for an object that is not there (any more).\<close>

definition delete_impl :: "nat option \<Rightarrow> store \<Rightarrow> store result" where
  "delete_impl p s =
     (case p of
        None \<Rightarrow> Inr s
      | Some a \<Rightarrow> (if heap s a = None then Inl Undefined_behaviour else Inr (s\<lparr>heap := (heap s)(a := None)\<rparr>)))"

text \<open>
  \<open>dst.m_impl = std::move(src.m_impl)\<close>: the pointer is released by the one, taken over by the other, which
  then deletes the object it owned before.
\<close>

definition move_ptr :: "nat \<Rightarrow> nat \<Rightarrow> store \<Rightarrow> store result" where
  "move_ptr dst src s =
     (let p = ptr src s; s1 = set_ptr src None s; old = ptr dst s1 in delete_impl old (set_ptr dst p s1))"

section \<open>The special members of \<open>Request\<close>\<close>

datatype request_op =
    Default nat
  | Construct nat "string list" RequestType
  | Move_construct nat nat
  | Move_assign nat nat
  | Destroy nat

definition Request_construct :: "nat \<Rightarrow> string list \<Rightarrow> RequestType \<Rightarrow> store \<Rightarrow> store" where
  "Request_construct r filePath type s =
     (let (a, s1) = alloc \<lparr>m_valid = True, m_filenames = filePath, m_type = type\<rparr> s in set_ptr r (Some a) s1)"

definition Request_move :: "nat \<Rightarrow> nat \<Rightarrow> store \<Rightarrow> store result" where
  "Request_move r req s = move_ptr r req (set_ptr r None s)"

definition Request_assign :: "nat \<Rightarrow> nat \<Rightarrow> store \<Rightarrow> store result" where
  "Request_assign this req s = (if this \<noteq> req then move_ptr this req s else Inr s)"

definition Request_destroy :: "nat \<Rightarrow> store \<Rightarrow> store result" where
  "Request_destroy r s = delete_impl (ptr r s) (s\<lparr>requests := (requests s)(r := None)\<rparr>)"

fun exec_op :: "request_op \<Rightarrow> store \<Rightarrow> store result" where
  "exec_op (Default r) s = Inr (set_ptr r None s)"
| "exec_op (Construct r files t) s = Inr (Request_construct r files t s)"
| "exec_op (Move_construct r req) s = Request_move r req s"
| "exec_op (Move_assign r req) s = Request_assign r req s"
| "exec_op (Destroy r) s = Request_destroy r s"

text \<open>What the language sees to: an object is constructed once, and used only while it lives.\<close>

fun legal :: "request_op \<Rightarrow> store \<Rightarrow> bool" where
  "legal (Default r) s \<longleftrightarrow> requests s r = None"
| "legal (Construct r files t) s \<longleftrightarrow> requests s r = None"
| "legal (Move_construct r req) s \<longleftrightarrow> requests s r = None \<and> requests s req \<noteq> None"
| "legal (Move_assign r req) s \<longleftrightarrow> requests s r \<noteq> None \<and> requests s req \<noteq> None"
| "legal (Destroy r) s \<longleftrightarrow> requests s r \<noteq> None"

inductive program_state :: "store \<Rightarrow> bool" where
  begins: "program_state no_objects"
| goes_on: "program_state s \<Longrightarrow> legal op s \<Longrightarrow> exec_op op s = Inr s' \<Longrightarrow> program_state s'"

text \<open>What a member function sees in a request: the value that \<open>Client\<close> works with.\<close>

definition view :: "nat \<Rightarrow> store \<Rightarrow> client_request" where
  "view r s = (case ptr r s of None \<Rightarrow> None | Some a \<Rightarrow> heap s a)"

section \<open>The \<open>Client\<close> object\<close>

text \<open>Its \<open>Impl\<close> has no members; its pointer is set by the constructor and never again.\<close>

type_synonym client_object = "unit option"

definition Client_new :: client_object where
  "Client_new = Some ()"

definition Client_formRequest ::
  "client_object \<Rightarrow> filesystem \<Rightarrow> string list \<Rightarrow> RequestType \<Rightarrow> client_request result"
where
  "Client_formRequest c fs filePath type =
     (case c of None \<Rightarrow> Inl Undefined_behaviour | Some _ \<Rightarrow> Inr (formRequest fs filePath type))"

definition Client_sendRequest ::
  "client_object \<Rightarrow> filesystem \<Rightarrow> network \<Rightarrow> client_request \<Rightarrow> string outcome"
where
  "Client_sendRequest c fs net req = (case c of None \<Rightarrow> Crashed | Some _ \<Rightarrow> sendRequest fs net req)"

section \<open>Ownership\<close>

text \<open>
  No two requests own the same \<open>Impl\<close>, and the \<open>Impl\<close> objects on the heap are those that are owned: none is
  leaked and no pointer dangles.
\<close>

definition owns :: "store \<Rightarrow> nat \<Rightarrow> nat \<Rightarrow> bool" where
  "owns s r a \<longleftrightarrow> requests s r = Some (Some a)"

definition unique_owners :: "store \<Rightarrow> bool" where
  "unique_owners s \<longleftrightarrow>
     (\<forall>r r' a. owns s r a \<and> owns s r' a \<longrightarrow> r = r') \<and>
     (\<forall>a. heap s a \<noteq> None \<longleftrightarrow> (\<exists>r. owns s r a)) \<and>
     (\<forall>a. heap s a \<noteq> None \<longrightarrow> a < allocated s)"

lemma ptr_owns: "ptr r s = Some a \<longleftrightarrow> owns s r a"
  by (auto simp: ptr_def owns_def split: option.split)

lemma owned_there: "unique_owners s \<Longrightarrow> owns s r a \<Longrightarrow> heap s a \<noteq> None"
  by (auto simp: unique_owners_def)

lemma delete_impl_Inr:
  "(\<And>a. p = Some a \<Longrightarrow> heap s a \<noteq> None) \<Longrightarrow>
    delete_impl p s = Inr (s\<lparr>heap := (\<lambda>a. if p = Some a then None else heap s a)\<rparr>)"
  by (auto simp: delete_impl_def fun_eq_iff split: option.split)

lemma move_ptr_Inr:
  assumes "unique_owners s" and "dst \<noteq> src"
  shows "move_ptr dst src s = Inr (s\<lparr>requests := (requests s)(src \<mapsto> None, dst \<mapsto> ptr src s),
    heap := (\<lambda>a. if owns s dst a then None else heap s a)\<rparr>)"
proof -
  have "ptr dst (set_ptr src None s) = ptr dst s" using assms(2) by (simp add: ptr_def set_ptr_def)
  moreover have "delete_impl (ptr dst s) (set_ptr dst (ptr src s) (set_ptr src None s)) =
      Inr (s\<lparr>requests := (requests s)(src \<mapsto> None, dst \<mapsto> ptr src s),
        heap := (\<lambda>a. if owns s dst a then None else heap s a)\<rparr>)"
    using owned_there [OF assms(1), of dst]
    by (subst delete_impl_Inr) (auto simp: ptr_owns set_ptr_def fun_eq_iff)
  ultimately show ?thesis by (simp add: move_ptr_def Let_def)
qed

lemma owners_changed:
  assumes "unique_owners s" and "allocated s' = allocated s"
    and "\<And>r a. owns s' r a \<Longrightarrow> owns s (f r) a" and "\<And>r r'. f r = f r' \<Longrightarrow> r = r' \<or> (\<forall>a. \<not> owns s' r a) \<or> (\<forall>a. \<not> owns s' r' a)"
    and "\<And>a. heap s' a \<noteq> None \<longleftrightarrow> heap s a \<noteq> None \<and> (\<exists>r. owns s' r a)"
  shows "unique_owners s'"
proof -
  have "r = r'" if "owns s' r a" "owns s' r' a" for r r' a
    using assms(1,3,4) that unfolding unique_owners_def by metis
  moreover have "heap s' a \<noteq> None \<longleftrightarrow> (\<exists>r. owns s' r a)" for a
    using assms(1,3,5) unfolding unique_owners_def by metis
  ultimately show ?thesis using assms(1,2,5) unfolding unique_owners_def by metis
qed

lemma owners_move:
  assumes "unique_owners s" and "dst \<noteq> src"
  shows "\<exists>s'. move_ptr dst src s = Inr s' \<and> unique_owners s'"
proof -
  let ?s = "s\<lparr>requests := (requests s)(src \<mapsto> None, dst \<mapsto> ptr src s),
    heap := (\<lambda>a. if owns s dst a then None else heap s a)\<rparr>"
  have owns: "owns ?s r a \<longleftrightarrow> (if r = dst then owns s src a else r \<noteq> src \<and> owns s r a)" for r a
    using assms(2) by (auto simp: owns_def ptr_def split: option.splits)
  have "unique_owners ?s"
  proof (rule owners_changed [OF assms(1), of _ "\<lambda>r. if r = dst then src else r"])
    show "heap ?s a \<noteq> None \<longleftrightarrow> heap s a \<noteq> None \<and> (\<exists>r. owns ?s r a)" for a
    proof -
      have one: "owns s r a \<Longrightarrow> owns s r' a \<Longrightarrow> r = r'" for r r'
        using assms(1) by (auto simp: unique_owners_def)
      have "heap s a \<noteq> None \<longleftrightarrow> (\<exists>r. owns s r a)" using assms(1) by (simp add: unique_owners_def)
      moreover have "(\<exists>r. owns ?s r a) \<longleftrightarrow> (\<exists>r. owns s r a) \<and> \<not> owns s dst a"
        unfolding owns using one assms(2) by metis
      ultimately show ?thesis by simp
    qed
  qed (auto simp: owns split: if_splits)
  then show ?thesis using move_ptr_Inr [OF assms] by blast
qed

lemma owners_set_null: "unique_owners s \<Longrightarrow> ptr r s = None \<Longrightarrow> unique_owners (set_ptr r None s)"
proof -
  assume s: "unique_owners s" "ptr r s = None"
  then have "\<not> owns s r a" for a using ptr_owns [of r s a] by simp
  then have "owns (set_ptr r None s) r' a \<longleftrightarrow> owns s r' a" for r' a
    by (auto simp: owns_def set_ptr_def)
  then show ?thesis using s(1) by (simp add: unique_owners_def) (simp add: set_ptr_def)
qed

lemma owners_construct:
  assumes "unique_owners s" and "ptr r s = None"
  shows "unique_owners (Request_construct r files t s)"
proof -
  let ?s = "Request_construct r files t s" and ?new = "allocated s"
  have r: "\<not> owns s r a" for a using ptr_owns [of r s a] assms(2) by simp
  have fresh: "\<not> owns s r' ?new" for r'
    using owned_there [OF assms(1)] assms(1) unfolding unique_owners_def by (metis less_irrefl)
  have owns: "owns ?s r' a \<longleftrightarrow> (if r' = r then a = ?new else owns s r' a)" for r' a
    by (auto simp: owns_def Request_construct_def alloc_def set_ptr_def)
  have heap: "heap ?s a \<noteq> None \<longleftrightarrow> a = ?new \<or> heap s a \<noteq> None" "allocated ?s = Suc (allocated s)" for a
    by (auto simp: Request_construct_def alloc_def set_ptr_def)
  show ?thesis
    using assms(1) r fresh unfolding unique_owners_def owns heap
    by (intro conjI) (metis, metis, metis less_SucI lessI)
qed

lemma owners_destroy:
  assumes "unique_owners s"
  shows "\<exists>s'. Request_destroy r s = Inr s' \<and> unique_owners s'"
proof -
  let ?s = "s\<lparr>requests := (requests s)(r := None), heap := (\<lambda>a. if owns s r a then None else heap s a)\<rparr>"
  have "Request_destroy r s = Inr ?s"
    unfolding Request_destroy_def using owned_there [OF assms, of r]
    by (subst delete_impl_Inr) (auto simp: ptr_owns fun_eq_iff)
  moreover have owns: "owns ?s r' a \<longleftrightarrow> r' \<noteq> r \<and> owns s r' a" for r' a by (simp add: owns_def)
  have "unique_owners ?s"
  proof (rule owners_changed [OF assms, of _ id])
    show "heap ?s a \<noteq> None \<longleftrightarrow> heap s a \<noteq> None \<and> (\<exists>r'. owns ?s r' a)" for a
      unfolding owns using assms by (auto simp: unique_owners_def)
  qed (simp_all add: owns)
  ultimately show ?thesis by blast
qed

lemma legal_runs:
  assumes "unique_owners s" and "legal op s"
  shows "\<exists>s'. exec_op op s = Inr s' \<and> unique_owners s'"
proof (cases op)
  case (Default r)
  then show ?thesis using owners_set_null [OF assms(1)] assms(2) by (simp add: ptr_def)
next
  case (Construct r files t)
  then show ?thesis using owners_construct [OF assms(1)] assms(2) by (simp add: ptr_def)
next
  case (Move_construct r req)
  then have "unique_owners (set_ptr r None s)" "r \<noteq> req"
    using owners_set_null [OF assms(1)] assms(2) by (auto simp: ptr_def)
  then show ?thesis using owners_move Move_construct by (simp add: Request_move_def)
next
  case (Move_assign r req)
  then show ?thesis using owners_move [OF assms(1)] assms(1) by (simp add: Request_assign_def)
next
  case (Destroy r)
  then show ?thesis using owners_destroy [OF assms(1)] by simp
qed

lemma program_owners: "program_state s \<Longrightarrow> unique_owners s"
proof (induction rule: program_state.induct)
  case begins
  show ?case by (simp add: unique_owners_def no_objects_def owns_def)
next
  case (goes_on s op s')
  then show ?case using legal_runs [of s op] by auto
qed

lemma move_view:
  assumes "unique_owners s" and "dst \<noteq> src" and "move_ptr dst src s = Inr s'"
  shows "view dst s' = view src s \<and> view src s' = None"
proof -
  have "\<not> owns s dst a" if "ptr src s = Some a" for a
    using assms(1,2) that unfolding ptr_owns unique_owners_def by blast
  then show ?thesis
    using assms(2) assms(3) [unfolded move_ptr_Inr [OF assms(1,2)]]
    by (auto simp: view_def ptr_def split: option.split)
qed

lemma moved_request:
  assumes "unique_owners s" and "legal op s" and "exec_op op s = Inr s'"
    and "op \<in> {Move_construct r req, Move_assign r req}" and "r \<noteq> req"
  shows "view r s' = view req s \<and> view req s' = None"
proof (cases "op = Move_assign r req")
  case True
  then show ?thesis using move_view [OF assms(1,5)] assms(3,5) by (simp add: Request_assign_def)
next
  case False
  then have op: "op = Move_construct r req" using assms(4) by simp
  then have "unique_owners (set_ptr r None s)" using owners_set_null [OF assms(1)] assms(2) by (simp add: ptr_def)
  moreover have "view req (set_ptr r None s) = view req s"
    using assms(5) by (auto simp: view_def ptr_def set_ptr_def split: option.split)
  ultimately show ?thesis using move_view [of "set_ptr r None s" r req s'] assms(3,5) op
    by (simp add: Request_move_def)
qed

text \<open>
  C23: in every state of a program that constructs, moves and destroys requests as the language allows, each
  \<open>Impl\<close> on the heap has exactly one owner and no pointer dangles; the next such step is defined (nothing is
  deleted twice); and a moved request is seen as the one it came from, which is null afterwards.
\<close>
theorem request_ownership:
  assumes "program_state s" and "legal op s"
  shows "(\<forall>a. heap s a \<noteq> None \<longleftrightarrow> (\<exists>!r. owns s r a)) \<and> (\<forall>r a. owns s r a \<longrightarrow> heap s a \<noteq> None) \<and>
    (\<exists>s'. exec_op op s = Inr s' \<and>
      (\<forall>r req. op \<in> {Move_construct r req, Move_assign r req} \<and> r \<noteq> req \<longrightarrow>
        view r s' = view req s \<and> request_bool (view req s') = Inl Undefined_behaviour))"
proof -
  note inv = program_owners [OF assms(1)]
  obtain s' where s': "exec_op op s = Inr s'" using legal_runs [OF inv assms(2)] by blast
  have "\<forall>r req. op \<in> {Move_construct r req, Move_assign r req} \<and> r \<noteq> req \<longrightarrow>
        view r s' = view req s \<and> request_bool (view req s') = Inl Undefined_behaviour"
    using moved_request [OF inv assms(2) s'] by (auto simp: request_bool_def)
  moreover have "\<forall>a. heap s a \<noteq> None \<longleftrightarrow> (\<exists>!r. owns s r a)" "\<forall>r a. owns s r a \<longrightarrow> heap s a \<noteq> None"
    using inv unfolding unique_owners_def by metis+
  ultimately show ?thesis using s' by blast
qed

text \<open>What \<open>main\<close> does: \<open>formRequest\<close> makes a request, which moves into the variable \<open>req\<close>.\<close>

lemma formRequest_object:
  "\<exists>op s'. op \<in> {Default r, Construct r files t} \<and> exec_op op s = Inr s' \<and> view r s' = formRequest fs files t"
proof (cases "formRequest fs files t")
  case None
  have "exec_op (Default r) s = Inr (set_ptr r None s)" "view r (set_ptr r None s) = None"
    by (simp_all add: view_def ptr_def set_ptr_def)
  then show ?thesis unfolding None by blast
next
  case (Some i)
  then have "formRequest fs files t = Request_of files t"
    by (auto simp: formRequest_def Request_default_def split: if_splits)
  moreover have "view r (Request_construct r files t s) = Request_of files t"
    by (simp add: view_def ptr_def set_ptr_def Request_construct_def alloc_def Request_of_def)
  ultimately show ?thesis by (metis exec_op.simps(2) insertCI)
qed

definition two_requests :: store where
  "two_requests = \<lparr>requests = [0 \<mapsto> Some 0, 1 \<mapsto> None],
     heap = [0 \<mapsto> \<lparr>m_valid = True, m_filenames = [''a.jpg''], m_type = Person\<rparr>], allocated = 1\<rparr>"

lemma two_requests_state: "program_state two_requests"
proof -
  have "program_state (Request_construct 0 [''a.jpg''] Person no_objects)"
    by (rule program_state.goes_on [OF program_state.begins, of "Construct 0 [''a.jpg''] Person"])
       (simp_all add: no_objects_def)
  then have "program_state (set_ptr 1 None (Request_construct 0 [''a.jpg''] Person no_objects))"
    by (rule program_state.goes_on [of _ "Default 1"])
       (simp_all add: no_objects_def Request_construct_def alloc_def set_ptr_def)
  moreover have "set_ptr 1 None (Request_construct 0 [''a.jpg''] Person no_objects) = two_requests"
    by (simp add: two_requests_def no_objects_def Request_construct_def alloc_def set_ptr_def)
  ultimately show ?thesis by simp
qed

theorem request_ownership_witness:
  "\<exists>s'. exec_op (Move_assign 1 0) two_requests = Inr s' \<and> view 1 s' = view 0 two_requests \<and>
    request_bool (view 0 s') = Inl Undefined_behaviour"
proof -
  have "legal (Move_assign 1 0) two_requests" by (simp add: two_requests_def)
  from request_ownership [OF two_requests_state this] show ?thesis by auto
qed

end
