(* ===== verification/Base64Views.thy ===== *)
theory Base64Views
  imports Base64
begin

text \<open>
  The overloads of \<open>base64.cpp\<close> for \<open>std::string\<close> and, from C++17 on, \<open>std::string_view\<close>. The encoders are the
  same templates over the same bytes. The decoder is not quite the same function: it reads past the last
  group through \<open>operator[]\<close>, and a view has no terminating NUL there.
\<close>

section \<open>Encoding\<close>

text \<open>\<open>encode\<close>: the bytes of the string or view and their number.\<close>

definition encode_chars :: "string \<Rightarrow> bool \<Rightarrow> string option" where
  "encode_chars s url = base64_encode s url"

definition base64_encode_string :: "string \<Rightarrow> bool \<Rightarrow> string option" where
  "base64_encode_string s url = encode_chars s url"

definition base64_encode_view :: "string \<Rightarrow> bool \<Rightarrow> string option" where
  "base64_encode_view s url = encode_chars s url"

definition base64_encode_pem_view :: "string \<Rightarrow> string option" where
  "base64_encode_pem_view s = encode_with_line_breaks 64 s"

definition base64_encode_mime_view :: "string \<Rightarrow> string option" where
  "base64_encode_mime_view s = encode_with_line_breaks 76 s"

section \<open>Decoding a view\<close>

definition view_at :: "string \<Rightarrow> nat \<Rightarrow> char result" where
  "view_at s i = (if i < length s then Inr (s ! i) else Inl Undefined_behaviour)"

text \<open>\<open>decode\<close> with \<open>String = std::string_view\<close>: one round of the loop, the loop, the function.\<close>

definition view_step :: "string \<Rightarrow> nat \<Rightarrow> string result" where
  "view_step s pos =
     bind_res (view_at s (pos + 1)) (\<lambda>c1.
     bind_res (pos_of_char c1) (\<lambda>p1.
     bind_res (view_at s (pos + 0)) (\<lambda>c0.
     bind_res (pos_of_char c0) (\<lambda>p0.
     let o0 = char_of (unat (push_bit 2 p0 + drop_bit 4 (p1 AND 0x30))) in
     bind_res (view_at s (pos + 2)) (\<lambda>c2.
     if \<not> is_padding c2 then
       bind_res (pos_of_char c2) (\<lambda>p2.
       let o1 = char_of (unat (push_bit 4 (p1 AND 0x0f) + drop_bit 2 (p2 AND 0x3c))) in
       bind_res (view_at s (pos + 3)) (\<lambda>c3.
       if \<not> is_padding c3 then
         bind_res (pos_of_char c3) (\<lambda>p3.
         Inr [o0, o1, char_of (unat (push_bit 6 (p2 AND 0x03) + p3))])
       else Inr [o0, o1]))
     else Inr [o0])))))"

function view_loop :: "string \<Rightarrow> nat \<Rightarrow> string \<Rightarrow> string result" where
  "view_loop s pos ret =
     (if pos < length s
      then bind_res (view_step s pos) (\<lambda>out. view_loop s (pos + 4) (ret @ out))
      else Inr ret)"
  by pat_completeness auto
termination
  by (relation "measure (\<lambda>(s, pos, ret). length s - pos)") auto

declare view_loop.simps [simp del]

text \<open>With line breaks to remove, the view is copied to a string, which the other overload decodes.\<close>

definition base64_decode_view :: "string \<Rightarrow> bool \<Rightarrow> string result" where
  "base64_decode_view s remove_linebreaks =
     (if remove_linebreaks then
        (if length s = 0 then Inr '''' else base64_decode (erase_linebreaks s 0) False)
      else if length s = 0 then Inr ''''
      else view_loop s 0 '''')"

section \<open>Where the two differ\<close>

text \<open>Two results agree, or the first is undefined where the second throws.\<close>

definition agrees_unless_short :: "bool \<Rightarrow> string result \<Rightarrow> string result \<Rightarrow> bool" where
  "agrees_unless_short short v r \<longleftrightarrow>
     v = r \<or> short \<and> v = Inl Undefined_behaviour \<and> r = Inl (Literal_thrown b64_literal)"

lemma view_at_cases: "view_at s i = str_at s i \<or> i \<ge> length s \<and> view_at s i = Inl Undefined_behaviour"
  by (auto simp: view_at_def str_at_def)

lemma view_at_inside: "i < length s \<Longrightarrow> view_at s i = str_at s i"
  by (simp add: view_at_def str_at_def)

lemma view_step_full: "pos + 3 < length s \<Longrightarrow> view_step s pos = decode_step s pos"
proof -
  assume "pos + 3 < length s"
  then have "view_at s (pos + 0) = str_at s (pos + 0)" "view_at s (pos + 1) = str_at s (pos + 1)"
    "view_at s (pos + 2) = str_at s (pos + 2)" "view_at s (pos + 3) = str_at s (pos + 3)"
    by (simp_all only: view_at_inside)
  then show ?thesis by (simp only: view_step_def decode_step_def)
qed

lemma str_at_end: "str_at s (length s) = Inr NUL"
  by (simp add: str_at_def)

lemma NUL_no_padding: "\<not> is_padding NUL"
  by (simp add: is_padding_def)

lemma view_step_short:
  assumes "pos < length s" and "length s \<le> pos + 3"
  shows "agrees_unless_short True (view_step s pos) (decode_step s pos)"
proof -
  note throws = pos_of_char_NUL str_at_end NUL_no_padding
  consider "length s = pos + 1" | "length s = pos + 2" | "length s = pos + 3" using assms by linarith
  then show ?thesis
  proof cases
    case 1
    then have "view_at s (pos + 1) = Inl Undefined_behaviour" "str_at s (pos + 1) = Inr NUL"
      using throws(2) by (simp_all add: view_at_def del: One_nat_def) (metis Suc_eq_plus1)
    then show ?thesis by (simp add: agrees_unless_short_def view_step_def decode_step_def throws)
  next
    case 2
    then have at: "view_at s (pos + 1) = str_at s (pos + 1)" "view_at s (pos + 0) = str_at s (pos + 0)"
      "view_at s (pos + 2) = Inl Undefined_behaviour" "str_at s (pos + 2) = Inr NUL"
      using throws(2) by (simp_all add: view_at_inside) (simp add: view_at_def, metis)
    obtain c0 c1 where c: "str_at s (pos + 0) = Inr c0" "str_at s (pos + 1) = Inr c1"
      using 2 by (simp add: str_at_def)
    show ?thesis
      unfolding agrees_unless_short_def view_step_def decode_step_def at c
      by (cases c0 rule: pos_of_char_cases; cases c1 rule: pos_of_char_cases) (simp_all add: throws Let_def)
  next
    case 3
    then have at: "view_at s (pos + 1) = str_at s (pos + 1)" "view_at s (pos + 0) = str_at s (pos + 0)"
      "view_at s (pos + 2) = str_at s (pos + 2)"
      "view_at s (pos + 3) = Inl Undefined_behaviour" "str_at s (pos + 3) = Inr NUL"
      using throws(2) by (simp_all add: view_at_inside) (simp add: view_at_def, metis)
    obtain c0 c1 c2 where c: "str_at s (pos + 0) = Inr c0" "str_at s (pos + 1) = Inr c1" "str_at s (pos + 2) = Inr c2"
      using 3 by (simp add: str_at_def)
    show ?thesis
      unfolding agrees_unless_short_def view_step_def decode_step_def at c
      by (cases c0 rule: pos_of_char_cases; cases c1 rule: pos_of_char_cases; cases c2 rule: pos_of_char_cases)
         (simp_all add: throws Let_def)
  qed
qed

lemma view_loop_agrees:
  "agrees_unless_short ((length s - pos) mod 4 \<noteq> 0) (view_loop s pos ret) (decode_loop s pos ret)"
proof (induction s pos ret rule: view_loop.induct)
  case (1 s pos ret)
  show ?case
  proof (cases "pos + 3 < length s")
    case True
    then have "(length s - (pos + 4)) mod 4 = (length s - pos) mod 4"
      using le_mod_geq [of 4 "length s - pos"] by simp
    then show ?thesis using 1 True
      by (subst view_loop.simps, subst decode_loop.simps)
         (cases "decode_step s pos"; simp add: view_step_full agrees_unless_short_def)
  next
    case False
    show ?thesis
    proof (cases "pos < length s")
      case True
      then have "(length s - pos) mod 4 \<noteq> 0" using False by (simp add: mod_less)
      moreover have "pos + 4 \<ge> length s" using False by simp
      ultimately show ?thesis
        using view_step_short [OF True] False True
        by (subst view_loop.simps, subst decode_loop.simps)
           (auto simp: agrees_unless_short_def view_loop.simps [of s "pos + 4"] decode_loop.simps [of s "pos + 4"])
    qed (simp add: view_loop.simps decode_loop.simps agrees_unless_short_def)
  qed
qed

text \<open>
  The decoder of a view agrees with that of a string, but on a view whose length is not a multiple of four,
  with no line breaks to remove, it may read past the end where the other throws.
\<close>

theorem decode_view_agrees:
  "agrees_unless_short (\<not> rl \<and> length s mod 4 \<noteq> 0) (base64_decode_view s rl) (base64_decode s rl)"
  using view_loop_agrees [of s 0 "''''"]
  by (auto simp: base64_decode_view_def base64_decode_def decode_flat_def agrees_unless_short_def)

lemma short_view: "base64_decode_view ''QQ'' False = Inl Undefined_behaviour"
  by (simp add: base64_decode_view_def view_loop.simps view_step_def view_at_def pos_of_char_def uchar_def)

end
