(* ===== verification/CommonHelpers.thy ===== *)
theory CommonHelpers
  imports Prelude
begin

text \<open>
  The rest of \<open>include/server/PersonPipeline/common.hpp\<close>: file names, the colours of the training classes,
  versions and devices of the inference engine, and the performance counters, sorted and printed in
  columns. A \<open>std::map\<close> is the list of its entries in the order of the keys; what the engine answers is an
  argument. Printing functions return the text they write.
\<close>

section \<open>File names\<close>

text \<open>\<open>s.rfind(c)\<close>.\<close>

fun rfind_char :: "char \<Rightarrow> string \<Rightarrow> nat option" where
  "rfind_char c [] = None"
| "rfind_char c (d # ds) =
     (case rfind_char c ds of Some i \<Rightarrow> Some (Suc i) | None \<Rightarrow> if d = c then Some 0 else None)"

definition fileNameNoExt :: "string \<Rightarrow> string result" where
  "fileNameNoExt filepath =
     (case rfind_char (CHR ''.'') filepath of None \<Rightarrow> Inr filepath | Some pos \<Rightarrow> substr filepath 0 pos)"

lemma rfind_char_None: "rfind_char c s = None \<longleftrightarrow> c \<notin> set s"
  by (induction s) (auto split: option.splits)

lemma rfind_char_last: "c \<notin> set b \<Longrightarrow> rfind_char c (a @ c # b) = Some (length a)"
  by (induction a) (auto simp: rfind_char_None [THEN iffD2] split: option.splits)

lemma file_name_stem:
  "CHR ''.'' \<notin> set b \<Longrightarrow> fileNameNoExt (a @ CHR ''.'' # b) = Inr a"
  "CHR ''.'' \<notin> set s \<Longrightarrow> fileNameNoExt s = Inr s"
  by (simp_all add: fileNameNoExt_def rfind_char_last substr_def rfind_char_None [THEN iffD2])

text \<open>The dot of a directory counts too.\<close>

lemma file_name_directory: "fileNameNoExt ''images.d/photo'' = Inr ''images''"
  by (simp add: fileNameNoExt_def substr_def)

section \<open>Colours\<close>

record Color =
  red :: u8
  green :: u8
  blue :: u8

definition CITYSCAPES_COLORS :: "Color list" where
  "CITYSCAPES_COLORS = map (\<lambda>(r, g, b). \<lparr>red = r, green = g, blue = b\<rparr>)
     [(128, 64, 128), (232, 35, 244), (70, 70, 70), (156, 102, 102), (153, 153, 190), (153, 153, 153),
      (30, 170, 250), (0, 220, 220), (35, 142, 107), (152, 251, 152), (180, 130, 70), (60, 20, 220),
      (0, 0, 255), (142, 0, 0), (70, 0, 0), (100, 60, 0), (90, 0, 0), (230, 0, 0), (32, 11, 119),
      (0, 74, 111), (81, 0, 81)]"

section \<open>Versions and devices\<close>

record version =
  description :: string
  api_major :: int
  api_minor :: int
  buildNumber :: string

definition int_text :: "int \<Rightarrow> string" where
  "int_text i = (if i < 0 then CHR ''-'' # dec (nat (- i)) else dec (nat i))"

definition version_text :: "version \<Rightarrow> string" where
  "version_text v =
     [TAB] @ description v @ '' version ......... '' @ int_text (api_major v) @ ''.'' @ int_text (api_minor v) @
     [LF, TAB] @ ''Build ........... '' @ buildNumber v"

definition versions_text :: "(string \<times> version) list \<Rightarrow> string" where
  "versions_text vs = concat (map (\<lambda>v. [TAB] @ fst v @ [LF] @ version_text (snd v) @ [LF]) vs)"

text \<open>\<open>metric d\<close> is \<open>ie.GetMetric(d, FULL_DEVICE_NAME)\<close> read as a string.\<close>

definition getMapFullDevicesNames :: "(string \<Rightarrow> string result) \<Rightarrow> string list \<Rightarrow> (string \<rightharpoonup> string) result" where
  "getMapFullDevicesNames metric devices =
     fold_res (\<lambda>d m.
       if d = [] then Inr m
       else (case metric d of
               Inr n \<Rightarrow> Inr (if m d = None then m(d \<mapsto> n) else m)
             | Inl (Inference_error _) \<Rightarrow> Inr m
             | Inl e \<Rightarrow> Inl e)) devices Map.empty"

definition fullDeviceName_in :: "(string \<rightharpoonup> string) \<Rightarrow> string \<Rightarrow> string" where
  "fullDeviceName_in devicesMap device = (case devicesMap device of Some n \<Rightarrow> n | None \<Rightarrow> [])"

definition fullDeviceName_of :: "(string \<Rightarrow> string result) \<Rightarrow> string \<Rightarrow> string result" where
  "fullDeviceName_of metric device =
     (case metric device of Inr n \<Rightarrow> Inr n | Inl (Inference_error _) \<Rightarrow> Inr [] | Inl e \<Rightarrow> Inl e)"

definition available_devices_text :: "string list \<Rightarrow> string" where
  "available_devices_text devices =
     [LF] @ ''Available target devices:'' @ concat (map (\<lambda>d. ''  '' @ d) devices) @ [LF]"

text \<open>Asking the map for a device it was made for is asking the engine.\<close>

definition only_engine_errors :: "(string \<Rightarrow> string result) \<Rightarrow> bool" where
  "only_engine_errors metric \<longleftrightarrow> (\<forall>d e. metric d = Inl e \<longrightarrow> (\<exists>s. e = Inference_error s))"

lemma device_map_fold:
  assumes "only_engine_errors metric"
  shows "fold_res (\<lambda>d m. if d = [] then Inr m
       else (case metric d of
               Inr n \<Rightarrow> Inr (if m d = None then m(d \<mapsto> n) else m)
             | Inl (Inference_error _) \<Rightarrow> Inr m
             | Inl e \<Rightarrow> Inl e)) devices m =
    Inr (\<lambda>d. if m d = None \<and> d \<noteq> [] \<and> d \<in> set devices
             then (case metric d of Inr n \<Rightarrow> Some n | Inl _ \<Rightarrow> None) else m d)"
proof (induction devices arbitrary: m)
  case (Cons d ds)
  show ?case
  proof (cases "metric d")
    case (Inl e)
    then obtain s where "e = Inference_error s" using assms by (auto simp: only_engine_errors_def)
    with Inl show ?thesis by (auto simp: Cons.IH fun_eq_iff)
  next
    case (Inr n)
    then show ?thesis by (auto simp: Cons.IH fun_eq_iff)
  qed
qed (simp add: fun_eq_iff)

lemma device_map_lookup:
  assumes "only_engine_errors metric" and "d \<in> set devices" and "d \<noteq> []"
  shows "\<exists>m. getMapFullDevicesNames metric devices = Inr m \<and> Inr (fullDeviceName_in m d) = fullDeviceName_of metric d"
proof -
  obtain m where m: "getMapFullDevicesNames metric devices = Inr m"
    and md: "m d = (case metric d of Inr n \<Rightarrow> Some n | Inl _ \<Rightarrow> None)"
    using device_map_fold [OF assms(1), of devices Map.empty] assms(2,3) by (simp add: getMapFullDevicesNames_def)
  show ?thesis
  proof (cases "metric d")
    case (Inl e)
    then obtain s where "e = Inference_error s" using assms(1) by (auto simp: only_engine_errors_def)
    with Inl m md show ?thesis by (simp add: fullDeviceName_in_def fullDeviceName_of_def)
  next
    case (Inr n)
    with m md show ?thesis by (simp add: fullDeviceName_in_def fullDeviceName_of_def)
  qed
qed

section \<open>Performance counters\<close>

datatype layer_status = NOT_RUN | OPTIMIZED_OUT | EXECUTED

record profile =
  layer_state :: layer_status
  realTime_uSec :: int
  cpu_uSec :: int
  exec_type :: string
  layer_type :: string
  execution_index :: nat

type_synonym counter = "string \<times> profile"

text \<open>\<open>std::stable_sort\<close> by execution index: sorted, and equal indices in the order they came in.\<close>

definition perfCountersSorted :: "counter list \<Rightarrow> counter list" where
  "perfCountersSorted perfMap = sort_key (\<lambda>p. execution_index (snd p)) perfMap"

definition setw_left :: "nat \<Rightarrow> string \<Rightarrow> string" where
  "setw_left n s = s @ replicate (n - length s) (CHR '' '')"

definition layer_name :: "string \<Rightarrow> string result" where
  "layer_name s = (if 30 \<le> length s then bind_res (substr s 0 26) (\<lambda>t. Inr (t @ ''...'')) else Inr s)"

fun status_text :: "layer_status \<Rightarrow> string" where
  "status_text EXECUTED = ''EXECUTED''"
| "status_text NOT_RUN = ''NOT_RUN''"
| "status_text OPTIMIZED_OUT = ''OPTIMIZED_OUT''"

definition counter_line :: "counter \<Rightarrow> string result" where
  "counter_line it =
     bind_res (layer_name (fst it)) (\<lambda>toPrint.
       Inr (setw_left 30 toPrint @ setw_left 15 (status_text (layer_state (snd it))) @
         setw_left 30 (''layerType: '' @ layer_type (snd it) @ '' '') @
         setw_left 20 (''realTime: '' @ int_text (realTime_uSec (snd it))) @
         setw_left 20 (''cpu: '' @ int_text (cpu_uSec (snd it))) @
         '' execType: '' @ exec_type (snd it) @ [LF]))"

definition add_time :: "int \<Rightarrow> int \<Rightarrow> int" where
  "add_time t r = (if 0 < r then wrap_long (t + r) else t)"

definition print_counters :: "counter list \<Rightarrow> (string \<times> int) result" where
  "print_counters its =
     fold_res (\<lambda>it (out, total). bind_res (counter_line it) (\<lambda>l.
       Inr (out @ l, add_time total (realTime_uSec (snd it))))) its ([], 0)"

text \<open>What is written to the stream, and what goes to \<open>std::cout\<close> whatever the stream is.\<close>

definition printPerformanceCounts :: "counter list \<Rightarrow> string \<Rightarrow> bool \<Rightarrow> (string \<times> string) result" where
  "printPerformanceCounts performanceMap deviceName bshowHeader =
     bind_res (print_counters (perfCountersSorted performanceMap)) (\<lambda>(out, totalTime).
       Inr ((if bshowHeader then [LF] @ ''performance counts:'' @ [LF, LF] else []) @ out @
            setw_left 20 (''Total time: '' @ int_text totalTime) @ '' microseconds'' @ [LF],
          [LF] @ ''Full device name: '' @ deviceName @ [LF, LF]))"

text \<open>The overload that asks a request for its counters, \<open>counts r\<close> standing for \<open>GetPerformanceCounts\<close>.\<close>

definition print_request_counts ::
  "('r \<Rightarrow> counter list result) \<Rightarrow> 'r \<Rightarrow> string \<Rightarrow> bool \<Rightarrow> (string \<times> string) result" where
  "print_request_counts counts r deviceName bshowHeader =
     bind_res (counts r) (\<lambda>m. printPerformanceCounts m deviceName bshowHeader)"

section \<open>What the report shows\<close>

text \<open>
  What the reader of a line finds in its first two columns: the name, cut to twenty-six characters and
  three dots when it has thirty or more, and the status.
\<close>

definition column :: "nat \<Rightarrow> string \<Rightarrow> string" where
  "column n s = s @ replicate (n - length s) (CHR '' '')"

definition shown_name :: "string \<Rightarrow> string" where
  "shown_name s = (if length s < 30 then s else take 26 s @ ''...'')"

definition in_columns :: "counter \<Rightarrow> string \<Rightarrow> bool" where
  "in_columns p l \<longleftrightarrow>
     take 30 l = column 30 (shown_name (fst p)) \<and>
     take 15 (drop 30 l) = column 15 (status_text (layer_state (snd p))) \<and>
     suffix ('' execType: '' @ exec_type (snd p) @ [LF]) l"

lemma layer_name_shown: "layer_name s = Inr (shown_name s)"
  by (simp add: layer_name_def shown_name_def substr_def)

lemma setw_column: "setw_left n s = column n s"
  by (simp add: setw_left_def column_def)

lemma length_column: "length s \<le> n \<Longrightarrow> length (column n s) = n"
  by (simp add: column_def)

lemma counter_line_columns: "\<exists>l. counter_line p = Inr l \<and> in_columns p l"
proof -
  have "length (shown_name (fst p)) \<le> 30" by (simp add: shown_name_def)
  moreover have "length (status_text (layer_state (snd p))) \<le> 15" by (cases "layer_state (snd p)") simp_all
  ultimately show ?thesis
    by (auto simp: counter_line_def layer_name_shown setw_column in_columns_def length_column suffix_def)
qed

definition positive_time :: "counter list \<Rightarrow> int" where
  "positive_time its = (\<Sum>p\<leftarrow>its. max 0 (realTime_uSec (snd p)))"

lemma wrap_long_add: "wrap_long (wrap_long a + b) = wrap_long (a + b)"
  unfolding wrap_long_def by (simp add: algebra_simps mod_simps)

lemma add_time_wrap: "add_time (wrap_long t) r = wrap_long (t + max 0 r)"
  by (simp add: add_time_def wrap_long_add max_def)

lemma print_counters_from:
  "fold_res (\<lambda>it (out, t). bind_res (counter_line it) (\<lambda>l.
       Inr (out @ l, add_time t (realTime_uSec (snd it))))) its (out, wrap_long tot) =
    bind_res (fold_res (\<lambda>it o'. bind_res (counter_line it) (\<lambda>l. Inr (o' @ l))) its out) (\<lambda>o'.
      Inr (o', wrap_long (tot + positive_time its)))"
proof (induction its arbitrary: out tot)
  case (Cons p its)
  obtain l where l: "counter_line p = Inr l" using counter_line_columns by blast
  show ?case using Cons.IH l by (simp add: positive_time_def add_time_wrap add.assoc)
qed (simp add: positive_time_def)

lemma counter_lines:
  "\<exists>ls. fold_res (\<lambda>it o'. bind_res (counter_line it) (\<lambda>l. Inr (o' @ l))) its out = Inr (out @ concat ls) \<and>
     list_all2 in_columns its ls"
proof (induction its arbitrary: out)
  case (Cons p its)
  obtain l where "counter_line p = Inr l" "in_columns p l" using counter_line_columns by blast
  moreover obtain ls where "fold_res (\<lambda>it o'. bind_res (counter_line it) (\<lambda>l. Inr (o' @ l))) its (out @ l) =
      Inr ((out @ l) @ concat ls)" "list_all2 in_columns its ls"
    using Cons.IH by blast
  ultimately show ?case by (intro exI [of _ "l # ls"]) simp
qed simp

lemma positive_time_perm: "mset xs = mset ys \<Longrightarrow> positive_time xs = positive_time ys"
  unfolding positive_time_def by (simp flip: sum_mset_sum_list)

lemma counters_sorted:
  "mset (perfCountersSorted m) = mset m"
  "sorted (map (execution_index \<circ> snd) (perfCountersSorted m))"
  "filter (\<lambda>p. execution_index (snd p) = k) (perfCountersSorted m) = filter (\<lambda>p. execution_index (snd p) = k) m"
  using sorted_sort_key [of "\<lambda>p. execution_index (snd p)" m]
  by (simp_all add: perfCountersSorted_def comp_def sort_key_stable)

text \<open>
  C39: the report of the performance counters has one line for each counter, in the order of execution and
  entries of one index in the order of their names. A line starts with the name, left-aligned and padded
  with blanks to exactly thirty characters (a longer name is cut to twenty-six and three dots), then the
  status padded to fifteen, and ends with the type of execution. The last line has the sum of the positive
  times, as the 64-bit arithmetic of the build wraps it.
\<close>
theorem performance_report:
  "\<exists>its ls. mset its = mset m \<and> sorted (map (execution_index \<circ> snd) its) \<and>
    (\<forall>k. filter (\<lambda>p. execution_index (snd p) = k) its = filter (\<lambda>p. execution_index (snd p) = k) m) \<and>
    list_all2 in_columns its ls \<and>
    printPerformanceCounts m dev False =
      Inr (concat ls @ column 20 (''Total time: '' @ int_text (wrap_long (positive_time m))) @
          '' microseconds'' @ [LF],
        [LF] @ ''Full device name: '' @ dev @ [LF, LF])"
proof -
  let ?its = "perfCountersSorted m"
  have time: "positive_time ?its = positive_time m" by (intro positive_time_perm counters_sorted)
  obtain ls where ls: "fold_res (\<lambda>it o'. bind_res (counter_line it) (\<lambda>l. Inr (o' @ l))) ?its [] = Inr (concat ls)"
    and lines: "list_all2 in_columns ?its ls"
    using counter_lines [of ?its "[]"] by auto
  have "wrap_long 0 = 0" by (simp add: wrap_long_def)
  then have "print_counters ?its = Inr (concat ls, wrap_long (positive_time m))"
    using print_counters_from [of ?its "[]" 0] ls by (simp add: print_counters_def time)
  then show ?thesis
    using counters_sorted [where m = m] lines
    by (intro exI [of _ ?its] exI [of _ ls]) (simp add: printPerformanceCounts_def setw_column)
qed

text \<open>As long as the sum of the times is a \<open>long long\<close>, it is the sum that is shown.\<close>

lemma positive_time_exact: "positive_time m < 2 ^ 63 \<Longrightarrow> wrap_long (positive_time m) = positive_time m"
proof -
  have "0 \<le> positive_time m" unfolding positive_time_def by (intro sum_list_nonneg) auto
  then show "positive_time m < 2 ^ 63 \<Longrightarrow> ?thesis" by (simp add: wrap_long_def)
qed

end
