(* ===== verification/ArgsHelper.thy ===== *)
theory ArgsHelper
  imports Slog
begin

text \<open>
  \<open>include/server/PersonPipeline/args_helper.hpp\<close>: the input files named on a command line, and the
  parsing of device lists and of values per device. The file system and the command line are arguments;
  what is logged is returned as the statements of \<open>Slog\<close>.
\<close>

section \<open>Splitting at a delimiter\<close>

text \<open>The loop of \<open>getline\<close>: the text after the last delimiter is an item unless it is empty.\<close>

function split :: "string \<Rightarrow> char \<Rightarrow> string list" where
  "split [] delim = []"
| "split (c # cs) delim =
     takeWhile (\<lambda>x. x \<noteq> delim) (c # cs) #
       (case dropWhile (\<lambda>x. x \<noteq> delim) (c # cs) of [] \<Rightarrow> [] | _ # rest \<Rightarrow> split rest delim)"
  by pat_completeness auto
termination
proof (relation "measure (length \<circ> fst)")
  fix c cs delim d and rest :: string
  assume "dropWhile (\<lambda>x. x \<noteq> delim) (c # cs) = d # rest"
  then have "Suc (length rest) \<le> length (c # cs)" by (metis length_dropWhile_le length_Cons)
  then show "((rest, delim), (c # cs, delim)) \<in> measure (length \<circ> fst)" by simp
qed simp

fun join :: "char \<Rightarrow> string list \<Rightarrow> string" where
  "join d [] = []"
| "join d [x] = x"
| "join d (x # y # xs) = x @ d # join d (y # xs)"

lemma split_nonempty:
  "s \<noteq> [] \<Longrightarrow> split s d = takeWhile (\<lambda>x. x \<noteq> d) s #
     (case dropWhile (\<lambda>x. x \<noteq> d) s of [] \<Rightarrow> [] | _ # rest \<Rightarrow> split rest d)"
  by (cases s) (simp_all only: split.simps list.distinct not_False_eq_True not_True_eq_False)

lemma split_item:
  "d \<notin> set x \<Longrightarrow> x \<noteq> [] \<Longrightarrow> split x d = [x]"
  "d \<notin> set x \<Longrightarrow> split (x @ d # rest) d = x # split rest d"
proof -
  assume x: "d \<notin> set x"
  then have P: "\<forall>c\<in>set x. c \<noteq> d" by auto
  have tw: "takeWhile (\<lambda>c. c \<noteq> d) x = x" "dropWhile (\<lambda>c. c \<noteq> d) x = []"
    using P by (simp_all add: takeWhile_eq_all_conv)
  show "split x d = [x]" if "x \<noteq> []"
    by (simp add: split_nonempty [OF that] tw)
  have "takeWhile (\<lambda>c. c \<noteq> d) (x @ d # rest) = x" "dropWhile (\<lambda>c. c \<noteq> d) (x @ d # rest) = d # rest"
    using P by (simp_all add: takeWhile_append2 dropWhile_append2)
  then show "split (x @ d # rest) d = x # split rest d"
    by (subst split_nonempty) simp_all
qed

lemma split_join:
  "\<forall>x\<in>set xs. d \<notin> set x \<Longrightarrow> xs \<noteq> [] \<Longrightarrow> last xs \<noteq> [] \<Longrightarrow> split (join d xs) d = xs"
  by (induction d xs rule: join.induct) (auto simp: split_item)

lemma split_parts: "x \<in> set (split s d) \<Longrightarrow> d \<notin> set x"
proof (induction s d arbitrary: x rule: split.induct)
  case (2 c cs delim)
  show ?case
  proof (cases "dropWhile (\<lambda>x. x \<noteq> delim) (c # cs)")
    case Nil
    with "2.prems" show ?thesis by (auto simp: split_nonempty simp del: split.simps dest: set_takeWhileD)
  next
    case (Cons e rest)
    with "2.prems" have "x = takeWhile (\<lambda>x. x \<noteq> delim) (c # cs) \<or> x \<in> set (split rest delim)"
      by (simp add: split_nonempty del: split.simps takeWhile.simps dropWhile.simps)
    then show ?thesis using "2.IH" [OF Cons] by (auto dest: set_takeWhileD)
  qed
qed simp

section \<open>Device lists\<close>

definition device_name :: "string \<Rightarrow> string result" where
  "device_name d = substr d 0 (idx_val (str_find d ''('' 0))"

primrec device_names :: "string list \<Rightarrow> string list result" where
  "device_names [] = Inr []"
| "device_names (d # ds) = bind_res (device_name d) (\<lambda>n. bind_res (device_names ds) (\<lambda>ns. Inr (n # ns)))"

definition parseDevices :: "string \<Rightarrow> string list result" where
  "parseDevices device_string =
     (case str_find device_string '':'' 0 of
        None \<Rightarrow> Inr [device_string]
      | Some colon_position \<Rightarrow>
          bind_res (substr device_string 0 colon_position) (\<lambda>device_type.
            if device_type = ''HETERO'' \<or> device_type = ''MULTI'' then
              bind_res (substr device_string (colon_position + 1) npos) (\<lambda>comma_separated_devices.
                device_names (split comma_separated_devices (CHR '','')))
            else Inr [device_string]))"

lemma device_names_plain:
  "\<forall>d\<in>set ds. CHR ''('' \<notin> set d \<and> length d < 2 ^ 63 \<Longrightarrow> device_names ds = Inr ds"
proof (induction ds)
  case (Cons d ds)
  then have "find_sub ''('' d = None" by (simp add: find_sub_None_iff sublist_def) (metis in_set_conv_decomp)
  then have "device_name d = Inr d" using Cons.prems by (simp add: device_name_def str_find_def substr_def npos_def)
  with Cons show ?case by simp
qed simp

section \<open>Values per device\<close>

definition toupper :: "char \<Rightarrow> char" where
  "toupper c = (if 97 \<le> uchar c \<and> uchar c \<le> 122 then char_of (uchar c - 32) else c)"

text \<open>\<open>std::stoi\<close>.\<close>

definition stoi :: "string \<Rightarrow> int result" where
  "stoi s =
     (let s1 = dropWhile is_space_char s;
          neg = (case s1 of [] \<Rightarrow> False | c # _ \<Rightarrow> c = CHR ''-'');
          s2 = (case s1 of [] \<Rightarrow> [] | c # r \<Rightarrow> if c = CHR ''-'' \<or> c = CHR ''+'' then r else s1);
          ds = takeWhile is_digit_char s2;
          v = (if neg then - int (dec_val ds) else int (dec_val ds))
      in if ds = [] then Inl Invalid_argument else if \<not> in_int v then Inl Out_of_range else Inr v)"

type_synonym device_values = "string \<rightharpoonup> nat"

text \<open>One item of the list; \<open>devices\<close> are the elements of the set, in order.\<close>

definition parse_item :: "string \<Rightarrow> string list \<Rightarrow> string \<Rightarrow> device_values \<Rightarrow> device_values result" where
  "parse_item values_string devices device_value_string m =
     (case split device_value_string (CHR '':'') of
        [] \<Rightarrow> Inr m
      | [v] \<Rightarrow> bind_res (stoi v) (\<lambda>i. Inr (fold (\<lambda>d m. m(d \<mapsto> unsigned_of_int i)) devices m))
      | [d, v] \<Rightarrow> (if d \<in> set devices then bind_res (stoi v) (\<lambda>i. Inr (m(d \<mapsto> unsigned_of_int i))) else Inr m)
      | _ \<Rightarrow> Inl (Runtime_error (''Unknown string format: '' @ values_string)))"

definition parseValuePerDevice :: "string list \<Rightarrow> string \<Rightarrow> device_values result" where
  "parseValuePerDevice devices values_string =
     fold_res (parse_item values_string devices) (split (map toupper values_string) (CHR '','')) Map.empty"

text \<open>Only listed devices get a value, and only these exceptions are thrown.\<close>

lemma fold_upd_Some: "fold (\<lambda>d m. m(d \<mapsto> v)) ds m x = Some y \<Longrightarrow> x \<in> set ds \<or> m x = Some y"
  by (induction ds arbitrary: m) (force split: if_splits)+

lemma parse_item_dom: "parse_item vs ds s m = Inr m' \<Longrightarrow> dom m \<subseteq> set ds \<Longrightarrow> dom m' \<subseteq> set ds"
  by (auto simp: parse_item_def res_simps split: list.splits if_splits
      dest!: fold_upd_Some dest: subsetD [OF _ domI])

lemma parse_items_dom:
  "fold_res (parse_item vs ds) ts m = Inr m' \<Longrightarrow> dom m \<subseteq> set ds \<Longrightarrow> dom m' \<subseteq> set ds"
proof (induction ts arbitrary: m)
  case (Cons t ts)
  then obtain m1 where "parse_item vs ds t m = Inr m1" and "fold_res (parse_item vs ds) ts m1 = Inr m'"
    by (auto simp: res_simps)
  then show ?case using Cons parse_item_dom by blast
qed simp

lemma parse_values_dom: "parseValuePerDevice devices s = Inr m \<Longrightarrow> dom m \<subseteq> set devices"
  unfolding parseValuePerDevice_def by (erule parse_items_dom) simp

lemma stoi_Inl: "stoi s = Inl e \<Longrightarrow> e = Invalid_argument \<or> e = Out_of_range"
  by (auto simp: stoi_def Let_def split: if_splits)

lemma parse_values_errors:
  "parseValuePerDevice devices s = Inl e \<Longrightarrow>
    e = Invalid_argument \<or> e = Out_of_range \<or> e = Runtime_error (''Unknown string format: '' @ s)"
proof -
  have item: "parse_item vs ds t m = Inl e \<Longrightarrow>
      e = Invalid_argument \<or> e = Out_of_range \<or> e = Runtime_error (''Unknown string format: '' @ vs)" for vs ds t m
    by (auto simp: parse_item_def res_simps dest: stoi_Inl split: list.splits if_splits)
  have "fold_res (parse_item vs ds) ts m = Inl e \<Longrightarrow>
      e = Invalid_argument \<or> e = Out_of_range \<or> e = Runtime_error (''Unknown string format: '' @ vs)" for vs ds ts m
    by (induction ts arbitrary: m) (auto simp: res_simps dest: item)
  then show "parseValuePerDevice devices s = Inl e \<Longrightarrow>
    e = Invalid_argument \<or> e = Out_of_range \<or> e = Runtime_error (''Unknown string format: '' @ s)"
    unfolding parseValuePerDevice_def by blast
qed

section \<open>Input files\<close>

text \<open>\<open>stat\<close> says whether a path is a directory, or fails; \<open>opendir\<close> and \<open>readdir\<close> give its entries.\<close>

record directories =
  stat :: "string \<Rightarrow> bool option"
  readdir :: "string \<Rightarrow> string list option"

type_synonym statements = "(logger \<times> log_arg list) list"

definition files_log :: "string list \<Rightarrow> statements" where
  "files_log files =
     (if length files < 20
      then (Info, [Text ''Files were added: '', Text (dec (length files))]) #
           map (\<lambda>f. (Info, [Text ''    '', Text f])) files
      else [(Info, [Text ''Files were added: '', Text (dec (length files)),
              Text ''. Too many to display each of them.''])])"

text \<open>
  A path that cannot be examined is used all the same when it starts with \<open>rtsp:\<close>; then the code reads a
  \<open>struct stat\<close> that was never filled.
\<close>

definition readInputFilesArguments :: "directories \<Rightarrow> string list \<Rightarrow> string \<Rightarrow> (string list \<times> statements) result" where
  "readInputFilesArguments dirs files arg =
     (case stat dirs arg of
        None \<Rightarrow>
          (if take 5 arg \<noteq> ''rtsp:''
           then Inr (files, [(Warn, [Text ''File '', Text arg, Text '' cannot be opened!''])])
           else Inl Undefined_behaviour)
      | Some is_dir \<Rightarrow>
          (if is_dir then
             (case readdir dirs arg of
                None \<Rightarrow> Inr (files, [(Warn, [Text ''Directory '', Text arg, Text '' cannot be opened!''])])
              | Some names \<Rightarrow>
                  (let files' = files @ map (\<lambda>n. arg @ ''/'' @ n) (filter (\<lambda>n. n \<noteq> ''.'' \<and> n \<noteq> ''..'') names)
                   in Inr (files', files_log files')))
           else (let files' = files @ [arg] in Inr (files', files_log files'))))"

fun files_loop ::
  "directories \<Rightarrow> string list \<Rightarrow> bool \<Rightarrow> string list \<Rightarrow> statements \<Rightarrow> (string list \<times> statements) result" where
  "files_loop dirs [] reading files log = Inr (files, log)"
| "files_loop dirs (a # as) reading files log =
     (if a = ''-i'' \<or> a = ''--images'' then files_loop dirs as True files log
      else if \<not> reading then files_loop dirs as reading files log
      else if take 1 a = ''-'' then Inr (files, log)
      else bind_res (readInputFilesArguments dirs files a) (\<lambda>(files', l).
        files_loop dirs as reading files' (log @ l)))"

definition parseInputFilesArguments :: "directories \<Rightarrow> string list \<Rightarrow> string list \<Rightarrow> (string list \<times> statements) result"
where
  "parseInputFilesArguments dirs args files = files_loop dirs args False files []"

text \<open>Without an option that asks for them, no file is read; with plain files after it, these are.\<close>

lemma files_without_option:
  "''-i'' \<notin> set args \<Longrightarrow> ''--images'' \<notin> set args \<Longrightarrow> parseInputFilesArguments dirs args files = Inr (files, [])"
proof -
  have "''-i'' \<notin> set as \<Longrightarrow> ''--images'' \<notin> set as \<Longrightarrow> files_loop dirs as False files l = Inr (files, l)" for "as" l
    by (induction "as") auto
  then show "''-i'' \<notin> set args \<Longrightarrow> ''--images'' \<notin> set args \<Longrightarrow> parseInputFilesArguments dirs args files = Inr (files, [])"
    by (simp add: parseInputFilesArguments_def)
qed

lemma files_plain:
  assumes "\<forall>a\<in>set as. stat dirs a = Some False \<and> take 1 a \<noteq> ''-''"
  shows "\<exists>l'. files_loop dirs as True files l = Inr (files @ as, l')"
  using assms
proof (induction "as" arbitrary: files l)
  case (Cons a "as")
  then have "a \<noteq> ''-i''" "a \<noteq> ''--images''" by auto
  then show ?case
    using Cons.prems Cons.IH [of "files @ [a]" "l @ files_log (files @ [a])"]
    by (simp add: readInputFilesArguments_def Let_def)
qed simp

end
