(* ===== verification/Assertion.thy ===== *)
theory Assertion
  imports CommonHelpers
begin

text \<open>
  \<open>common.hpp\<close> and \<open>common.cpp\<close>: the assertion macro. Nothing in the program uses it, and nothing can: the
  function is declared in the namespace \<open>SISD\<close>, where the macro calls it, and defined in \<open>inference\<close>. Here
  is what the two would do.
\<close>

text \<open>What is written to \<open>stderr\<close> before \<open>abort\<close>.\<close>

definition sisdAssertFail :: "string \<Rightarrow> int \<Rightarrow> string \<Rightarrow> string \<Rightarrow> string" where
  "sisdAssertFail cond line file func =
     file @ '':'' @ int_text line @ '': Assertion '' @ [DQ] @ cond @ [DQ] @ '' in function '' @ [DQ] @ func @ [DQ] @
     '' failed'' @ [LF]"

datatype assertion = Passed | Aborted string

definition SISD_ASSERT :: "bool \<Rightarrow> string \<Rightarrow> int \<Rightarrow> string \<Rightarrow> string \<Rightarrow> assertion" where
  "SISD_ASSERT cond text line file func =
     (if \<not> cond then Aborted (sisdAssertFail text line file func) else Passed)"

lemma assertion_text:
  "SISD_ASSERT False ''n > 0'' 12 ''a.cpp'' ''run'' =
    Aborted (''a.cpp:12: Assertion '' @ [DQ] @ ''n > 0'' @ [DQ] @ '' in function '' @ [DQ] @ ''run'' @ [DQ] @ '' failed'' @ [LF])"
  by code_simp

end
