(* ===== verification/Spec2Isabelle.thy ===== *)
theory Spec2Isabelle
  imports Failures Restart InitLog ClientConsole HandleThreads ClientObjects Base64Views CommonHelpers ArgsHelper Assertion
begin

text \<open>
  A verification library for SimpleInferenceServiceDemo, a service that finds persons in images. A client
  (\<open>source/client\<close>) reads image files, encodes them in base64 and posts them as one multipart message; a
  server (\<open>source/server\<close>), built on Boost.Asio, parses the HTTP request byte by byte, decodes the images,
  runs a detection pipeline on each, combines the results to one JSON text, stores it in Redis under a
  fresh handle and replies; a second route lists what is stored.

  \<^bold>\<open>How the theories correspond to the code.\<close>

  \<^item> \<open>Prelude\<close>: bytes, the exceptions of C++ and results that may be one, \<open>std::string\<close>'s \<open>operator[]\<close>,
    \<open>find\<close>, \<open>find_first_of\<close> and \<open>substr\<close> with \<open>size_t\<close> arithmetic modulo \<open>2 ^ 64\<close>, \<open>std::to_string\<close>,
    \<open>std::stoul\<close>. A search that fails is \<open>None\<close>; \<open>idx_val\<close> turns it into \<open>npos\<close> where the code computes on.
    Signed arithmetic wraps (\<open>wrap_int\<close>, \<open>wrap_long\<close>), as \<open>CMakeLists.txt\<close> builds with \<open>-fwrapv\<close> on UNIX.
  \<^item> \<open>Interfaces\<close>: the two contracts between components, as locales: \<open>byte_machine\<close>, a machine that takes
    bytes one at a time and the loops that drive it (interpreted by the request parser, used for the
    independence of chunks and for its exceptions), and \<open>transfer_codec\<close>, an encoding whose output is safe
    inside a multipart body (interpreted by the base64 codec, used for the upload).
  \<^item> \<open>Base64\<close>: \<open>common/utility/base64.cpp\<close>. The encoder's 32-bit counter and its loop that may not end, the
    decoder's reads through \<open>operator[]\<close> and its thrown string literal, the line-breaking variants; each
    loop is proved equal to a structural reference. \<open>Base64Views\<close>: the overloads for strings and views.
  \<^item> \<open>Http\<close>: \<open>header.hpp\<close>, \<open>request.hpp\<close>, \<open>reply.hpp\<close>, \<open>reply.cpp\<close>, \<open>mime_types.cpp\<close>.
  \<^item> \<open>RequestParser\<close>: \<open>request_parser.hpp\<close>, \<open>request_parser.cpp\<close>. One branch per state of \<open>consume\<close>,
    grouped by request line, headers and body; the invariant that makes \<open>headers.back()\<close> defined; what is
    accepted, in both directions.
  \<^item> \<open>HistoryStorage\<close>: \<open>database/historyStorage.cpp\<close>, over two Redis commands; \<open>HandleThreads\<close>: the
    function that hands out handles as the steps of threads under its mutex, which take effect one after the
    other (the server itself calls it from one thread).
  \<^item> \<open>RequestHandler\<close>: \<open>request_handler.cpp\<close>, all of it; \<open>Multipart\<close>: the messages its search for parts
    reads back.
  \<^item> \<open>Connection\<close>: \<open>connection.cpp\<close>, \<open>connection_manager.cpp\<close>; \<open>Server\<close>: \<open>server.cpp\<close> and the server's
    \<open>main.cpp\<close>. The event loop is a step relation: a state holds the multiset of outstanding operations, a
    step completes one of them with any result Asio may deliver and runs the handler the code has bound to
    it. The names of the members are kept but for a trailing underscore (\<open>managed\<close> is \<open>connections_\<close>,
    \<open>next_connection\<close> is \<open>new_connection_\<close>). The calls of \<open>close\<close> are those that throw: which sockets fail to
    close, and with what text, is the record \<open>closes\<close>, and every handler that closes one is a result. A step
    (\<open>step\<close>) is a handler that returned, under some \<open>closes\<close>; \<open>run_throws\<close> is one that threw. What the
    handlers do when no close fails is \<open>read_done\<close>, \<open>write_done\<close>, \<open>stop_done\<close> and \<open>delivered\<close>, which the
    proofs use once it is shown that a handler that returns has done just that. \<open>ServerProgress\<close>: the steps the loop can always take.
    \<open>Startup\<close>: the constructor's calls to the operating system and the end of the process.
    \<open>Session\<close>: the requests of a run in the order in which they were handled, and the history they leave.
  \<^item> \<open>Client\<close>: \<open>client.hpp\<close>, \<open>client.cpp\<close>, the client's \<open>main.cpp\<close>; \<open>Upload\<close>: client and server together.
    \<open>ClientObjects\<close>: requests as objects that own what they point to, and the \<open>Client\<close> object.
    \<open>ClientConsole\<close>: the client with what it prints and its exit status, proved to do what it does in \<open>Client\<close>.
    The exceptions that \<open>sendRequest\<close> catches are values (\<open>Throws\<close>), and the \<open>try\<close> block and its handler
    are separate functions.
  \<^item> \<open>Effects\<close>: member functions that change an object and may throw, the \<open>try\<close> blocks of the pipeline, and
    single precision numbers, whose rounding is an argument.
  \<^item> \<open>Tensor\<close>, \<open>ImageBlob\<close>: tensor descriptors (\<open>common.hpp\<close>) and the copy of an image into a network input
    (\<open>ocv_common.hpp\<close>); an image is memory with strides.
  \<^item> \<open>Detection\<close>, \<open>Attributes\<close>, \<open>PersonPipeline\<close>: \<open>PersonPipeline.cpp\<close>. The structs that inherit from
    \<open>BaseDetection\<close> are records that extend its record; \<open>init\<close>, \<open>run\<close> and \<open>constructJsonMessage\<close> are programs
    on the pipeline. \<open>PipelineRefinement\<close> states what a run computes as a function of the image and proves
    that every run computes it; \<open>PipelineService\<close> puts the pipeline into the request handler. \<open>InitLog\<close>: \<open>init\<close>
    with the statements of its log, proved to do the same.
  \<^item> \<open>Slog\<close>, \<open>CommonHelpers\<close>, \<open>ArgsHelper\<close>: the log streams (\<open>slog.hpp\<close>), proved to implement a log made of
    lines, the performance counters and device names (\<open>common.hpp\<close>), and \<open>args_helper.hpp\<close>; \<open>Assertion\<close>: the
    assertion macro.
  \<^item> \<open>Exchange\<close>: a client program and the event loop, joined by a connection that carries the bytes of the one
    to the other; \<open>WholeService\<close>: the same with the person pipeline in the handler; \<open>Failures\<close>: requests that
    end the service, up to the end of the process; \<open>Restart\<close>: two server processes on one Redis.

  \<^bold>\<open>What is outside.\<close> The Redis commands, Asio and its calls to the operating system, the file system, the
  connection of the client, what the option parser makes of the command line (the map of the values, or its
  exception), the iteration order of an \<open>unordered_map\<close>, the inference engine, the image library, the JSON
  writer and the rounding of single precision are arguments of the definitions. What is assumed of them is
  a hypothesis of the theorem that needs it: \<open>redis_hash\<close> (HSET sets one field, HGETALL returns each field
  once), \<open>completes\<close> (an operation is aborted only after its socket was closed, one initiated on a closed
  socket fails), a permutation as iteration order, \<open>engine_laws\<close> (the engine creates, starts and finishes
  the requests for its inputs, the blob it gives for the input of a network has the dimensions of that input,
  an inference depends on the network and its input alone, images lie in their memory), \<open>defined_result\<close>
  (a given image does not make the pipeline read what is undefined), \<open>ieee_single\<close> (the error of a
  rounding). The handler takes what the pipeline returns for an image as a function (\<open>person_run\<close>);
  \<open>PipelineService\<close> shows that the pipeline, state and all, is one, on the images it is given.

  \<^bold>\<open>What the lemmas show.\<close> The upload theorems follow the bytes of the files through encoder, message,
  parser, search for parts and decoder to the pipeline and back to the reply. The server theorems show
  that no connection is forgotten, that each gets at most one reply, determined by the bytes it sent, that
  the loop runs dry after the stop signal, which is always awaited and, on whatever run, ends the process, and
  that until then a new client can always be served. The
  pipeline theorems show what a successful \<open>init\<close> establishes, that a run does not depend on what was
  analysed before, which detections it keeps, where their boxes lie and how an image reaches the network.
  The exchange theorems put all of it together: what a client prints after an upload or a request for the
  history, from any state the server can be in, and that the history is at every moment exactly what was
  answered; that one file which is no image, or one malformed length, ends the service and can never be taken in; and which answers a
  client no longer sees after a restart. Others show that requests in the client own their memory one to one and that handles are unique
  under threads.
  The others give the contract of each component on every
  branch, errors included: exactly which exceptions leave the parser, the handler, the event loop and the
  client, and on which inputs; and which inputs the code mistreats (an encoder that
  does not end on \<open>2 ^ 32\<close> bytes, a Content-Length that ends the server, an image without a person that does
  the same, one file that is not an image among many that does, a close that fails, an unknown option of
  the client, records overwritten after a restart, an invalid
  client request that cannot be asked whether it is valid, colours averaged at a fixed corner).

  \<^bold>\<open>Bounds.\<close> There is no fuel: every loop is structural, has a termination measure, or is a partial
  function whose value is shown (the encoder, on all inputs). \<open>fits\<close> bounds strings by \<open>2 ^ 63\<close>, below
  which no \<open>size_t\<close> computation on positions wraps; \<open>buffer_size\<close> is that of the connection's array.
  Version numbers, coordinates and sums of times are kept in the width of the code, wrap-around included;
  \<open>small_version\<close> are the version numbers that do not wrap, \<open>2 ^ 32\<close> bounds the records of a history.

  \<^bold>\<open>Not modelled.\<close> The timing, and what the request handler and a run of the pipeline print (what the
  initialisation and the client print is modelled, and the log streams are; the texts that libraries
  make, of the help, of exceptions and of versions, are arguments); the parsing of the command line, which is
  Boost's; bytes lost between the two processes, for which the network is an argument of the client.
\<close>

end
